(* ===== verification/Prelude.thy ===== *)
theory Prelude
  imports Main "HOL-Library.Word" "HOL-Library.AList" "HOL-Library.Multiset"
    "HOL-Library.List_Lexorder" "HOL-Library.Char_ord" "HOL-Library.Product_Lexorder" "HOL-Library.Sublist"
begin

text \<open>
  The shared base of the development: the collections the component proofs feed to the
  simplifier, association lists (the model of Go's maps with their iteration order), decimal
  printing (the \<open>%d\<close> verb of package \<open>fmt\<close>) with its injectivity, and a few facts on lists.
\<close>

named_theorems op_defs \<open>definitions of the store operations, for unfolding in branch lemmas\<close>

section \<open>Decimal printing\<close>

definition digit_char :: "nat \<Rightarrow> char" where
  "digit_char d = char_of (48 + d)"

fun digits :: "nat \<Rightarrow> string" where
  "digits n = (if n < 10 then [digit_char n] else digits (n div 10) @ [digit_char (n mod 10)])"

declare digits.simps [simp del]

definition undigits :: "string \<Rightarrow> nat" where
  "undigits = foldl (\<lambda>acc c. acc * 10 + (of_char c - 48)) 0"

lemma of_char_digit_char: "d < 10 \<Longrightarrow> (of_char (digit_char d) :: nat) = 48 + d"
  by (simp add: digit_char_def)

lemma undigits_snoc: "undigits (xs @ [c]) = undigits xs * 10 + (of_char c - 48)"
  by (simp add: undigits_def)

lemma undigits_digits [simp]: "undigits (digits n) = n"
proof (induction n rule: digits.induct)
  case (1 n)
  show ?case
  proof (cases "n < 10")
    case True
    then show ?thesis
      by (simp add: digits.simps [of n] undigits_def of_char_digit_char)
  next
    case False
    with 1 have "undigits (digits (n div 10)) = n div 10" by simp
    with False show ?thesis
      by (simp add: digits.simps [of n] undigits_snoc of_char_digit_char)
  qed
qed

lemma digits_inject [simp]: "digits m = digits n \<longleftrightarrow> m = n"
  by (metis undigits_digits)

lemma digits_nonempty [simp]: "digits n \<noteq> []"
  by (simp add: digits.simps [of n])

section \<open>Association lists\<close>

text \<open>
  A Go map is an association list with distinct keys. \<open>AList.update\<close> overwrites a key in place
  or appends it. \<open>map_vals\<close> is a \<open>range\<close> loop that updates the entries it visits.
\<close>

type_synonym 'v amap = "(string \<times> 'v) list"

abbreviation keys :: "'v amap \<Rightarrow> string list" where
  "keys m \<equiv> map fst m"

abbreviation upd :: "string \<Rightarrow> 'v \<Rightarrow> 'v amap \<Rightarrow> 'v amap" where
  "upd \<equiv> AList.update"

definition map_vals :: "('v \<Rightarrow> 'v) \<Rightarrow> 'v amap \<Rightarrow> 'v amap" where
  "map_vals f m = map (\<lambda>(k, v). (k, f v)) m"

lemma lookup_upd [simp]: "map_of (upd k v m) = (map_of m)(k \<mapsto> v)"
  by (rule update_conv')

lemma keys_upd: "keys (upd k v m) = (if k \<in> set (keys m) then keys m else keys m @ [k])"
  by (rule update_keys)

lemma distinct_keys_upd [simp]: "distinct (keys m) \<Longrightarrow> distinct (keys (upd k v m))"
  by (rule distinct_update)

lemma upd_fresh: "k \<notin> set (keys m) \<Longrightarrow> upd k v m = m @ [(k, v)]"
  by (induction m) auto

lemma keys_map_vals [simp]: "keys (map_vals f m) = keys m"
  by (simp add: map_vals_def case_prod_beta comp_def)

lemma lookup_map_vals [simp]: "map_of (map_vals f m) k = map_option f (map_of m k)"
  by (induction m) (auto simp: map_vals_def)

lemma lookup_in_set: "distinct (keys m) \<Longrightarrow> map_of m k = Some v \<longleftrightarrow> (k, v) \<in> set m"
  by (simp add: map_of_eq_Some_iff)

lemma lookup_perm: "distinct (keys m) \<Longrightarrow> mset m = mset m' \<Longrightarrow> map_of m = map_of m'"
  by (metis map_of_inject_set mset_eq_imp_distinct_iff mset_map set_mset_mset)

text \<open>
  A loop that updates every entry satisfying a guard and counts them, and its effect.
\<close>

definition sweep :: "('v \<Rightarrow> bool) \<Rightarrow> ('v \<Rightarrow> 'v) \<Rightarrow> 'v amap \<Rightarrow> 'v amap \<times> int" where
  "sweep p f m = (map_vals (\<lambda>v. if p v then f v else v) m, int (length (filter (p \<circ> snd) m)))"

lemma keys_sweep [simp]: "keys (fst (sweep p f m)) = keys m"
  by (simp add: sweep_def)

lemma lookup_sweep: "map_of (fst (sweep p f m)) k = map_option (\<lambda>v. if p v then f v else v) (map_of m k)"
  by (simp add: sweep_def)

lemma sweep_idle: "(\<And>k v. (k, v) \<in> set m \<Longrightarrow> \<not> p v) \<Longrightarrow> sweep p f m = (m, 0)"
  by (auto simp: sweep_def map_vals_def filter_empty_conv intro: map_idI)

section \<open>Lists\<close>

lemma find_SomeD: "find P xs = Some x \<Longrightarrow> x \<in> set xs \<and> P x"
  by (auto simp: find_Some_iff)

lemma find_None_ball: "find P xs = None \<longleftrightarrow> (\<forall>x \<in> set xs. \<not> P x)"
  by (auto simp: find_None_iff)

lemma find_NoneD: "find P xs = None \<Longrightarrow> x \<in> set xs \<Longrightarrow> \<not> P x"
  by (auto simp: find_None_iff)

text \<open>Insertion sort by an arbitrary comparison.\<close>

fun ins_by :: "('a \<Rightarrow> 'a \<Rightarrow> bool) \<Rightarrow> 'a \<Rightarrow> 'a list \<Rightarrow> 'a list" where
  "ins_by le x [] = [x]"
| "ins_by le x (y # ys) = (if le x y then x # y # ys else y # ins_by le x ys)"

definition sort_by :: "('a \<Rightarrow> 'a \<Rightarrow> bool) \<Rightarrow> 'a list \<Rightarrow> 'a list" where
  "sort_by le xs = foldr (ins_by le) xs []"

lemma mset_ins_by [simp]: "mset (ins_by le x xs) = add_mset x (mset xs)"
  by (induction xs) auto

lemma set_ins_by [simp]: "set (ins_by le x xs) = insert x (set xs)"
  by (induction xs) auto

lemma mset_sort_by [simp]: "mset (sort_by le xs) = mset xs"
  by (induction xs) (simp_all add: sort_by_def)

lemma set_sort_by [simp]: "set (sort_by le xs) = set xs"
  by (metis mset_sort_by set_mset_mset)

lemma sorted_ins_by:
  assumes "\<And>x y z. le x y \<Longrightarrow> le y z \<Longrightarrow> le x z" "\<And>x y. le x y \<or> le y x" "sorted_wrt le xs"
  shows "sorted_wrt le (ins_by le x xs)"
  using assms(3)
proof (induction xs)
  case (Cons y ys)
  with assms(1) [of x y] assms(2) [of x y] show ?case by auto
qed simp

lemma sorted_sort_by:
  assumes "\<And>x y z. le x y \<Longrightarrow> le y z \<Longrightarrow> le x z" "\<And>x y. le x y \<or> le y x"
  shows "sorted_wrt le (sort_by le xs)"
  unfolding sort_by_def by (induction xs) (simp_all add: sorted_ins_by [OF assms])

end
