(* ===== verification/Go_Time.thy ===== *)
theory Go_Time
  imports Prelude "HOL-Library.Signed_Division"
begin

text \<open>
  What the code uses of Go's package \<open>time\<close>. A \<open>time.Time\<close> is the number of nanoseconds since
  Go's zero time (1 January of year 1, UTC), so \<open>IsZero\<close> is \<open>t = 0\<close> and \<open>Truncate\<close>, which Go
  defines from the zero time, is a \<open>mod\<close>. Its range (hundreds of billions of years) is never left
  by the code and is not bounded here. A \<open>time.Duration\<close> is an \<open>int64\<close> of nanoseconds: a 64-bit
  word read with \<open>sint\<close>, whose \<open>+\<close> and \<open>*\<close> wrap as Go's do; \<open>Sub\<close> saturates.
\<close>

type_synonym gtime = int
type_synonym duration = "64 word"

abbreviation is_zero :: "gtime \<Rightarrow> bool" where
  "is_zero t \<equiv> t = 0"

definition add_time :: "gtime \<Rightarrow> duration \<Rightarrow> gtime" where
  "add_time t d = t + sint d"

definition max_dur :: int where "max_dur = 2 ^ 63 - 1"
definition min_dur :: int where "min_dur = - (2 ^ 63)"

definition sub_time :: "gtime \<Rightarrow> gtime \<Rightarrow> duration" where
  "sub_time t u = word_of_int (max min_dur (min max_dur (t - u)))"

definition truncate_time :: "gtime \<Rightarrow> duration \<Rightarrow> gtime" where
  "truncate_time t d = (if sint d \<le> 0 then t else t - t mod sint d)"

text \<open>Go's integer division truncates towards zero.\<close>

definition div_dur :: "duration \<Rightarrow> int \<Rightarrow> duration" where
  "div_dur d k = word_of_int (sint d sdiv k)"

definition milliseconds :: "duration \<Rightarrow> int" where
  "milliseconds d = sint d sdiv 1000000"

definition millis :: "int \<Rightarrow> duration" where "millis n = word_of_int (n * 1000000)"
definition seconds :: "int \<Rightarrow> duration" where "seconds n = word_of_int (n * 1000000000)"

abbreviation minutes :: "int \<Rightarrow> duration" where "minutes n \<equiv> seconds (60 * n)"
abbreviation hours :: "int \<Rightarrow> duration" where "hours n \<equiv> seconds (3600 * n)"

section \<open>Facts\<close>

lemma sint_range64: "- (2 ^ 63) \<le> sint (d :: duration) \<and> sint d < 2 ^ 63"
  using sint_range_size [of d] by (simp add: word_size)

lemma sint_of_int64: "- (2 ^ 63) \<le> x \<Longrightarrow> x < 2 ^ 63 \<Longrightarrow> sint (word_of_int x :: duration) = x"
  by (simp add: sint_sbintrunc' signed_take_bit_int_eq_self)

lemma add_time_0 [simp]: "add_time t 0 = t"
  by (simp add: add_time_def)

lemma add_time_mono: "0 \<le> sint d \<Longrightarrow> t \<le> add_time t d"
  by (simp add: add_time_def)

lemma sint_sub_time: "sint (sub_time t u) = max min_dur (min max_dur (t - u))"
  unfolding sub_time_def by (rule sint_of_int64) (auto simp: min_dur_def max_dur_def)

lemma sdiv_pos: "0 \<le> x \<Longrightarrow> 0 < k \<Longrightarrow> x sdiv k = x div (k :: int)"
  by (simp add: signed_divide_int_eq_divide_int sgn_if)

lemma truncate_time_le: "0 < sint d \<Longrightarrow> truncate_time t d \<le> t"
  by (simp add: truncate_time_def)

lemma truncate_time_gt: "0 < sint d \<Longrightarrow> t < truncate_time t d + sint d"
  using pos_mod_bound [of "sint d" t] by (simp add: truncate_time_def)

lemma truncate_time_dvd: "0 < sint d \<Longrightarrow> sint d dvd truncate_time t d"
  by (simp add: truncate_time_def minus_mod_eq_mult_div)

lemma sint_seconds: "\<bar>n\<bar> \<le> 9000000000 \<Longrightarrow> sint (seconds n) = n * 1000000000"
  unfolding seconds_def by (rule sint_of_int64) auto

lemma sint_millis: "\<bar>n\<bar> \<le> 9000000000000 \<Longrightarrow> sint (millis n) = n * 1000000"
  unfolding millis_def by (rule sint_of_int64) auto

end
