(* ===== verification/Backoff.thy ===== *)
theory Backoff
  imports Go_Time
begin

text \<open>
  Retry delays: \<open>backoff.go\<close>. A \<open>Backoff\<close> is a function of the attempt number that may draw
  from the global random source and may panic (\<open>rand.Int64N\<close> panics when its bound is not
  positive), so the model's type carries the source and an error result.
\<close>

datatype panic = PanicInt64N int

type_synonym jitter_source = "int \<Rightarrow> int"
type_synonym backoff = "jitter_source \<Rightarrow> int \<Rightarrow> panic + duration"

definition int64N :: "jitter_source \<Rightarrow> int \<Rightarrow> panic + int" where
  "int64N rnd n = (if n \<le> 0 then Inl (PanicInt64N n) else Inr (rnd n))"

text \<open>What package \<open>math/rand/v2\<close> documents of \<open>Int64N\<close>: a value in \<open>[0, n)\<close>.\<close>

definition jitter_ok :: "jitter_source \<Rightarrow> bool" where
  "jitter_ok rnd \<longleftrightarrow> (\<forall>n. 0 < n \<longrightarrow> 0 \<le> rnd n \<and> rnd n < n)"

definition fixed_backoff :: "duration \<Rightarrow> backoff" where
  "fixed_backoff d = (\<lambda>rnd attempt. Inr d)"

definition clamp_attempt :: "int \<Rightarrow> int" where
  "clamp_attempt attempt = (if attempt < 1 then 1 else attempt)"

definition linear_backoff :: "duration \<Rightarrow> backoff" where
  "linear_backoff base = (\<lambda>rnd attempt. Inr (base * word_of_int (clamp_attempt attempt)))"

text \<open>The doubling loop \<open>for i := 1; i < attempt; i++\<close>, with its early exit at the cap.\<close>

function exp_loop :: "duration \<Rightarrow> int \<Rightarrow> int \<Rightarrow> duration \<Rightarrow> duration" where
  "exp_loop mx attempt i d =
     (if i < attempt
      then (let d' = d * 2 in if sint mx \<le> sint d' then mx else exp_loop mx attempt (i + 1) d')
      else d)"
  by pat_completeness auto
termination
  by (relation "measure (\<lambda>(mx, attempt, i, d). nat (attempt - i))") auto

declare exp_loop.simps [simp del]

definition exp_delay :: "duration \<Rightarrow> duration \<Rightarrow> int \<Rightarrow> duration" where
  "exp_delay base mx attempt =
     (let d = exp_loop mx (clamp_attempt attempt) 1 base
      in if sint mx < sint d then mx else d)"

definition exponential_backoff :: "duration \<Rightarrow> duration \<Rightarrow> backoff" where
  "exponential_backoff base mx = (\<lambda>rnd attempt.
     let d = exp_delay base mx attempt
     in case int64N rnd (sint d sdiv 4 + 1) of
          Inl p \<Rightarrow> Inl p
        | Inr r \<Rightarrow> Inr (d + word_of_int r))"

text \<open>The manager's default, set in \<open>New\<close> (\<open>manager.go\<close>).\<close>

definition default_backoff :: backoff where
  "default_backoff = exponential_backoff (seconds 30) (hours 1)"

section \<open>The doubling loop\<close>

lemma exp_loop_exact:
  assumes "0 < sint d" "sint d < 2 ^ 62" "sint mx \<le> 2 ^ 62" "i \<le> attempt"
  shows "min (sint (exp_loop mx attempt i d)) (sint mx) =
    min (sint d * 2 ^ nat (attempt - i)) (sint mx)"
  using assms
proof (induction mx attempt i d rule: exp_loop.induct)
  case (1 mx attempt i d)
  show ?case
  proof (cases "i < attempt")
    case False
    with "1.prems" have "i = attempt" by simp
    then show ?thesis by (simp add: exp_loop.simps [of mx attempt attempt d])
  next
    case True
    let ?d' = "d * 2"
    have d': "sint ?d' = 2 * sint d"
    proof -
      have "?d' = word_of_int (2 * sint d)"
        by (simp add: mult.commute)
      moreover have "sint (word_of_int (2 * sint d) :: duration) = 2 * sint d"
        using "1.prems" by (intro sint_of_int64) auto
      ultimately show ?thesis by (simp add: mult.commute)
    qed
    have step: "nat (attempt - i) = Suc (nat (attempt - (i + 1)))"
      using True by simp
    show ?thesis
    proof (cases "sint mx \<le> sint ?d'")
      case True
      have "(1 :: int) \<le> 2 ^ nat (attempt - (i + 1))" by simp
      with "1.prems"(1) have "sint d * 2 \<le> sint d * 2 * 2 ^ nat (attempt - (i + 1))" by simp
      with True d' \<open>i < attempt\<close> show ?thesis
        by (simp add: exp_loop.simps [of mx attempt i d] step mult.assoc min_def)
    next
      case False
      with "1.IH" [OF True refl False] "1.prems" d' True
      have "min (sint (exp_loop mx attempt (i + 1) ?d')) (sint mx) =
        min (2 * sint d * 2 ^ nat (attempt - (i + 1))) (sint mx)"
        by simp
      with False True show ?thesis
        by (simp add: exp_loop.simps [of mx attempt i d] step Let_def mult.assoc mult.left_commute)
    qed
  qed
qed

lemma exp_delay_exact:
  assumes "0 < sint base" "sint base < 2 ^ 62" "sint mx \<le> 2 ^ 62"
  shows "sint (exp_delay base mx attempt) =
    min (sint base * 2 ^ nat (clamp_attempt attempt - 1)) (sint mx)"
proof -
  have "1 \<le> clamp_attempt attempt" by (simp add: clamp_attempt_def)
  from exp_loop_exact [OF assms this] show ?thesis
    by (auto simp: exp_delay_def Let_def min_def)
qed

text \<open>The value of the exponential backoff where no doubling wraps, with the drawn jitter.\<close>

lemma exponential_backoff_value:
  assumes "0 < sint base" "sint base < 2 ^ 62" "0 < sint mx" "sint mx \<le> 2 ^ 62" "jitter_ok rnd"
    and e: "e = min (sint base * 2 ^ nat (clamp_attempt attempt - 1)) (sint mx)"
  shows "\<exists>d. exponential_backoff base mx rnd attempt = Inr d \<and>
    sint d = e + rnd (e div 4 + 1) \<and> 0 \<le> rnd (e div 4 + 1) \<and> rnd (e div 4 + 1) \<le> e div 4"
proof -
  let ?d = "exp_delay base mx attempt"
  have d: "sint ?d = e" using assms by (simp add: exp_delay_exact)
  have pos: "0 < e" using assms by simp
  have le: "e \<le> 2 ^ 62" using assms(4) e by linarith
  have n: "sint ?d sdiv 4 + 1 = e div 4 + 1" using pos d by (simp add: sdiv_pos)
  have npos: "0 < e div 4 + 1" using pos by (simp add: pos_imp_zdiv_nonneg_iff)
  from assms(5) have "0 \<le> rnd (e div 4 + 1) \<and> rnd (e div 4 + 1) < e div 4 + 1"
    unfolding jitter_ok_def using npos by blast
  then have r: "0 \<le> rnd (e div 4 + 1)" "rnd (e div 4 + 1) \<le> e div 4" by simp_all
  have "?d + word_of_int (rnd (e div 4 + 1)) = word_of_int (e + rnd (e div 4 + 1))"
    by (simp flip: d)
  moreover have "sint (word_of_int (e + rnd (e div 4 + 1)) :: duration) = e + rnd (e div 4 + 1)"
    using r le pos by (intro sint_of_int64) auto
  ultimately have "sint (?d + word_of_int (rnd (e div 4 + 1))) = e + rnd (e div 4 + 1)" by simp
  with n npos r show ?thesis
    by (auto simp: exponential_backoff_def int64N_def Let_def)
qed



text \<open>
  The linear backoff is exactly \<open>base * max 1 attempt\<close> whenever that product is an
  \<open>int64\<close>, whatever the sign of the base; past that range it wraps, as Go's multiplication does.
\<close>

lemma linear_backoff_exact:
  assumes "- (2 ^ 63) \<le> sint base * clamp_attempt attempt"
    and "sint base * clamp_attempt attempt < 2 ^ 63"
  shows "\<exists>d. linear_backoff base rnd attempt = Inr d \<and>
    sint d = sint base * clamp_attempt attempt"
proof -
  have "base * word_of_int (clamp_attempt attempt) =
      word_of_int (sint base * clamp_attempt attempt)"
    by simp
  moreover have "sint (word_of_int (sint base * clamp_attempt attempt) :: duration) =
      sint base * clamp_attempt attempt"
    using assms by (rule sint_of_int64)
  ultimately show ?thesis by (simp add: linear_backoff_def)
qed

text \<open>The doublings that stay below the cap, taken together.\<close>

lemma exp_loop_double:
  assumes "i < attempt" "0 \<le> x" "x * 2 < sint mx"
  shows "exp_loop mx attempt i (word_of_int x) = exp_loop mx attempt (i + 1) (word_of_int (x * 2))"
proof -
  have "sint (word_of_int (x * 2) :: duration) = x * 2"
    using assms sint_range64 [of mx] by (intro sint_of_int64) linarith+
  moreover have w: "word_of_int x * 2 = (word_of_int (x * 2) :: duration)"
    by (metis of_int_mult of_int_numeral)
  ultimately show ?thesis
    using assms by (subst exp_loop.simps) (simp only: Let_def w if_True if_False not_le[symmetric] simp_thms)
qed

lemma exp_loop_doubles:
  assumes "int n \<le> attempt - i" "0 \<le> x" "x * 2 ^ n < sint mx"
  shows "exp_loop mx attempt i (word_of_int x) = exp_loop mx attempt (i + int n) (word_of_int (x * 2 ^ n))"
  using assms
proof (induction n arbitrary: i x)
  case (Suc n)
  have "x * 2 * 1 \<le> x * 2 * 2 ^ n" using Suc.prems(2) by (intro mult_left_mono) simp_all
  with Suc.prems have "exp_loop mx attempt i (word_of_int x) = exp_loop mx attempt (i + 1) (word_of_int (x * 2))"
    by (intro exp_loop_double) (simp_all add: mult.assoc)
  also have "\<dots> = exp_loop mx attempt (i + 1 + int n) (word_of_int (x * 2 * 2 ^ n))"
    by (rule Suc.IH) (use Suc.prems in \<open>simp_all add: mult.assoc\<close>)
  also have "\<dots> = exp_loop mx attempt (i + int (Suc n)) (word_of_int (x * 2 ^ Suc n))"
    by (simp only: mult.assoc add.assoc of_nat_Suc power_Suc)
  finally show ?case .
qed simp

lemma uncapped_panics:
  "exponential_backoff (seconds 30) (2 ^ 63 - 1) (\<lambda>n. 0) 30 = Inl (PanicInt64N (- 585154178427387903))"
proof -
  have "sint (2 ^ 63 - 1 :: duration) = 2 ^ 63 - 1" by code_simp
  then have "exp_loop (2 ^ 63 - 1) 30 1 (seconds 30) =
    exp_loop (2 ^ 63 - 1) 30 (1 + int 28) (word_of_int (30 * 1000000000 * 2 ^ 28))"
    unfolding seconds_def by (intro exp_loop_doubles) simp_all
  also have "\<dots> = word_of_int (- 2340616713709551616)" by code_simp
  finally have loop: "exp_loop (2 ^ 63 - 1) (clamp_attempt 30) 1 (seconds 30) =
    word_of_int (- 2340616713709551616)"
    by (simp only: clamp_attempt_def)  simp
  show ?thesis unfolding exponential_backoff_def exp_delay_def loop by code_simp
qed

section \<open>The interface the worker relies on\<close>

text \<open>
  A worker adds the delay to the current time to schedule a retry. What it relies on: the call
  returns (a panic there would kill the worker goroutine) and the delay is not negative.
\<close>

locale retry_policy =
  fixes nxt :: backoff and bound :: int
  assumes nxt_bounded: "jitter_ok rnd \<Longrightarrow> \<exists>d. nxt rnd a = Inr d \<and> 0 \<le> sint d \<and> sint d \<le> bound"
begin

lemma nxt_returns: "jitter_ok rnd \<Longrightarrow> nxt rnd a \<noteq> Inl p"
  using nxt_bounded [of rnd a] by auto

lemma retry_time:
  assumes "jitter_ok rnd" "nxt rnd a = Inr d"
  shows "now \<le> add_time now d \<and> add_time now d \<le> now + bound"
  using nxt_bounded [OF assms(1), of a] assms(2) by (auto simp: add_time_def)

end

lemma default_backoff_bounded:
  "jitter_ok rnd \<Longrightarrow>
    \<exists>d. default_backoff rnd a = Inr d \<and> 0 \<le> sint d \<and> sint d \<le> 4500 * 10 ^ 9"
proof -
  assume j: "jitter_ok rnd"
  define e where "e = min (30000000000 * 2 ^ nat (clamp_attempt a - 1)) (3600000000000 :: int)"
  have e0: "0 \<le> e" by (simp add: e_def)
  have "e \<le> 3600000000000" by (simp add: e_def)
  then have e1: "e + e div 4 \<le> 4500000000000" by linarith
  have s: "sint (seconds 30) = 30000000000" "sint (hours 1) = 3600000000000"
    by (simp_all add: sint_seconds)
  have b: "0 < sint (seconds 30)" "sint (seconds 30) < 2 ^ 62" "0 < sint (hours 1)"
      "sint (hours 1) \<le> 2 ^ 62"
    by (simp_all add: sint_seconds)
  have "e = min (sint (seconds 30) * 2 ^ nat (clamp_attempt a - 1)) (sint (hours 1))"
    by (simp only: s e_def)
  from exponential_backoff_value [OF b j this]
  obtain d where d: "exponential_backoff (seconds 30) (hours 1) rnd a = Inr d"
      "e \<le> sint d" "sint d \<le> e + e div 4"
    by auto
  then show ?thesis using e0 e1 by (intro exI [of _ d]) (simp add: default_backoff_def)
qed

interpretation default_retry: retry_policy default_backoff "4500 * 10 ^ 9"
  by unfold_locales (rule default_backoff_bounded)

end
