(* ===== verification/Core_Types.thy ===== *)
theory Core_Types
  imports Go_Time
begin

text \<open>
  The data the whole library shares: \<open>task.go\<close> (status, task error, task), \<open>store.go\<close> (errors,
  claim options, outcomes, counters) and the policies of \<open>options.go\<close>. Field names are the
  source's with a prefix. A nil \<open>json.RawMessage\<close> is the empty string (the code only tests its
  length), a nil \<open>*time.Time\<close> or \<open>*TaskError\<close> is \<open>None\<close>. Go's \<open>int\<close> counters are \<open>int\<close>: the
  attempts-budget theorems bound them, so the width never shows.
\<close>

type_synonym json = string

datatype status = StatusPending | StatusRunning | StatusDone | StatusDead

record task_error =
  te_At :: gtime
  te_Attempt :: int
  te_Worker :: string
  te_Message :: string

record task =
  t_ID :: string
  t_Queue :: string
  t_Type :: string
  t_UniqueKey :: string
  t_Payload :: json
  t_Status :: status
  t_Attempts :: int
  t_MaxAttempts :: int
  t_RunAt :: gtime
  t_ExpiresAt :: "gtime option"
  t_LeasedBy :: string
  t_LeasedUntil :: gtime
  t_LeaseToken :: string
  t_Errors :: "task_error list"
  t_Result :: json
  t_CreatedAt :: gtime
  t_UpdatedAt :: gtime

text \<open>
  The errors of \<open>store.go\<close>. \<open>errors.Is\<close> is the match on the constructor: a wrapped
  \<open>ErrNotFound\<close> or \<open>ErrQueueConflict\<close> carries its message, a \<open>DuplicateTaskError\<close> its key and
  holder, a \<open>PartialEnqueueError\<close> its failures by index; \<open>ErrOther\<close> is any other error value.
\<close>

datatype gerror =
    ErrNoTask
  | ErrLeaseLost
  | ErrNotFound string
  | ErrDuplicateTask string
  | ErrQueueConflict string
  | DuplicateTaskError (dup_Key: string) (dup_ExistingID: string)
  | PartialEnqueueError "(nat \<times> gerror) list"
  | ErrOther string

fun is_duplicate :: "gerror \<Rightarrow> bool" where
  "is_duplicate (ErrDuplicateTask _) = True"
| "is_duplicate (DuplicateTaskError _ _) = True"
| "is_duplicate _ = False"

record claim_options =
  co_WorkerID :: string
  co_Types :: "string list"
  co_Queues :: "string list"
  co_FIFO :: bool
  co_Lease :: duration

record outcome =
  o_Task :: task
  o_Result :: json
  o_Failure :: "task_error option"
  o_RetryAt :: gtime
  o_Terminal :: bool

record queue_counters =
  qc_Enqueued :: int
  qc_Claimed :: int
  qc_Done :: int
  qc_Failed :: int
  qc_Dead :: int

definition zero_counters :: queue_counters where
  "zero_counters = \<lparr>qc_Enqueued = 0, qc_Claimed = 0, qc_Done = 0, qc_Failed = 0, qc_Dead = 0\<rparr>"

definition add_counters :: "queue_counters \<Rightarrow> queue_counters \<Rightarrow> queue_counters" where
  "add_counters a b = \<lparr>qc_Enqueued = qc_Enqueued a + qc_Enqueued b,
     qc_Claimed = qc_Claimed a + qc_Claimed b, qc_Done = qc_Done a + qc_Done b,
     qc_Failed = qc_Failed a + qc_Failed b, qc_Dead = qc_Dead a + qc_Dead b\<rparr>"

record queue_policy =
  qp_Name :: string
  qp_TTL :: duration
  qp_MaxAttempts :: int

record task_policy =
  tp_RunAt :: gtime
  tp_Delay :: duration
  tp_MaxAttempts :: int
  tp_UniqueKey :: string

definition zero_policy :: task_policy where
  "zero_policy = \<lparr>tp_RunAt = 0, tp_Delay = 0, tp_MaxAttempts = 0, tp_UniqueKey = []\<rparr>"

text \<open>\<open>bytes.TrimSpace\<close> on the bytes \<open>json.Marshal\<close> can produce: ASCII white space.\<close>

definition is_space :: "char \<Rightarrow> bool" where
  "is_space c \<longleftrightarrow> c \<in> {CHR 0x09, CHR 0x0A, CHR 0x0B, CHR 0x0C, CHR 0x0D, CHR 0x20}"

definition trim_space :: "string \<Rightarrow> string" where
  "trim_space s = rev (dropWhile is_space (rev (dropWhile is_space s)))"

text \<open>A task is active while it is pending or running; only active tasks hold unique keys.\<close>

definition active :: "task \<Rightarrow> bool" where
  "active t \<longleftrightarrow> t_Status t = StatusPending \<or> t_Status t = StatusRunning"

lemma add_counters_zero [simp]: "add_counters zero_counters c = c" "add_counters c zero_counters = c"
  by (simp_all add: add_counters_def zero_counters_def)

lemma add_counters_assoc: "add_counters (add_counters a b) c = add_counters a (add_counters b c)"
  by (simp add: add_counters_def)

lemma add_counters_commute: "add_counters a b = add_counters b a"
  by (simp add: add_counters_def)

end
