(* ===== verification/Memstore.thy ===== *)
theory Memstore
  imports Core_Types
begin

text \<open>
  The in-memory store: \<open>stores/memstore/memstore.go\<close>. Every exported method takes the store's
  mutex, so it is one atomic function of the store; \<open>time.Now()\<close> is an argument (\<open>now\<close>), read
  once per call as the code does. A Go map is an association list whose order is the iteration
  order of a \<open>range\<close> loop, which Go leaves unspecified: the order-independence theorems below say
  that it does not matter. The pointers of the task map never leave the store (\<open>clone\<close>), so tasks
  are values here, and an entry's key is its task's \<open>ID\<close>, which \<open>Enqueue\<close> sets and nothing changes.
\<close>

section \<open>State\<close>

record metric =
  mt_queue :: string
  mt_windowStart :: gtime
  mt_managerID :: string
  mt_counters :: queue_counters

record memstore =
  ms_seq :: nat
  ms_tasks :: "task amap"
  ms_registry :: "queue_policy amap"
  ms_metrics :: "metric list"
  ms_gaugeKeys :: "bool amap"
  ms_forceLeaseLost :: bool

definition ms_New :: memstore where
  "ms_New = \<lparr>ms_seq = 0, ms_tasks = [], ms_registry = [], ms_metrics = [], ms_gaugeKeys = [],
     ms_forceLeaseLost = False\<rparr>"

definition task_id :: "nat \<Rightarrow> string" where
  "task_id n = ''task-'' @ digits n"

definition lease_token :: "nat \<Rightarrow> string" where
  "lease_token n = ''lease-'' @ digits n"

section \<open>Test helpers\<close>

definition ms_Task :: "memstore \<Rightarrow> string \<Rightarrow> task option" where
  "ms_Task s i = map_of (ms_tasks s) i"

definition ms_Tasks :: "memstore \<Rightarrow> task list" where
  "ms_Tasks s = map snd (ms_tasks s)"

definition ms_ForceLeaseLost :: "bool \<Rightarrow> memstore \<Rightarrow> memstore" where
  "ms_ForceLeaseLost v s = s\<lparr>ms_forceLeaseLost := v\<rparr>"

fun counter_totals :: "string \<Rightarrow> queue_counters \<Rightarrow> metric list \<Rightarrow> queue_counters" where
  "counter_totals q acc [] = acc"
| "counter_totals q acc (m # ms) =
     counter_totals q
       (if mt_managerID m \<noteq> [] \<and> mt_queue m = q then add_counters acc (mt_counters m) else acc) ms"

definition ms_CounterTotals :: "string \<Rightarrow> memstore \<Rightarrow> queue_counters" where
  "ms_CounterTotals q s = counter_totals q zero_counters (ms_metrics s)"

definition ms_MetricsCount :: "memstore \<Rightarrow> nat" where
  "ms_MetricsCount s = length (ms_metrics s)"

section \<open>Enqueue\<close>

definition activeKeyHolder :: "string \<Rightarrow> task amap \<Rightarrow> task option" where
  "activeKeyHolder key m =
     map_option snd (find (\<lambda>(i, t). t_UniqueKey t = key \<and> active t) m)"

text \<open>
  The loop of \<open>Enqueue\<close>. It returns on the first conflict, with the ids dropped and the tasks
  inserted before it left in the store.
\<close>

fun enqueue_loop :: "task list \<Rightarrow> string list \<Rightarrow> memstore \<Rightarrow> (gerror + string list) \<times> memstore" where
  "enqueue_loop [] ids s = (Inr ids, s)"
| "enqueue_loop (t # ts) ids s =
     (case (if t_UniqueKey t \<noteq> [] then activeKeyHolder (t_UniqueKey t) (ms_tasks s) else None) of
        Some holder \<Rightarrow> (Inl (DuplicateTaskError (t_UniqueKey t) (t_ID holder)), s)
      | None \<Rightarrow>
          (let q = Suc (ms_seq s); c = t\<lparr>t_ID := task_id q\<rparr>
           in enqueue_loop ts (ids @ [t_ID c])
                (s\<lparr>ms_seq := q, ms_tasks := upd (t_ID c) c (ms_tasks s)\<rparr>)))"

definition ms_Enqueue :: "task list \<Rightarrow> memstore \<Rightarrow> (string list \<times> gerror option) \<times> memstore" where
  "ms_Enqueue ts s = (case enqueue_loop ts [] s of
     (Inl e, s') \<Rightarrow> (([], Some e), s')
   | (Inr ids, s') \<Rightarrow> ((ids, None), s'))"

section \<open>Claim\<close>

definition accepts :: "claim_options \<Rightarrow> task \<Rightarrow> bool" where
  "accepts opts t \<longleftrightarrow>
     \<not> (co_Types opts \<noteq> [] \<and> t_Type t \<notin> set (co_Types opts)) \<and>
     \<not> (co_Queues opts \<noteq> [] \<and> t_Queue t \<notin> set (co_Queues opts))"

definition runnable :: "gtime \<Rightarrow> task \<Rightarrow> bool" where
  "runnable now t \<longleftrightarrow>
     (t_Status t = StatusPending \<and> \<not> now < t_RunAt t) \<or>
     (t_Status t = StatusRunning \<and> t_LeasedUntil t < now \<and> t_Attempts t < t_MaxAttempts t)"

definition older :: "task \<Rightarrow> task \<Rightarrow> bool" where
  "older t best \<longleftrightarrow>
     t_RunAt t < t_RunAt best \<or> (t_RunAt t = t_RunAt best \<and> t_ID t < t_ID best)"

fun claim_scan :: "claim_options \<Rightarrow> gtime \<Rightarrow> task option \<Rightarrow> task amap \<Rightarrow> task option" where
  "claim_scan opts now best [] = best"
| "claim_scan opts now best ((i, t) # m) =
     (if \<not> accepts opts t then claim_scan opts now best m
      else if \<not> runnable now t then claim_scan opts now best m
      else claim_scan opts now
             (case best of None \<Rightarrow> Some t | Some b \<Rightarrow> if older t b then Some t else best) m)"

definition claim_task :: "claim_options \<Rightarrow> gtime \<Rightarrow> string \<Rightarrow> task \<Rightarrow> task" where
  "claim_task opts now tok t = t\<lparr>t_Status := StatusRunning, t_Attempts := t_Attempts t + 1,
     t_LeasedBy := co_WorkerID opts, t_LeaseToken := tok,
     t_LeasedUntil := add_time now (co_Lease opts), t_UpdatedAt := now\<rparr>"

definition claimOneLocked :: "claim_options \<Rightarrow> gtime \<Rightarrow> memstore \<Rightarrow> task option \<times> memstore" where
  "claimOneLocked opts now s = (case claim_scan opts now None (ms_tasks s) of
     None \<Rightarrow> (None, s)
   | Some best \<Rightarrow>
       (let q = Suc (ms_seq s); t = claim_task opts now (lease_token q) best
        in (Some t, s\<lparr>ms_seq := q, ms_tasks := upd (t_ID best) t (ms_tasks s)\<rparr>)))"

definition ms_Claim :: "gtime \<Rightarrow> claim_options \<Rightarrow> memstore \<Rightarrow> (gerror + task) \<times> memstore" where
  "ms_Claim now opts s = (case claimOneLocked opts now s of
     (None, s') \<Rightarrow> (Inl ErrNoTask, s')
   | (Some t, s') \<Rightarrow> (Inr t, s'))"

function claim_batch_loop ::
  "gtime \<Rightarrow> claim_options \<Rightarrow> int \<Rightarrow> task list \<Rightarrow> memstore \<Rightarrow> task list \<times> memstore" where
  "claim_batch_loop now opts k out s =
     (if int (length out) < k
      then (case claimOneLocked opts now s of
              (None, s') \<Rightarrow> (out, s')
            | (Some t, s') \<Rightarrow> claim_batch_loop now opts k (out @ [t]) s')
      else (out, s))"
  by pat_completeness auto
termination
  by (relation "measure (\<lambda>(now, opts, k, out, s). nat (k - int (length out)))") auto

declare claim_batch_loop.simps [simp del]

definition ms_ClaimBatch ::
  "gtime \<Rightarrow> claim_options \<Rightarrow> int \<Rightarrow> memstore \<Rightarrow> (gerror + task list) \<times> memstore" where
  "ms_ClaimBatch now opts k s = (case claim_batch_loop now opts k [] s of
     (out, s') \<Rightarrow> if out = [] then (Inl ErrNoTask, s') else (Inr out, s'))"

section \<open>Finalizing and leases\<close>

definition held :: "string \<Rightarrow> string \<Rightarrow> memstore \<Rightarrow> task option" where
  "held i leaseToken s = (case map_of (ms_tasks s) i of
     None \<Rightarrow> None
   | Some t \<Rightarrow> if t_Status t \<noteq> StatusRunning \<or> t_LeaseToken t \<noteq> leaseToken then None else Some t)"

definition complete_task :: "gtime \<Rightarrow> json \<Rightarrow> task \<Rightarrow> task" where
  "complete_task now result t = t\<lparr>t_Status := StatusDone, t_Result := result, t_LeasedBy := [],
     t_LeaseToken := [], t_UniqueKey := [], t_UpdatedAt := now\<rparr>"

definition ms_Complete :: "gtime \<Rightarrow> task \<Rightarrow> json \<Rightarrow> memstore \<Rightarrow> gerror option \<times> memstore" where
  "ms_Complete now task result s = (case held (t_ID task) (t_LeaseToken task) s of
     None \<Rightarrow> (Some ErrLeaseLost, s)
   | Some t \<Rightarrow>
       (None, s\<lparr>ms_tasks := upd (t_ID task) (complete_task now result t) (ms_tasks s)\<rparr>))"

definition fail_task :: "gtime \<Rightarrow> task_error \<Rightarrow> gtime \<Rightarrow> bool \<Rightarrow> task \<Rightarrow> task" where
  "fail_task now taskErr retryAt terminal t =
     (let t1 = t\<lparr>t_Errors := t_Errors t @ [taskErr]\<rparr>;
          t2 = (if terminal then t1\<lparr>t_Status := StatusDead, t_UniqueKey := []\<rparr>
                else t1\<lparr>t_Status := StatusPending, t_RunAt := retryAt\<rparr>)
      in t2\<lparr>t_LeasedBy := [], t_LeaseToken := [], t_UpdatedAt := now\<rparr>)"

definition ms_Fail ::
  "gtime \<Rightarrow> task \<Rightarrow> task_error \<Rightarrow> gtime \<Rightarrow> bool \<Rightarrow> memstore \<Rightarrow> gerror option \<times> memstore" where
  "ms_Fail now task taskErr retryAt terminal s = (case held (t_ID task) (t_LeaseToken task) s of
     None \<Rightarrow> (Some ErrLeaseLost, s)
   | Some t \<Rightarrow>
       (None, s\<lparr>ms_tasks := upd (t_ID task) (fail_task now taskErr retryAt terminal t) (ms_tasks s)\<rparr>))"

text \<open>
  \<open>FinalizeBatch\<close> calls \<open>Fail\<close> or \<open>Complete\<close> per entry, each with its own \<open>time.Now()\<close>: \<open>clock n\<close>
  is the time the \<open>n\<close>-th call reads.
\<close>

fun finalize_loop ::
  "(nat \<Rightarrow> gtime) \<Rightarrow> outcome list \<Rightarrow> nat \<Rightarrow> int \<Rightarrow> memstore \<Rightarrow> (int \<times> gerror option) \<times> memstore" where
  "finalize_loop clock [] n lost s = ((lost, None), s)"
| "finalize_loop clock (o' # os) n lost s =
     (let (err, s') = (case o_Failure o' of
            Some f \<Rightarrow> ms_Fail (clock n) (o_Task o') f (o_RetryAt o') (o_Terminal o') s
          | None \<Rightarrow> ms_Complete (clock n) (o_Task o') (o_Result o') s)
      in case err of
           None \<Rightarrow> finalize_loop clock os (Suc n) lost s'
         | Some e \<Rightarrow> if e = ErrLeaseLost then finalize_loop clock os (Suc n) (lost + 1) s'
                     else ((lost, Some e), s'))"

definition ms_FinalizeBatch ::
  "(nat \<Rightarrow> gtime) \<Rightarrow> outcome list \<Rightarrow> memstore \<Rightarrow> (int \<times> gerror option) \<times> memstore" where
  "ms_FinalizeBatch clock outcomes s = finalize_loop clock outcomes 0 0 s"

definition ms_ExtendLease :: "gtime \<Rightarrow> task \<Rightarrow> duration \<Rightarrow> memstore \<Rightarrow> (gerror + gtime) \<times> memstore" where
  "ms_ExtendLease now task lease s =
     (if ms_forceLeaseLost s then (Inl ErrLeaseLost, s)
      else case held (t_ID task) (t_LeaseToken task) s of
        None \<Rightarrow> (Inl ErrLeaseLost, s)
      | Some t \<Rightarrow>
          (let u = add_time now lease
           in (Inr u, s\<lparr>ms_tasks := upd (t_ID task) (t\<lparr>t_LeasedUntil := u\<rparr>) (ms_tasks s)\<rparr>)))"

section \<open>Dead letters\<close>

definition requeue_task :: "gtime \<Rightarrow> task \<Rightarrow> task" where
  "requeue_task now t = t\<lparr>t_Status := StatusPending, t_Attempts := 0, t_RunAt := now,
     t_Result := [], t_LeasedBy := [], t_LeaseToken := [], t_UpdatedAt := now\<rparr>"

definition ms_Requeue :: "gtime \<Rightarrow> string \<Rightarrow> memstore \<Rightarrow> gerror option \<times> memstore" where
  "ms_Requeue now i s = (case map_of (ms_tasks s) i of
     None \<Rightarrow> (Some (ErrNotFound i), s)
   | Some t \<Rightarrow> if t_Status t \<noteq> StatusDead then (Some (ErrNotFound i), s)
               else (None, s\<lparr>ms_tasks := upd i (requeue_task now t) (ms_tasks s)\<rparr>))"

definition ms_RequeueDead :: "gtime \<Rightarrow> string \<Rightarrow> memstore \<Rightarrow> int \<times> memstore" where
  "ms_RequeueDead now taskType s =
     (let (m, n) = sweep (\<lambda>t. t_Status t = StatusDead \<and> (taskType = [] \<or> t_Type t = taskType))
                     (requeue_task now) (ms_tasks s)
      in (n, s\<lparr>ms_tasks := m\<rparr>))"

definition expired_exhausted :: "gtime \<Rightarrow> task \<Rightarrow> bool" where
  "expired_exhausted now t \<longleftrightarrow>
     t_Status t = StatusRunning \<and> t_LeasedUntil t < now \<and> t_Attempts t \<ge> t_MaxAttempts t"

definition reap_task :: "gtime \<Rightarrow> task \<Rightarrow> task" where
  "reap_task now t = t\<lparr>t_Status := StatusDead,
     t_Errors := t_Errors t @ [\<lparr>te_At = now, te_Attempt = t_Attempts t, te_Worker = t_LeasedBy t,
       te_Message = ''lease expired before completion; attempts exhausted''\<rparr>],
     t_LeasedBy := [], t_LeaseToken := [], t_UniqueKey := []\<rparr>"

definition ms_ReapExpired :: "gtime \<Rightarrow> memstore \<Rightarrow> int \<times> memstore" where
  "ms_ReapExpired now s =
     (let (m, n) = sweep (expired_exhausted now) (reap_task now) (ms_tasks s)
      in (n, s\<lparr>ms_tasks := m\<rparr>))"

section \<open>The queues registry\<close>

fun register_loop :: "queue_policy list \<Rightarrow> queue_policy amap \<Rightarrow> gerror option \<times> queue_policy amap" where
  "register_loop [] reg = (None, reg)"
| "register_loop (q # qs) reg = (case map_of reg (qp_Name q) of
     Some existing \<Rightarrow>
       if qp_TTL existing \<noteq> qp_TTL q \<or> qp_MaxAttempts existing \<noteq> qp_MaxAttempts q
       then (Some (ErrQueueConflict (qp_Name q)), reg)
       else register_loop qs reg
   | None \<Rightarrow> register_loop qs (upd (qp_Name q) q reg))"

definition ms_RegisterQueues :: "queue_policy list \<Rightarrow> memstore \<Rightarrow> gerror option \<times> memstore" where
  "ms_RegisterQueues qs s =
     (let (e, reg) = register_loop qs (ms_registry s) in (e, s\<lparr>ms_registry := reg\<rparr>))"

definition ms_Queues :: "memstore \<Rightarrow> queue_policy list" where
  "ms_Queues s = map snd (ms_registry s)"

definition ms_SetQueuePolicy :: "queue_policy \<Rightarrow> memstore \<Rightarrow> memstore" where
  "ms_SetQueuePolicy q s = s\<lparr>ms_registry := upd (qp_Name q) q (ms_registry s)\<rparr>"

section \<open>Metrics\<close>

text \<open>\<open>tstr\<close> is Go's \<open>Time.String\<close>, of which the store only needs that it names the instant.\<close>

fun snapshot_loop ::
  "(gtime \<Rightarrow> string) \<Rightarrow> gtime \<Rightarrow> string list \<Rightarrow> bool amap \<Rightarrow> metric list \<Rightarrow> bool amap \<times> metric list" where
  "snapshot_loop tstr w [] gk mts = (gk, mts)"
| "snapshot_loop tstr w (q # qs) gk mts =
     (let key = q @ ''|'' @ tstr w
      in if map_of gk key = Some True then snapshot_loop tstr w qs gk mts
         else snapshot_loop tstr w qs (upd key True gk)
                (mts @ [\<lparr>mt_queue = q, mt_windowStart = w, mt_managerID = [],
                         mt_counters = zero_counters\<rparr>]))"

definition ms_SnapshotMetrics ::
  "(gtime \<Rightarrow> string) \<Rightarrow> string list \<Rightarrow> gtime \<Rightarrow> memstore \<Rightarrow> memstore" where
  "ms_SnapshotMetrics tstr qs w s =
     (let (gk, mts) = snapshot_loop tstr w qs (ms_gaugeKeys s) (ms_metrics s)
      in s\<lparr>ms_gaugeKeys := gk, ms_metrics := mts\<rparr>)"

definition ms_RecordCounters ::
  "string \<Rightarrow> gtime \<Rightarrow> queue_counters amap \<Rightarrow> memstore \<Rightarrow> memstore" where
  "ms_RecordCounters managerID w counters s =
     s\<lparr>ms_metrics := ms_metrics s @
        map (\<lambda>(q, c). \<lparr>mt_queue = q, mt_windowStart = w, mt_managerID = managerID, mt_counters = c\<rparr>)
          counters\<rparr>"

end
