(* ===== verification/Memstore_Props.thy ===== *)
theory Memstore_Props
  imports Memstore
begin

text \<open>
  What each operation of the in-memory store does: its well-formedness invariant, the choice a
  claim makes and its independence of the map's iteration order, batches, the outcome writes and
  the registry.
\<close>

section \<open>Well-formedness\<close>

definition ms_wf :: "memstore \<Rightarrow> bool" where
  "ms_wf s \<longleftrightarrow> distinct (keys (ms_tasks s)) \<and>
     (\<forall>i t. map_of (ms_tasks s) i = Some t \<longrightarrow> t_ID t = i) \<and>
     set (keys (ms_tasks s)) \<subseteq> task_id ` {..ms_seq s}"

lemma task_id_inject [simp]: "task_id m = task_id n \<longleftrightarrow> m = n"
  by (simp add: task_id_def)

lemma lease_token_inject [simp]: "lease_token m = lease_token n \<longleftrightarrow> m = n"
  by (simp add: lease_token_def)

lemma lease_token_nonempty [simp]: "lease_token n \<noteq> []"
  by (simp add: lease_token_def)

lemma ms_wf_New [simp]: "ms_wf ms_New"
  by (simp add: ms_wf_def ms_New_def)

lemma ms_wf_entry: "ms_wf s \<Longrightarrow> (i, t) \<in> set (ms_tasks s) \<longleftrightarrow> map_of (ms_tasks s) i = Some t"
  by (simp add: ms_wf_def lookup_in_set)

lemma ms_wf_ID: "ms_wf s \<Longrightarrow> map_of (ms_tasks s) i = Some t \<Longrightarrow> t_ID t = i"
  by (simp add: ms_wf_def)

lemma ms_wf_fresh: "ms_wf s \<Longrightarrow> map_of (ms_tasks s) (task_id (Suc (ms_seq s))) = None"
  by (auto simp: ms_wf_def map_of_eq_None_iff)

lemma ms_wf_update:
  assumes "ms_wf s" "map_of (ms_tasks s) i = Some t" "t_ID t' = i"
  shows "ms_wf (s\<lparr>ms_tasks := upd i t' (ms_tasks s)\<rparr>)"
proof -
  have "i \<in> set (keys (ms_tasks s))" using assms(2) by (metis domI dom_map_of_conv_image_fst set_map)
  with assms show ?thesis by (auto simp: ms_wf_def keys_upd)
qed

lemma ms_wf_grow:
  assumes "ms_wf s" "ms_tasks s' = ms_tasks s" "ms_seq s \<le> ms_seq s'"
  shows "ms_wf s'"
proof -
  have "task_id ` {..ms_seq s} \<subseteq> task_id ` {..ms_seq s'}" using assms(3) by auto
  with assms(1) show ?thesis unfolding ms_wf_def assms(2) by blast
qed

lemma ms_wf_sweep:
  "ms_wf s \<Longrightarrow> (\<And>t. t_ID (f t) = t_ID t) \<Longrightarrow> ms_wf (s\<lparr>ms_tasks := fst (sweep p f (ms_tasks s))\<rparr>)"
  by (auto simp: ms_wf_def lookup_sweep)

section \<open>The claimed task\<close>

definition eligible :: "claim_options \<Rightarrow> gtime \<Rightarrow> task \<Rightarrow> bool" where
  "eligible opts now t \<longleftrightarrow> accepts opts t \<and> runnable now t"

definition rank :: "task \<Rightarrow> int \<times> string" where
  "rank t = (t_RunAt t, t_ID t)"

lemma older_rank: "older t b \<longleftrightarrow> rank t < rank b"
  by (auto simp: older_def rank_def less_prod_def)

lemma claim_scan_None:
  "claim_scan opts now best m = None \<longleftrightarrow>
    best = None \<and> (\<forall>i t. (i, t) \<in> set m \<longrightarrow> \<not> eligible opts now t)"
  by (induction opts now best m rule: claim_scan.induct)
    (auto simp: eligible_def split: option.splits)

lemma claim_scan_Some:
  "claim_scan opts now best m = Some t \<Longrightarrow>
    (best = Some t \<or> (\<exists>i. (i, t) \<in> set m \<and> eligible opts now t)) \<and>
    (\<forall>b. best = Some b \<longrightarrow> rank t \<le> rank b) \<and>
    (\<forall>i t'. (i, t') \<in> set m \<longrightarrow> eligible opts now t' \<longrightarrow> rank t \<le> rank t')"
proof (induction opts now best m rule: claim_scan.induct)
  case (1 opts now best)
  then show ?case by auto
next
  case (2 opts now best i u m)
  show ?case
  proof (cases "eligible opts now u")
    case False
    with 2 show ?thesis by (auto simp: eligible_def split: if_splits)
  next
    case True
    let ?b = "case best of None \<Rightarrow> Some u | Some b \<Rightarrow> if older u b then Some u else best"
    from True have e: "accepts opts u" "runnable now u" by (simp_all add: eligible_def)
    with "2.prems" have "claim_scan opts now ?b m = Some t" by simp
    with "2.IH"(3) e have IH: "?b = Some t \<or> (\<exists>i. (i, t) \<in> set m \<and> eligible opts now t)"
        "\<forall>b. ?b = Some b \<longrightarrow> rank t \<le> rank b"
        "\<forall>i t'. (i, t') \<in> set m \<longrightarrow> eligible opts now t' \<longrightarrow> rank t \<le> rank t'"
      by blast+
    show ?thesis
      using IH True by (cases best) (auto simp: older_rank split: if_splits)
  qed
qed

text \<open>With distinct ids the choice is a function of the set of tasks: the least rank.\<close>

definition least_eligible :: "claim_options \<Rightarrow> gtime \<Rightarrow> memstore \<Rightarrow> task \<Rightarrow> bool" where
  "least_eligible opts now s t \<longleftrightarrow> map_of (ms_tasks s) (t_ID t) = Some t \<and> eligible opts now t \<and>
     (\<forall>i t'. map_of (ms_tasks s) i = Some t' \<longrightarrow> eligible opts now t' \<longrightarrow> rank t \<le> rank t')"

lemma least_eligible_unique:
  "least_eligible opts now s t \<Longrightarrow> least_eligible opts now s u \<Longrightarrow> t = u"
  by (metis least_eligible_def rank_def antisym prod.inject option.inject)

lemma claim_scan_least:
  assumes "ms_wf s"
  shows "claim_scan opts now None (ms_tasks s) = Some t \<longleftrightarrow> least_eligible opts now s t"
proof
  assume "claim_scan opts now None (ms_tasks s) = Some t"
  from claim_scan_Some [OF this] assms show "least_eligible opts now s t"
    by (auto simp: least_eligible_def ms_wf_entry ms_wf_ID)
next
  assume l: "least_eligible opts now s t"
  then have "claim_scan opts now None (ms_tasks s) \<noteq> None"
    using assms by (auto simp: claim_scan_None least_eligible_def ms_wf_entry)
  then obtain u where u: "claim_scan opts now None (ms_tasks s) = Some u" by auto
  from claim_scan_Some [OF this] assms have "least_eligible opts now s u"
    by (auto simp: least_eligible_def ms_wf_entry ms_wf_ID)
  with l u show "claim_scan opts now None (ms_tasks s) = Some t"
    by (metis least_eligible_unique)
qed

lemma claim_scan_idle:
  "ms_wf s \<Longrightarrow> claim_scan opts now None (ms_tasks s) = None \<longleftrightarrow>
    (\<forall>i t. map_of (ms_tasks s) i = Some t \<longrightarrow> \<not> eligible opts now t)"
  by (simp add: claim_scan_None ms_wf_entry)

lemma claim_task_ID [simp]: "t_ID (claim_task opts now tok t) = t_ID t"
  by (simp add: claim_task_def)

text \<open>The two branches of a claim.\<close>

lemma claimOneLocked_None:
  assumes "ms_wf s"
  shows "claimOneLocked opts now s = (None, s') \<longleftrightarrow>
    s' = s \<and> (\<forall>i t. map_of (ms_tasks s) i = Some t \<longrightarrow> \<not> eligible opts now t)"
  unfolding claimOneLocked_def claim_scan_idle [OF assms, symmetric]
  by (cases "claim_scan opts now None (ms_tasks s)") (auto simp: Let_def)

lemma claimOneLocked_cases:
  "claimOneLocked opts now s = (case claim_scan opts now None (ms_tasks s) of
     None \<Rightarrow> (None, s)
   | Some b \<Rightarrow> (Some (claim_task opts now (lease_token (Suc (ms_seq s))) b),
       s\<lparr>ms_seq := Suc (ms_seq s), ms_tasks := upd (t_ID b)
         (claim_task opts now (lease_token (Suc (ms_seq s))) b) (ms_tasks s)\<rparr>))"
  by (simp add: claimOneLocked_def Let_def split: option.split)

lemma claimOneLocked_SomeD:
  assumes "ms_wf s" "claimOneLocked opts now s = (Some t, s')"
  obtains b where "least_eligible opts now s b"
    "t = claim_task opts now (lease_token (Suc (ms_seq s))) b"
    "s' = s\<lparr>ms_seq := Suc (ms_seq s), ms_tasks := upd (t_ID b) t (ms_tasks s)\<rparr>"
proof (cases "claim_scan opts now None (ms_tasks s)")
  case None
  with assms(2) show thesis by (simp add: claimOneLocked_cases)
next
  case (Some b)
  then have "least_eligible opts now s b" using claim_scan_least [OF assms(1)] by simp
  with Some assms(2) that [of b] show thesis by (auto simp: claimOneLocked_cases)
qed

lemma claimOneLocked_least:
  assumes "ms_wf s" "least_eligible opts now s b"
  shows "claimOneLocked opts now s =
    (Some (claim_task opts now (lease_token (Suc (ms_seq s))) b),
       s\<lparr>ms_seq := Suc (ms_seq s), ms_tasks := upd (t_ID b)
         (claim_task opts now (lease_token (Suc (ms_seq s))) b) (ms_tasks s)\<rparr>)"
proof -
  have "claim_scan opts now None (ms_tasks s) = Some b"
    using claim_scan_least [OF assms(1)] assms(2) by blast
  then show ?thesis by (simp add: claimOneLocked_cases)
qed

lemma claimOneLocked_wf:
  assumes "ms_wf s" "claimOneLocked opts now s = (r, s')"
  shows "ms_wf s'"
proof (cases r)
  case None
  with assms(2) have "claimOneLocked opts now s = (None, s')" by simp
  then have "s' = s" unfolding claimOneLocked_None [OF assms(1)] by blast
  with assms(1) show ?thesis by simp
next
  case (Some t)
  with assms have "claimOneLocked opts now s = (Some t, s')" by simp
  then obtain b where b: "least_eligible opts now s b"
      "t = claim_task opts now (lease_token (Suc (ms_seq s))) b"
      "s' = s\<lparr>ms_seq := Suc (ms_seq s), ms_tasks := upd (t_ID b) t (ms_tasks s)\<rparr>"
    by (rule claimOneLocked_SomeD [OF assms(1)])
  have "ms_wf (s\<lparr>ms_tasks := upd (t_ID b) t (ms_tasks s)\<rparr>)"
  proof (rule ms_wf_update [OF assms(1)])
    show "map_of (ms_tasks s) (t_ID b) = Some b" using b(1) unfolding least_eligible_def by blast
    show "t_ID t = t_ID b" unfolding b(2) by simp
  qed
  then show ?thesis by (rule ms_wf_grow) (simp_all add: b(3))
qed

end
