(* ===== verification/Contract.thy ===== *)
theory Contract
  imports Core_Types
begin

text \<open>
  The abstract machine of the store contract, the documentation of \<open>Store\<close> in \<open>store.go\<close> made
  precise: what a store promises about claiming, fencing, unique keys and the dead-letter state,
  with the data a backend may choose freely (which runnable task a claim takes, its timestamps,
  its worker labels) left out. Its runs are traces of events; the theorems about traces are proved
  here once, and every store that simulates this machine inherits them.
\<close>

section \<open>States\<close>

datatype astate = APending gtime | ARunning string gtime | ADone | ADead

record atask =
  a_queue :: string
  a_type :: string
  a_key :: string
  a_attempts :: int
  a_max :: int
  a_state :: astate

record cstore =
  c_tasks :: "string \<rightharpoonup> atask"
  c_issued :: "(string \<times> string) set"
  c_limit :: "string \<rightharpoonup> int"

text \<open>
  Besides the tasks, two records of the past: the claims issued, as pairs of id and token, and the
  ids ever used, each with the attempts limit its task was enqueued with. Ids are never reused.
\<close>

definition cinit :: cstore where
  "cinit = \<lparr>c_tasks = Map.empty, c_issued = {}, c_limit = Map.empty\<rparr>"

fun is_active :: "astate \<Rightarrow> bool" where
  "is_active (APending _) = True"
| "is_active (ARunning _ _) = True"
| "is_active _ = False"

definition key_active :: "cstore \<Rightarrow> string \<Rightarrow> bool" where
  "key_active c k \<longleftrightarrow> (\<exists>i a. c_tasks c i = Some a \<and> a_key a = k \<and> is_active (a_state a))"

text \<open>\<open>Claim\<close>'s runnable condition, from its documentation.\<close>

fun claimable :: "gtime \<Rightarrow> atask \<Rightarrow> bool" where
  "claimable now a = (case a_state a of
     APending r \<Rightarrow> r \<le> now
   | ARunning _ u \<Rightarrow> u < now \<and> a_attempts a < a_max a
   | _ \<Rightarrow> False)"

abbreviation put :: "cstore \<Rightarrow> string \<Rightarrow> atask \<Rightarrow> cstore" where
  "put c i a \<equiv> c\<lparr>c_tasks := (c_tasks c)(i \<mapsto> a)\<rparr>"

abbreviation enter :: "cstore \<Rightarrow> string \<Rightarrow> atask \<Rightarrow> cstore" where
  "enter c i a \<equiv> (put c i a)\<lparr>c_limit := (c_limit c)(i \<mapsto> a_max a)\<rparr>"

section \<open>Steps\<close>

datatype cevent =
    Enqueued string atask
  | Claimed string string gtime gtime
  | Completed string string
  | Retried string string
  | Died string string
  | Extended string string
  | Reaped string gtime
  | Requeued string
  | Purged string

inductive cstep :: "cstore \<Rightarrow> cevent \<Rightarrow> cstore \<Rightarrow> bool" where
  enqueued: "c_tasks c i = None \<Longrightarrow> c_limit c i = None \<Longrightarrow> a_state a = APending r \<Longrightarrow>
    a_key a = [] \<or> \<not> key_active c (a_key a) \<Longrightarrow>
    cstep c (Enqueued i a) (enter c i a)"
| claimed: "c_tasks c i = Some a \<Longrightarrow> claimable now a \<Longrightarrow> (i, tok) \<notin> c_issued c \<Longrightarrow>
    cstep c (Claimed i tok now until)
      ((put c i (a\<lparr>a_attempts := a_attempts a + 1, a_state := ARunning tok until\<rparr>))
         \<lparr>c_issued := insert (i, tok) (c_issued c)\<rparr>)"
| completed: "c_tasks c i = Some a \<Longrightarrow> a_state a = ARunning tok u \<Longrightarrow>
    cstep c (Completed i tok) (put c i (a\<lparr>a_state := ADone, a_key := []\<rparr>))"
| retried: "c_tasks c i = Some a \<Longrightarrow> a_state a = ARunning tok u \<Longrightarrow>
    cstep c (Retried i tok) (put c i (a\<lparr>a_state := APending r\<rparr>))"
| died: "c_tasks c i = Some a \<Longrightarrow> a_state a = ARunning tok u \<Longrightarrow>
    cstep c (Died i tok) (put c i (a\<lparr>a_state := ADead, a_key := []\<rparr>))"
| extended: "c_tasks c i = Some a \<Longrightarrow> a_state a = ARunning tok u \<Longrightarrow>
    cstep c (Extended i tok) (put c i (a\<lparr>a_state := ARunning tok u'\<rparr>))"
| reaped: "c_tasks c i = Some a \<Longrightarrow> a_state a = ARunning tok u \<Longrightarrow> u < now \<Longrightarrow>
    a_max a \<le> a_attempts a \<Longrightarrow>
    cstep c (Reaped i now) (put c i (a\<lparr>a_state := ADead, a_key := []\<rparr>))"
| requeued: "c_tasks c i = Some a \<Longrightarrow> a_state a = ADead \<Longrightarrow>
    cstep c (Requeued i) (put c i (a\<lparr>a_state := APending r, a_attempts := 0\<rparr>))"
| purged: "c_tasks c i = Some a \<Longrightarrow>
    cstep c (Purged i) (c\<lparr>c_tasks := (c_tasks c)(i := None)\<rparr>)"

inductive_cases enqueuedE: "cstep c (Enqueued i a) d"
inductive_cases claimedE: "cstep c (Claimed i tok now u) d"
inductive_cases completedE: "cstep c (Completed i tok) d"
inductive_cases retriedE: "cstep c (Retried i tok) d"
inductive_cases diedE: "cstep c (Died i tok) d"
inductive_cases extendedE: "cstep c (Extended i tok) d"
inductive_cases reapedE: "cstep c (Reaped i now) d"
inductive_cases requeuedE: "cstep c (Requeued i) d"
inductive_cases purgedE: "cstep c (Purged i) d"

lemmas cstep_elims = enqueuedE claimedE completedE retriedE diedE extendedE reapedE requeuedE purgedE

text \<open>A finite execution, and an execution from the empty store with its whole trace.\<close>

inductive cexec :: "cstore \<Rightarrow> cevent list \<Rightarrow> cstore \<Rightarrow> bool" where
  cexec_nil [intro!]: "cexec c [] c"
| cexec_cons: "cstep c e d \<Longrightarrow> cexec d es d' \<Longrightarrow> cexec c (e # es) d'"

inductive_cases cexec_NilE: "cexec c [] d"
inductive_cases cexec_ConsE: "cexec c (e # es) d"

lemma cexec_append: "cexec c es d \<Longrightarrow> cexec d fs d' \<Longrightarrow> cexec c (es @ fs) d'"
  by (induction rule: cexec.induct) (auto intro: cexec_cons)

lemma cexec_one: "cstep c e d \<Longrightarrow> cexec c [e] d"
  by (auto intro: cexec_cons)

lemma cexec_snoc: "cexec c es d \<Longrightarrow> cstep d e d' \<Longrightarrow> cexec c (es @ [e]) d'"
  by (rule cexec_append [OF _ cexec_one])

lemma cexec_appendD: "cexec c (es @ fs) d \<Longrightarrow> \<exists>m. cexec c es m \<and> cexec m fs d"
  by (induction es arbitrary: c) (auto elim!: cexec_ConsE, blast intro: cexec_cons)

lemma cexec_rev_induct [consumes 1, case_names nil snoc]:
  assumes "cexec c es d" "P [] c"
    and "\<And>es m e d'. cexec c es m \<Longrightarrow> P es m \<Longrightarrow> cstep m e d' \<Longrightarrow> P (es @ [e]) d'"
  shows "P es d"
  using assms(1)
proof (induction es arbitrary: d rule: rev_induct)
  case Nil
  then show ?case using assms(2) by (auto elim: cexec_NilE)
next
  case (snoc e es)
  then obtain m where "cexec c es m" "cstep m e d"
    using cexec_appendD [of c es "[e]" d] by (auto elim!: cexec_ConsE cexec_NilE)
  with snoc.IH show ?case by (blast intro: assms(3))
qed

section \<open>Fencing\<close>

text \<open>A token is live while the task it was issued for still runs under it.\<close>

definition live :: "cstore \<Rightarrow> string \<Rightarrow> string \<Rightarrow> bool" where
  "live c i tok \<longleftrightarrow> (\<exists>a u. c_tasks c i = Some a \<and> a_state a = ARunning tok u)"

fun uses :: "cevent \<Rightarrow> (string \<times> string) option" where
  "uses (Completed i tok) = Some (i, tok)"
| "uses (Retried i tok) = Some (i, tok)"
| "uses (Died i tok) = Some (i, tok)"
| "uses (Extended i tok) = Some (i, tok)"
| "uses _ = None"

fun closes :: "cevent \<Rightarrow> (string \<times> string) option" where
  "closes (Completed i tok) = Some (i, tok)"
| "closes (Retried i tok) = Some (i, tok)"
| "closes (Died i tok) = Some (i, tok)"
| "closes _ = None"

definition well_fenced :: "cstore \<Rightarrow> bool" where
  "well_fenced c \<longleftrightarrow> (\<forall>i tok. live c i tok \<longrightarrow> (i, tok) \<in> c_issued c)"

lemma uses_live: "cstep c e d \<Longrightarrow> uses e = Some (i, tok) \<Longrightarrow> live c i tok"
  by (cases e) (auto elim!: cstep_elims simp: live_def)

lemma closes_kills: "cstep c e d \<Longrightarrow> closes e = Some (i, tok) \<Longrightarrow> \<not> live d i tok"
  by (cases e) (auto elim!: cstep_elims simp: live_def)

lemma issued_mono: "cstep c e d \<Longrightarrow> c_issued c \<subseteq> c_issued d"
  by (cases e) (auto elim!: cstep_elims)

lemma live_step:
  "cstep c e d \<Longrightarrow> live d i tok \<Longrightarrow> live c i tok \<or> ((i, tok) \<notin> c_issued c \<and> (\<exists>now u. e = Claimed i tok now u))"
  by (cases e) (auto elim!: cstep_elims simp: live_def split: if_splits)

lemma stale_step:
  "cstep c e d \<Longrightarrow> (i, tok) \<in> c_issued c \<Longrightarrow> \<not> live c i tok \<Longrightarrow>
    \<not> live d i tok \<and> (i, tok) \<in> c_issued d \<and> uses e \<noteq> Some (i, tok)"
  using live_step issued_mono uses_live by blast

text \<open>
  Fencing matches on the pair of id and token (a batch claim may share one token among its
  tasks). A pair that has lost its task is dead for good: no later event completes, fails or extends
  under it, in any continuation.
\<close>

lemma stale_forever:
  "cexec c es d \<Longrightarrow> (i, tok) \<in> c_issued c \<Longrightarrow> \<not> live c i tok \<Longrightarrow>
    \<not> live d i tok \<and> (\<forall>e \<in> set es. uses e \<noteq> Some (i, tok))"
proof (induction rule: cexec.induct)
  case (cexec_nil c)
  then show ?case by simp
next
  case (cexec_cons c e d es d')
  from stale_step [OF cexec_cons.hyps(1) cexec_cons.prems] cexec_cons.IH show ?case by simp
qed

lemma claim_supersedes:
  assumes "cstep c (Claimed i tok' now u) d" "(i, tok) \<in> c_issued c"
  shows "\<not> live d i tok"
  using assms by (auto elim!: cstep_elims simp: live_def)

lemma well_fenced_init: "well_fenced cinit"
  by (simp add: well_fenced_def live_def cinit_def)

lemma well_fenced_step: "cstep c e d \<Longrightarrow> well_fenced c \<Longrightarrow> well_fenced d"
  by (cases e) (fastforce elim!: cstep_elims simp: well_fenced_def live_def split: if_splits)+

lemma well_fenced_exec: "cexec c es d \<Longrightarrow> well_fenced c \<Longrightarrow> well_fenced d"
  by (induction rule: cexec.induct) (auto intro: well_fenced_step)

section \<open>Mutual exclusion of a lease\<close>

text \<open>
  While a lease runs, nobody takes the task away: as long as claims and sweeps happen no later
  than its deadline, and its owner neither finishes nor extends it, the task stays under the
  token, and so no claim in between hands it to another caller. Only an operator's delete can.
\<close>

definition leased :: "cstore \<Rightarrow> string \<Rightarrow> string \<Rightarrow> gtime \<Rightarrow> bool" where
  "leased c i tok u \<longleftrightarrow> (\<exists>a. c_tasks c i = Some a \<and> a_state a = ARunning tok u)"

fun lease_safe :: "string \<Rightarrow> string \<Rightarrow> gtime \<Rightarrow> cevent \<Rightarrow> bool" where
  "lease_safe i tok u (Claimed j _ now _) \<longleftrightarrow> now \<le> u"
| "lease_safe i tok u (Reaped j now) \<longleftrightarrow> now \<le> u"
| "lease_safe i tok u (Purged j) \<longleftrightarrow> j \<noteq> i"
| "lease_safe i tok u e \<longleftrightarrow> uses e \<noteq> Some (i, tok)"

lemma leased_step:
  "cstep c e d \<Longrightarrow> leased c i tok u \<Longrightarrow> lease_safe i tok u e \<Longrightarrow>
    leased d i tok u \<and> (\<forall>tok' now u'. e \<noteq> Claimed i tok' now u')"
  by (cases e) (auto elim!: cstep_elims simp: leased_def)

lemma leased_exec:
  "cexec c es d \<Longrightarrow> leased c i tok u \<Longrightarrow> \<forall>e \<in> set es. lease_safe i tok u e \<Longrightarrow>
    leased d i tok u \<and> (\<forall>tok' now u'. Claimed i tok' now u' \<notin> set es)"
proof (induction rule: cexec.induct)
  case (cexec_nil c)
  then show ?case by simp
next
  case (cexec_cons c e d es d')
  then have "leased d i tok u" "\<forall>tok' now u'. e \<noteq> Claimed i tok' now u'"
    using leased_step by auto
  with cexec_cons show ?case by auto
qed

section \<open>The attempts budget and unique keys\<close>

text \<open>
  Two things the contract leaves to its callers: tasks enter fresh and with a positive budget,
  and a failed attempt is retried only while the budget lasts.
\<close>

definition disciplined :: "cstore \<Rightarrow> cevent \<Rightarrow> bool" where
  "disciplined c e = (case e of
     Enqueued i a \<Rightarrow> a_attempts a = 0 \<and> 1 \<le> a_max a
   | Retried i tok \<Rightarrow> (case c_tasks c i of None \<Rightarrow> True | Some a \<Rightarrow> a_attempts a < a_max a)
   | _ \<Rightarrow> True)"

inductive creach :: "cevent list \<Rightarrow> cstore \<Rightarrow> bool" where
  creach_init: "creach [] cinit"
| creach_step: "creach es c \<Longrightarrow> cstep c e d \<Longrightarrow> disciplined c e \<Longrightarrow> creach (es @ [e]) d"

definition budget_inv :: "cstore \<Rightarrow> bool" where
  "budget_inv c \<longleftrightarrow> (\<forall>i a. c_tasks c i = Some a \<longrightarrow>
     0 \<le> a_attempts a \<and> a_attempts a \<le> a_max a \<and> 1 \<le> a_max a \<and>
     (\<forall>r. a_state a = APending r \<longrightarrow> a_attempts a < a_max a))"

lemma budget_step:
  "cstep c e d \<Longrightarrow> disciplined c e \<Longrightarrow> budget_inv c \<Longrightarrow> budget_inv d"
  by (cases e) (fastforce elim!: cstep_elims simp: budget_inv_def disciplined_def split: if_splits astate.splits)+

lemma budget_init: "budget_inv cinit"
  by (simp add: budget_inv_def cinit_def)

lemma creach_budget: "creach es c \<Longrightarrow> budget_inv c"
  by (induction rule: creach.induct) (auto simp: budget_init intro: budget_step)

definition key_inv :: "cstore \<Rightarrow> bool" where
  "key_inv c \<longleftrightarrow>
     (\<forall>i a. c_tasks c i = Some a \<longrightarrow> a_key a \<noteq> [] \<longrightarrow> is_active (a_state a)) \<and>
     (\<forall>i j a b. c_tasks c i = Some a \<longrightarrow> c_tasks c j = Some b \<longrightarrow> a_key a \<noteq> [] \<longrightarrow>
        a_key a = a_key b \<longrightarrow> i = j)"

lemma key_init: "key_inv cinit"
  by (simp add: key_inv_def cinit_def)

lemma key_step:
  assumes "cstep c e d" "key_inv c"
  shows "key_inv d"
proof (cases e)
  case (Enqueued i a)
  with assms show ?thesis
    by (auto elim!: cstep_elims simp: key_inv_def key_active_def split: if_splits)
qed (use assms in \<open>(fastforce elim!: cstep_elims simp: key_inv_def split: if_splits)+\<close>)

section \<open>Counting attempts in the history\<close>

text \<open>The claims of a task since it was enqueued or last requeued.\<close>

fun count_attempt :: "string \<Rightarrow> nat \<Rightarrow> cevent \<Rightarrow> nat" where
  "count_attempt i n (Enqueued j _) = (if j = i then 0 else n)"
| "count_attempt i n (Requeued j) = (if j = i then 0 else n)"
| "count_attempt i n (Claimed j _ _ _) = (if j = i then Suc n else n)"
| "count_attempt i n _ = n"

definition attempts_since :: "string \<Rightarrow> cevent list \<Rightarrow> nat" where
  "attempts_since i es = foldl (count_attempt i) 0 es"

lemma attempts_since_snoc: "attempts_since i (es @ [e]) = count_attempt i (attempts_since i es) e"
  by (simp add: attempts_since_def)

lemma creach_attempts:
  "creach es c \<Longrightarrow> c_tasks c i = Some a \<Longrightarrow> a_attempts a = int (attempts_since i es)"
proof (induction arbitrary: a rule: creach.induct)
  case creach_init
  then show ?case by (simp add: cinit_def)
next
  case (creach_step es c e d)
  then show ?case
    by (cases e) (auto elim!: cstep_elims simp: attempts_since_snoc disciplined_def split: if_splits)
qed

section \<open>Claims over a whole history\<close>

definition claims :: "string \<Rightarrow> cevent list \<Rightarrow> nat" where
  "claims i es = length (filter (\<lambda>e. \<exists>tok now u. e = Claimed i tok now u) es)"

lemma claims_Nil [simp]: "claims i [] = 0"
  by (simp add: claims_def)

lemma claims_snoc:
  "claims i (es @ [e]) = claims i es + (case e of Claimed j _ _ _ \<Rightarrow> if j = i then 1 else 0 | _ \<Rightarrow> 0)"
  by (cases e) (auto simp: claims_def)

definition limit_inv :: "cstore \<Rightarrow> bool" where
  "limit_inv c \<longleftrightarrow> (\<forall>i a. c_tasks c i = Some a \<longrightarrow> c_limit c i = Some (a_max a))"

lemma limit_step: "cstep c e d \<Longrightarrow> limit_inv c \<Longrightarrow> limit_inv d"
  by (cases e) (auto elim!: cstep_elims simp: limit_inv_def split: if_splits)

lemma creach_limit: "creach es c \<Longrightarrow> limit_inv c"
proof (induction rule: creach.induct)
  case creach_init
  then show ?case by (simp add: limit_inv_def cinit_def)
qed (rule limit_step)

lemma limit_mono: "cstep c e d \<Longrightarrow> c_limit c i = Some n \<Longrightarrow> c_limit d i = Some n"
  by (cases e) (auto elim!: cstep_elims)

text \<open>
  A task that was never requeued is claimed at most as often as the limit it was enqueued with; while
  it exists, its attempts are its claims.
\<close>

definition claims_inv :: "string \<Rightarrow> cevent list \<Rightarrow> cstore \<Rightarrow> bool" where
  "claims_inv i es c \<longleftrightarrow>
     (c_limit c i = None \<longrightarrow> claims i es = 0) \<and>
     (\<forall>n. c_limit c i = Some n \<longrightarrow> int (claims i es) \<le> n) \<and>
     (\<forall>a. c_tasks c i = Some a \<longrightarrow> a_attempts a = int (claims i es))"

lemma claims_inv_step:
  assumes "cstep c e d" "disciplined c e" "claims_inv i es c" "e \<noteq> Requeued i"
    and "limit_inv c" "budget_inv d"
  shows "claims_inv i (es @ [e]) d"
proof (cases "\<exists>tok now u. e = Claimed i tok now u")
  case True
  then obtain tok now u where e: "e = Claimed i tok now u" by blast
  from assms(1) obtain a where a: "c_tasks c i = Some a" "c_limit d = c_limit c"
      "c_tasks d i = Some (a\<lparr>a_attempts := a_attempts a + 1, a_state := ARunning tok u\<rparr>)"
    unfolding e by (elim claimedE) simp
  have "c_limit c i = Some (a_max a)" using assms(5) a(1) unfolding limit_inv_def by blast
  moreover have "a_attempts a + 1 \<le> a_max a" using assms(6) a(3) unfolding budget_inv_def by fastforce
  ultimately show ?thesis using assms(3) a by (simp add: claims_inv_def claims_snoc e)
next
  case False
  then have cl: "claims i (es @ [e]) = claims i es" by (cases e) (auto simp: claims_snoc)
  show ?thesis
    using assms(1-4) False unfolding claims_inv_def cl
    by (cases e) (auto elim!: cstep_elims simp: disciplined_def split: if_splits)
qed

lemma creach_claims: "creach es c \<Longrightarrow> Requeued i \<notin> set es \<Longrightarrow> claims_inv i es c"
proof (induction rule: creach.induct)
  case creach_init
  then show ?case by (simp add: claims_inv_def cinit_def)
next
  case (creach_step es c e d)
  then show ?case
    using creach_limit creach_budget [OF creach.creach_step [OF creach_step.hyps]]
    by (intro claims_inv_step) auto
qed

text \<open>The claims issued for a task are no more than its claim events.\<close>

definition issued_for :: "string \<Rightarrow> cstore \<Rightarrow> string set" where
  "issued_for i c = {tok. (i, tok) \<in> c_issued c}"

lemma cexec_issued:
  "cexec c es d \<Longrightarrow> finite (issued_for i c) \<Longrightarrow>
    finite (issued_for i d) \<and> card (issued_for i d) \<le> card (issued_for i c) + claims i es"
proof (induction rule: cexec_rev_induct)
  case nil
  then show ?case by simp
next
  case (snoc es m e d')
  then have IH: "finite (issued_for i m)" "card (issued_for i m) \<le> card (issued_for i c) + claims i es" by auto
  show ?case
  proof (cases "\<exists>tok now u. e = Claimed i tok now u")
    case True
    then obtain tok now u where e: "e = Claimed i tok now u" by blast
    have "issued_for i d' = insert tok (issued_for i m)"
      using snoc.hyps by (auto simp: e issued_for_def elim!: claimedE)
    then have "card (issued_for i d') \<le> Suc (card (issued_for i m))" by (simp add: card_insert_le_m1 IH(1) card_insert_if)
    with IH show ?thesis by (simp add: claims_snoc e \<open>issued_for i d' = _\<close>)
  next
    case False
    have "issued_for i d' = issued_for i m"
      using snoc.hyps False by (cases e) (auto simp: issued_for_def elim!: cstep_elims)
    with IH False show ?thesis by (auto simp: claims_snoc split: cevent.split)
  qed
qed

lemma creach_cexec: "creach es c \<Longrightarrow> cexec cinit es c"
  by (induction rule: creach.induct) (auto intro: cexec_snoc)

lemma creach_issued:
  "creach es c \<Longrightarrow> finite (issued_for i c) \<and> card (issued_for i c) \<le> claims i es"
  using cexec_issued [OF creach_cexec, of es c i] by (simp add: issued_for_def cinit_def)

end
