(* ===== verification/Store_Interface.thy ===== *)
theory Store_Interface
  imports Contract Memstore
begin

text \<open>
  The \<open>Store\<close> interface of \<open>store.go\<close> as a record of operations over a backend state (a Go
  interface value is such a table of methods), and the contract its documentation states, as a
  locale: every operation of a conforming store is a run of the abstract machine of theory
  \<open>Contract\<close>. An operation that reports an unexpected error may have been applied or not.
\<close>

section \<open>The method table\<close>

record 's store =
  st_Enqueue :: "task list \<Rightarrow> 's \<Rightarrow> (string list \<times> gerror option) \<times> 's"
  st_Claim :: "gtime \<Rightarrow> claim_options \<Rightarrow> 's \<Rightarrow> (gerror + task) \<times> 's"
  st_ClaimBatch :: "gtime \<Rightarrow> claim_options \<Rightarrow> int \<Rightarrow> 's \<Rightarrow> (gerror + task list) \<times> 's"
  st_Complete :: "gtime \<Rightarrow> task \<Rightarrow> json \<Rightarrow> 's \<Rightarrow> gerror option \<times> 's"
  st_Fail :: "gtime \<Rightarrow> task \<Rightarrow> task_error \<Rightarrow> gtime \<Rightarrow> bool \<Rightarrow> 's \<Rightarrow> gerror option \<times> 's"
  st_ExtendLease :: "gtime \<Rightarrow> task \<Rightarrow> duration \<Rightarrow> 's \<Rightarrow> (gerror + gtime) \<times> 's"
  st_FinalizeBatch :: "(nat \<Rightarrow> gtime) \<Rightarrow> outcome list \<Rightarrow> 's \<Rightarrow> (int \<times> gerror option) \<times> 's"
  st_Requeue :: "gtime \<Rightarrow> string \<Rightarrow> 's \<Rightarrow> gerror option \<times> 's"
  st_RequeueDead :: "gtime \<Rightarrow> string \<Rightarrow> 's \<Rightarrow> (gerror + int) \<times> 's"
  st_RegisterQueues :: "queue_policy list \<Rightarrow> 's \<Rightarrow> gerror option \<times> 's"
  st_ReapExpired :: "gtime \<Rightarrow> 's \<Rightarrow> (gerror + int) \<times> 's"
  st_EnsureMetrics :: "duration \<Rightarrow> 's \<Rightarrow> gerror option \<times> 's"
  st_SnapshotMetrics :: "string list \<Rightarrow> gtime \<Rightarrow> duration \<Rightarrow> 's \<Rightarrow> gerror option \<times> 's"
  st_RecordCounters ::
    "string \<Rightarrow> gtime \<Rightarrow> duration \<Rightarrow> queue_counters amap \<Rightarrow> 's \<Rightarrow> gerror option \<times> 's"

section \<open>The abstraction of a task\<close>

fun abs_state :: "status \<Rightarrow> task \<Rightarrow> astate" where
  "abs_state StatusPending t = APending (t_RunAt t)"
| "abs_state StatusRunning t = ARunning (t_LeaseToken t) (t_LeasedUntil t)"
| "abs_state StatusDone t = ADone"
| "abs_state StatusDead t = ADead"

definition abs_task :: "task \<Rightarrow> atask" where
  "abs_task t = \<lparr>a_queue = t_Queue t, a_type = t_Type t, a_key = t_UniqueKey t,
     a_attempts = t_Attempts t, a_max = t_MaxAttempts t, a_state = abs_state (t_Status t) t\<rparr>"

definition claim_event :: "gtime \<Rightarrow> task \<Rightarrow> cevent" where
  "claim_event now t = Claimed (t_ID t) (t_LeaseToken t) now (t_LeasedUntil t)"

definition outcome_event :: "outcome \<Rightarrow> cevent" where
  "outcome_event r = (let i = t_ID (o_Task r); tok = t_LeaseToken (o_Task r) in
     case o_Failure r of
       None \<Rightarrow> Completed i tok
     | Some _ \<Rightarrow> if o_Terminal r then Died i tok else Retried i tok)"

text \<open>
  A store may keep times at a coarser precision than the nanoseconds of \<open>time.Time\<close>, rounded down
  (MongoDB: milliseconds), so the task it records may be due a little before the one it was given.
\<close>

definition stored_as :: "string \<Rightarrow> task \<Rightarrow> cevent \<Rightarrow> bool" where
  "stored_as i t e \<longleftrightarrow> (\<exists>r \<le> t_RunAt t. e = Enqueued i (abs_task (t\<lparr>t_RunAt := r\<rparr>)))"

abbreviation enqueue_events :: "task list \<Rightarrow> cevent set" where
  "enqueue_events ts \<equiv> {e. \<exists>i. \<exists>t \<in> set ts. stored_as i t e}"

lemma abs_task_sel [simp]:
  "a_queue (abs_task t) = t_Queue t" "a_type (abs_task t) = t_Type t"
  "a_key (abs_task t) = t_UniqueKey t" "a_attempts (abs_task t) = t_Attempts t"
  "a_max (abs_task t) = t_MaxAttempts t" "a_state (abs_task t) = abs_state (t_Status t) t"
  by (simp_all add: abs_task_def)

lemma is_active_abs [simp]: "is_active (abs_state (t_Status t) t) \<longleftrightarrow> active t"
  by (cases "t_Status t") (auto simp: active_def)

lemma claimable_abs: "claimable now (abs_task t) \<longleftrightarrow> runnable now t"
  by (cases "t_Status t") (auto simp: runnable_def)

lemma abs_pending_iff [simp]:
  "abs_state (t_Status t) t = APending r \<longleftrightarrow> t_Status t = StatusPending \<and> r = t_RunAt t"
  by (cases "t_Status t") auto

lemma abs_running_iff [simp]:
  "abs_state (t_Status t) t = ARunning tok u \<longleftrightarrow>
    t_Status t = StatusRunning \<and> tok = t_LeaseToken t \<and> u = t_LeasedUntil t"
  by (cases "t_Status t") auto

lemma abs_dead_iff [simp]: "abs_state (t_Status t) t = ADead \<longleftrightarrow> t_Status t = StatusDead"
  by (cases "t_Status t") auto

section \<open>The contract\<close>

definition advances :: "('s \<Rightarrow> cstore \<Rightarrow> bool) \<Rightarrow> cstore \<Rightarrow> cevent list \<Rightarrow> 's \<Rightarrow> bool" where
  "advances R c es s' \<longleftrightarrow> (\<exists>d. cexec c es d \<and> R s' d)"

definition may_advance :: "('s \<Rightarrow> cstore \<Rightarrow> bool) \<Rightarrow> cstore \<Rightarrow> cevent set \<Rightarrow> 's \<Rightarrow> bool" where
  "may_advance R c E s' \<longleftrightarrow> (\<exists>es. set es \<subseteq> E \<and> advances R c es s')"

lemma advances_nil: "R s' c \<Longrightarrow> advances R c [] s'"
  by (auto simp: advances_def)

lemma may_advance_stay: "R s' c \<Longrightarrow> may_advance R c E s'"
  by (auto simp: may_advance_def intro!: exI [of _ "[]"] advances_nil)

lemma may_advance_mono: "may_advance R c E s' \<Longrightarrow> E \<subseteq> F \<Longrightarrow> may_advance R c F s'"
  by (auto simp: may_advance_def)

locale store_contract =
  fixes st :: "'s store" and R :: "'s \<Rightarrow> cstore \<Rightarrow> bool"
  assumes enqueue_ok: "R s c \<Longrightarrow> \<forall>t \<in> set ts. t_Status t = StatusPending \<Longrightarrow>
      st_Enqueue st ts s = ((ids, None), s') \<Longrightarrow>
      \<exists>es. list_all2 (\<lambda>(i, t) e. stored_as i t e) (zip ids ts) es \<and> length ids = length ts \<and>
        advances R c es s'"
    and enqueue_err: "R s c \<Longrightarrow> \<forall>t \<in> set ts. t_Status t = StatusPending \<Longrightarrow>
      st_Enqueue st ts s = ((ids, Some e), s') \<Longrightarrow>
      may_advance R c (enqueue_events ts) s'"
    and claim_ok: "R s c \<Longrightarrow> st_Claim st now opts s = (Inr t, s') \<Longrightarrow>
      \<exists>d. cstep c (claim_event now t) d \<and> R s' d \<and> c_tasks d (t_ID t) = Some (abs_task t) \<and>
        accepts opts t"
    and claim_none: "R s c \<Longrightarrow> st_Claim st now opts s = (Inl ErrNoTask, s') \<Longrightarrow> R s' c"
    and claim_err: "R s c \<Longrightarrow> st_Claim st now opts s = (Inl e, s') \<Longrightarrow>
      may_advance R c {Claimed i tok now u | i tok u. True} s'"
    and batch_ok: "R s c \<Longrightarrow> 0 \<le> sint (co_Lease opts) \<Longrightarrow>
      st_ClaimBatch st now opts k s = (Inr ts, s') \<Longrightarrow>
      int (length ts) \<le> max 0 k \<and> distinct (map t_ID ts) \<and>
      (\<exists>d. cexec c (map (claim_event now) ts) d \<and> R s' d \<and>
        (\<forall>t \<in> set ts. c_tasks d (t_ID t) = Some (abs_task t) \<and> accepts opts t))"
    and batch_err: "R s c \<Longrightarrow> st_ClaimBatch st now opts k s = (Inl e, s') \<Longrightarrow>
      may_advance R c {Claimed i tok now u | i tok u. True} s'"
    and complete_ok: "R s c \<Longrightarrow> st_Complete st now t r s = (None, s') \<Longrightarrow>
      advances R c [Completed (t_ID t) (t_LeaseToken t)] s'"
    and complete_lost: "R s c \<Longrightarrow> st_Complete st now t r s = (Some ErrLeaseLost, s') \<Longrightarrow>
      R s' c \<and> \<not> live c (t_ID t) (t_LeaseToken t)"
    and complete_err: "R s c \<Longrightarrow> st_Complete st now t r s = (Some e, s') \<Longrightarrow>
      may_advance R c {Completed (t_ID t) (t_LeaseToken t)} s'"
    and fail_ok: "R s c \<Longrightarrow> st_Fail st now t f ra terminal s = (None, s') \<Longrightarrow>
      advances R c [if terminal then Died (t_ID t) (t_LeaseToken t)
                    else Retried (t_ID t) (t_LeaseToken t)] s'"
    and fail_lost: "R s c \<Longrightarrow> st_Fail st now t f ra terminal s = (Some ErrLeaseLost, s') \<Longrightarrow>
      R s' c \<and> \<not> live c (t_ID t) (t_LeaseToken t)"
    and fail_err: "R s c \<Longrightarrow> st_Fail st now t f ra terminal s = (Some e, s') \<Longrightarrow>
      may_advance R c {if terminal then Died (t_ID t) (t_LeaseToken t)
                       else Retried (t_ID t) (t_LeaseToken t)} s'"
    and extend_ok: "R s c \<Longrightarrow> st_ExtendLease st now t lease s = (Inr u, s') \<Longrightarrow>
      advances R c [Extended (t_ID t) (t_LeaseToken t)] s'"
    and extend_err: "R s c \<Longrightarrow> st_ExtendLease st now t lease s = (Inl e, s') \<Longrightarrow>
      may_advance R c {Extended (t_ID t) (t_LeaseToken t)} s'"
    and finalize_ok: "R s c \<Longrightarrow> st_FinalizeBatch st clock os s = ((lost, None), s') \<Longrightarrow>
      \<exists>rs. set rs \<subseteq> set os \<and> lost = int (length os) - int (length rs) \<and>
        advances R c (map outcome_event rs) s'"
    and finalize_err: "R s c \<Longrightarrow> st_FinalizeBatch st clock os s = ((lost, Some e), s') \<Longrightarrow>
      may_advance R c (outcome_event ` set os) s'"
    and requeue_ok: "R s c \<Longrightarrow> st_Requeue st now i s = (None, s') \<Longrightarrow> advances R c [Requeued i] s'"
    and requeue_err: "R s c \<Longrightarrow> st_Requeue st now i s = (Some e, s') \<Longrightarrow>
      may_advance R c {Requeued i} s'"
    and requeue_dead: "R s c \<Longrightarrow> st_RequeueDead st now ty s = (n, s') \<Longrightarrow>
      may_advance R c (range Requeued) s'"
    and reap: "R s c \<Longrightarrow> st_ReapExpired st now s = (n, s') \<Longrightarrow>
      may_advance R c {Reaped i now | i. True} s'"
    and register: "R s c \<Longrightarrow> st_RegisterQueues st qs s = (e', s') \<Longrightarrow> R s' c"
    and ensure_metrics: "R s c \<Longrightarrow> st_EnsureMetrics st ret s = (e', s') \<Longrightarrow> R s' c"
    and snapshot: "R s c \<Longrightarrow> st_SnapshotMetrics st qn w iv s = (e', s') \<Longrightarrow> R s' c"
    and record_counters: "R s c \<Longrightarrow> st_RecordCounters st mid w iv cs s = (e', s') \<Longrightarrow> R s' c"

end
