(* ===== verification/Store_Client.thy ===== *)
theory Store_Client
  imports Store_Interface
begin

text \<open>
  Client programs of a store: any sequence of calls of the \<open>Store\<close> interface, by any number of
  callers (the calls are atomic, so an interleaving is a sequence), each with the time it reads.
  The lemmas hold for every store that keeps the contract.
\<close>

datatype call =
    CEnqueue "task list"
  | CClaim claim_options
  | CClaimBatch claim_options int
  | CComplete task json
  | CFail task task_error gtime bool
  | CExtendLease task duration
  | CFinalizeBatch "nat \<Rightarrow> gtime" "outcome list"
  | CRequeue string
  | CRequeueDead string
  | CRegisterQueues "queue_policy list"
  | CReapExpired
  | CSnapshotMetrics "string list" gtime duration
  | CRecordCounters string gtime duration "queue_counters amap"

fun apply_call :: "'s store \<Rightarrow> gtime \<times> call \<Rightarrow> 's \<Rightarrow> 's" where
  "apply_call st (now, CEnqueue ts) s = snd (st_Enqueue st ts s)"
| "apply_call st (now, CClaim opts) s = snd (st_Claim st now opts s)"
| "apply_call st (now, CClaimBatch opts k) s = snd (st_ClaimBatch st now opts k s)"
| "apply_call st (now, CComplete t r) s = snd (st_Complete st now t r s)"
| "apply_call st (now, CFail t f ra b) s = snd (st_Fail st now t f ra b s)"
| "apply_call st (now, CExtendLease t l) s = snd (st_ExtendLease st now t l s)"
| "apply_call st (now, CFinalizeBatch clock os) s = snd (st_FinalizeBatch st clock os s)"
| "apply_call st (now, CRequeue i) s = snd (st_Requeue st now i s)"
| "apply_call st (now, CRequeueDead ty) s = snd (st_RequeueDead st now ty s)"
| "apply_call st (now, CRegisterQueues qs) s = snd (st_RegisterQueues st qs s)"
| "apply_call st (now, CReapExpired) s = snd (st_ReapExpired st now s)"
| "apply_call st (now, CSnapshotMetrics qs w iv) s = snd (st_SnapshotMetrics st qs w iv s)"
| "apply_call st (now, CRecordCounters m w iv cs) s = snd (st_RecordCounters st m w iv cs s)"

definition run_calls :: "'s store \<Rightarrow> (gtime \<times> call) list \<Rightarrow> 's \<Rightarrow> 's" where
  "run_calls st ks s = fold (apply_call st) ks s"

lemma run_calls_simps [simp]:
  "run_calls st [] s = s" "run_calls st (k # ks) s = run_calls st ks (apply_call st k s)"
  by (simp_all add: run_calls_def)

lemma run_calls_append: "run_calls st (ks @ ls) s = run_calls st ls (run_calls st ks s)"
  by (simp add: run_calls_def)

text \<open>What the interface asks of its callers: tasks enter pending, batch leases are not negative.\<close>

fun call_ok :: "call \<Rightarrow> bool" where
  "call_ok (CEnqueue ts) = list_all (\<lambda>t. t_Status t = StatusPending) ts"
| "call_ok (CClaimBatch opts k) = (0 \<le> sint (co_Lease opts))"
| "call_ok _ = True"

abbreviation calls_ok :: "(gtime \<times> call) list \<Rightarrow> bool" where
  "calls_ok ks \<equiv> list_all (\<lambda>(now, k). call_ok k) ks"

text \<open>The abstract events a call can cause.\<close>

fun call_events :: "gtime \<Rightarrow> call \<Rightarrow> cevent set" where
  "call_events now (CEnqueue ts) = enqueue_events ts"
| "call_events now (CClaim opts) = {Claimed i tok now u | i tok u. True}"
| "call_events now (CClaimBatch opts k) = {Claimed i tok now u | i tok u. True}"
| "call_events now (CComplete t r) = {Completed (t_ID t) (t_LeaseToken t)}"
| "call_events now (CFail t f ra b) =
     {if b then Died (t_ID t) (t_LeaseToken t) else Retried (t_ID t) (t_LeaseToken t)}"
| "call_events now (CExtendLease t l) = {Extended (t_ID t) (t_LeaseToken t)}"
| "call_events now (CFinalizeBatch clock os) = outcome_event ` set os"
| "call_events now (CRequeue i) = {Requeued i}"
| "call_events now (CRequeueDead ty) = range Requeued"
| "call_events now CReapExpired = {Reaped i now | i. True}"
| "call_events now _ = {}"

text \<open>A call that leaves a lease alone: it comes no later than the deadline and is no write under it.\<close>

fun writes_under :: "call \<Rightarrow> (string \<times> string) set" where
  "writes_under (CComplete t r) = {(t_ID t, t_LeaseToken t)}"
| "writes_under (CFail t f ra b) = {(t_ID t, t_LeaseToken t)}"
| "writes_under (CExtendLease t l) = {(t_ID t, t_LeaseToken t)}"
| "writes_under (CFinalizeBatch clock os) = (\<lambda>r. (t_ID (o_Task r), t_LeaseToken (o_Task r))) ` set os"
| "writes_under _ = {}"

definition spares :: "task \<Rightarrow> gtime \<times> call \<Rightarrow> bool" where
  "spares t nk \<longleftrightarrow> fst nk \<le> t_LeasedUntil t \<and> (t_ID t, t_LeaseToken t) \<notin> writes_under (snd nk)"

lemma spares_safe:
  assumes "spares t (now, k)" "e \<in> call_events now k"
  shows "lease_safe (t_ID t) (t_LeaseToken t) (t_LeasedUntil t) e"
  using assms
  by (cases k) (force simp: spares_def stored_as_def outcome_event_def Let_def
      split: option.splits if_splits)+

lemma advances_may: "advances R c es s' \<Longrightarrow> set es \<subseteq> E \<Longrightarrow> may_advance R c E s'"
  by (auto simp: may_advance_def)

lemma advances_one: "advances R c [e] s' \<Longrightarrow> e \<in> E \<Longrightarrow> may_advance R c E s'"
  by (rule advances_may) auto

lemma may_advance_trans:
  assumes "may_advance R c E s1" "\<And>d. R s1 d \<Longrightarrow> may_advance R d F s2"
  shows "may_advance R c (E \<union> F) s2"
proof -
  obtain es d where 1: "set es \<subseteq> E" "cexec c es d" "R s1 d"
    using assms(1) by (auto simp: may_advance_def advances_def)
  obtain fs d' where 2: "set fs \<subseteq> F" "cexec d fs d'" "R s2 d'"
    using assms(2) [OF 1(3)] by (auto simp: may_advance_def advances_def)
  have "cexec c (es @ fs) d'" using 1(2) 2(2) by (rule cexec_append)
  with 1(1) 2 show ?thesis
    unfolding may_advance_def advances_def by (auto intro!: exI [of _ "es @ fs"])
qed

lemma stored_events:
  assumes "list_all2 (\<lambda>(i, t) e. stored_as i t e) (zip ids ts) es"
  shows "set es \<subseteq> enqueue_events ts"
proof
  fix e
  assume "e \<in> set es"
  then obtain k where k: "k < length es" "es ! k = e" by (metis in_set_conv_nth)
  obtain i t where it: "zip ids ts ! k = (i, t)" by (rule prod.exhaust)
  have "stored_as i t e" using list_all2_nthD2 [OF assms k(1)] it k(2) by simp
  moreover have "(i, t) \<in> set (zip ids ts)"
    using it k(1) list_all2_lengthD [OF assms] by (metis nth_mem)
  then have "t \<in> set ts" by (rule set_zip_rightD)
  ultimately show "e \<in> enqueue_events ts" by blast
qed

context store_contract begin

lemma apply_enqueue:
  assumes "R s c" "list_all (\<lambda>t. t_Status t = StatusPending) ts"
  shows "may_advance R c (enqueue_events ts) (snd (st_Enqueue st ts s))"
proof -
  obtain ids e s' where r: "st_Enqueue st ts s = ((ids, e), s')" by (metis prod.exhaust)
  have p: "\<forall>t \<in> set ts. t_Status t = StatusPending" using assms(2) by (simp add: list_all_iff)
  show ?thesis
  proof (cases e)
    case None
    with enqueue_ok [OF assms(1) p] r obtain es where
      es: "list_all2 (\<lambda>(i, t) e. stored_as i t e) (zip ids ts) es" "advances R c es s'"
      by blast
    from es(1) have "set es \<subseteq> enqueue_events ts" by (rule stored_events)
    with es(2) r show ?thesis by (simp add: advances_may)
  next
    case (Some x)
    with enqueue_err [OF assms(1) p] r show ?thesis by simp
  qed
qed

lemma apply_claim:
  assumes "R s c"
  shows "may_advance R c {Claimed i tok now u | i tok u. True} (snd (st_Claim st now opts s))"
proof (cases "st_Claim st now opts s")
  case (Pair r s')
  show ?thesis
  proof (cases r)
    case (Inl e)
    with claim_err [OF assms] Pair show ?thesis by simp
  next
    case (Inr t)
    with claim_ok [OF assms] Pair obtain d where "cstep c (claim_event now t) d" "R s' d" by blast
    then have "advances R c [claim_event now t] s'"
      unfolding advances_def using cexec_one by blast
    with Pair show ?thesis by (auto intro!: advances_may simp: claim_event_def)
  qed
qed

lemma apply_batch:
  assumes "R s c" "0 \<le> sint (co_Lease opts)"
  shows "may_advance R c {Claimed i tok now u | i tok u. True} (snd (st_ClaimBatch st now opts k s))"
proof (cases "st_ClaimBatch st now opts k s")
  case (Pair r s')
  show ?thesis
  proof (cases r)
    case (Inl e)
    with batch_err [OF assms(1)] Pair show ?thesis by simp
  next
    case (Inr ts)
    with batch_ok [OF assms] Pair obtain d where
      "cexec c (map (claim_event now) ts) d" "R s' d" by blast
    then have "advances R c (map (claim_event now) ts) s'" by (auto simp: advances_def)
    with Pair show ?thesis by (auto intro!: advances_may simp: claim_event_def)
  qed
qed

lemma apply_complete:
  assumes "R s c"
  shows "may_advance R c {Completed (t_ID t) (t_LeaseToken t)} (snd (st_Complete st now t r s))"
proof (cases "st_Complete st now t r s")
  case (Pair e s')
  show ?thesis
  proof (cases e)
    case None
    with complete_ok [OF assms, of now t r s'] Pair show ?thesis by (simp add: advances_one)
  next
    case (Some x)
    with complete_err [OF assms] Pair show ?thesis by simp
  qed
qed


lemma apply_fail:
  assumes "R s c"
  shows "may_advance R c {if b then Died (t_ID t) (t_LeaseToken t) else Retried (t_ID t) (t_LeaseToken t)}
    (snd (st_Fail st now t f ra b s))"
  using fail_ok [OF assms, of now t f ra b] fail_err [OF assms, of now t f ra b]
  by (cases "st_Fail st now t f ra b s"; cases "fst (st_Fail st now t f ra b s)")
    (auto intro: advances_may)

lemma apply_extend:
  assumes "R s c"
  shows "may_advance R c {Extended (t_ID t) (t_LeaseToken t)} (snd (st_ExtendLease st now t l s))"
proof (cases "st_ExtendLease st now t l s")
  case (Pair e s')
  show ?thesis
  proof (cases e)
    case (Inl x)
    with extend_err [OF assms] Pair show ?thesis by simp
  next
    case (Inr u)
    with extend_ok [OF assms] Pair have "advances R c [Extended (t_ID t) (t_LeaseToken t)] s'" by blast
    with Pair show ?thesis by (simp add: advances_one)
  qed
qed


lemma apply_finalize:
  assumes "R s c"
  shows "may_advance R c (outcome_event ` set os) (snd (st_FinalizeBatch st clock os s))"
proof -
  obtain lost e s' where r: "st_FinalizeBatch st clock os s = ((lost, e), s')" by (metis prod.exhaust)
  show ?thesis
  proof (cases e)
    case None
    with finalize_ok [OF assms] r obtain rs where "set rs \<subseteq> set os"
      "advances R c (map outcome_event rs) s'" by blast
    then have "may_advance R c (outcome_event ` set os) s'"
      by (intro advances_may [of _ _ "map outcome_event rs"]) auto
    with r show ?thesis by simp
  next
    case (Some x)
    with finalize_err [OF assms] r show ?thesis by simp
  qed
qed

lemma apply_requeue:
  assumes "R s c"
  shows "may_advance R c {Requeued i} (snd (st_Requeue st now i s))"
proof (cases "st_Requeue st now i s")
  case (Pair e s')
  show ?thesis
  proof (cases e)
    case None
    with requeue_ok [OF assms, of now i s'] Pair show ?thesis by (simp add: advances_one)
  next
    case (Some x)
    with requeue_err [OF assms] Pair show ?thesis by simp
  qed
qed


lemma apply_sim:
  assumes "R s c" "call_ok k"
  shows "may_advance R c (call_events now k) (apply_call st (now, k) s)"
proof (cases k)
  case (CRequeueDead ty)
  then show ?thesis using requeue_dead [OF assms(1)] by (simp add: prod_eq_iff)
next
  case CReapExpired
  then show ?thesis using reap [OF assms(1)] by (simp add: prod_eq_iff)
next
  case (CRegisterQueues qs)
  then show ?thesis
    using register [OF assms(1)] by (auto intro: may_advance_stay simp: prod_eq_iff)
next
  case (CSnapshotMetrics qs w iv)
  then show ?thesis
    using snapshot [OF assms(1)] by (auto intro: may_advance_stay simp: prod_eq_iff)
next
  case (CRecordCounters m w iv cs)
  then show ?thesis
    using record_counters [OF assms(1)] by (auto intro: may_advance_stay simp: prod_eq_iff)
qed (use assms apply_enqueue apply_claim apply_batch apply_complete apply_fail apply_extend
      apply_finalize apply_requeue in simp_all)

text \<open>Every program of calls is a run of the abstract machine.\<close>

lemma run_sim:
  assumes "R s c" "calls_ok ks"
  shows "may_advance R c (\<Union>(now, k) \<in> set ks. call_events now k) (run_calls st ks s)"
  using assms
proof (induction ks arbitrary: s c)
  case Nil
  then show ?case by (simp add: may_advance_stay)
next
  case (Cons a ks)
  obtain now k where a: "a = (now, k)" by fastforce
  have 1: "may_advance R c (call_events now k) (apply_call st (now, k) s)"
    using Cons.prems by (intro apply_sim) (auto simp: a)
  have 2: "may_advance R d (\<Union>(now, k) \<in> set ks. call_events now k)
      (run_calls st ks (apply_call st (now, k) s))"
    if "R (apply_call st (now, k) s) d" for d
    using Cons.IH [OF that] Cons.prems by (simp add: a)
  show ?case using may_advance_trans [OF 1 2] by (simp add: a)
qed

text \<open>Once a claim has lost its task, no program makes it live again.\<close>

lemma run_stale:
  assumes "R s c" "calls_ok ks" "(i, tok) \<in> c_issued c" "\<not> live c i tok"
  shows "\<exists>d. R (run_calls st ks s) d \<and> \<not> live d i tok"
  using run_sim [OF assms(1,2)] stale_forever [OF _ assms(3,4)]
  unfolding may_advance_def advances_def by blast

text \<open>While a lease runs and its owner does not act, nobody else gets the task.\<close>

lemma run_leased:
  assumes "R s c" "calls_ok ks" "leased c i tok u"
    and "\<forall>(now, k) \<in> set ks. \<forall>e \<in> call_events now k. lease_safe i tok u e"
  shows "\<exists>d. R (run_calls st ks s) d \<and> leased d i tok u"
proof -
  obtain es d where 1: "set es \<subseteq> (\<Union>(now, k) \<in> set ks. call_events now k)" "cexec c es d"
      "R (run_calls st ks s) d"
    using run_sim [OF assms(1,2)] by (auto simp: may_advance_def advances_def)
  have "\<forall>e \<in> set es. lease_safe i tok u e" using 1(1) assms(4) by fastforce
  with leased_exec [OF 1(2) assms(3)] 1(3) show ?thesis by blast
qed

lemma claim_not_leased:
  assumes "R s c" "leased c i tok u" "now \<le> u" "st_Claim st now opts s = (Inr t, s')"
  shows "t_ID t \<noteq> i"
proof
  assume eq: "t_ID t = i"
  obtain d where d: "cstep c (claim_event now t) d" using claim_ok [OF assms(1,4)] by blast
  have "lease_safe i tok u (claim_event now t)" using assms(3) by (simp add: claim_event_def)
  with leased_step [OF d assms(2)] have "claim_event now t \<noteq> Claimed i (t_LeaseToken t) now (t_LeasedUntil t)"
    by blast
  with eq show False by (simp add: claim_event_def)
qed

lemma batch_not_leased:
  assumes "R s c" "leased c i tok u" "now \<le> u" "0 \<le> sint (co_Lease opts)"
    and "st_ClaimBatch st now opts k s = (Inr ts, s')"
  shows "i \<notin> t_ID ` set ts"
proof
  assume "i \<in> t_ID ` set ts"
  then obtain t where t: "t \<in> set ts" "t_ID t = i" by blast
  obtain d where "cexec c (map (claim_event now) ts) d" using batch_ok [OF assms(1,4,5)] by blast
  from leased_exec [OF this assms(2)] assms(3) have "claim_event now t \<noteq> Claimed i (t_LeaseToken t) now (t_LeasedUntil t)"
    using t(1) by (fastforce simp: claim_event_def)
  with t(2) show False by (simp add: claim_event_def)
qed

text \<open>Unique keys, in every state a program reaches.\<close>

lemma run_keys:
  assumes "R s c" "calls_ok ks" "key_inv c"
  shows "\<exists>d. R (run_calls st ks s) d \<and> key_inv d"
proof -
  obtain es d where 1: "cexec c es d" "R (run_calls st ks s) d"
    using run_sim [OF assms(1,2)] by (auto simp: may_advance_def advances_def)
  from 1(1) assms(3) have "key_inv d"
    by (induction rule: cexec.induct) (auto intro: key_step)
  with 1(2) show ?thesis by blast
qed

text \<open>Fencing through the interface.\<close>

lemma claim_issues:
  assumes "R s c" "st_Claim st now opts s = (Inr t, s')"
  shows "\<exists>d. R s' d \<and> (t_ID t, t_LeaseToken t) \<in> c_issued d \<and>
    leased d (t_ID t) (t_LeaseToken t) (t_LeasedUntil t) \<and>
    (\<forall>tok. (t_ID t, tok) \<in> c_issued c \<longrightarrow> \<not> live d (t_ID t) tok)"
proof -
  obtain d where d: "cstep c (claim_event now t) d" "R s' d" using claim_ok [OF assms] by blast
  have "(t_ID t, t_LeaseToken t) \<in> c_issued d \<and> leased d (t_ID t) (t_LeaseToken t) (t_LeasedUntil t)"
    using d(1) by (auto simp: claim_event_def leased_def elim!: claimedE)
  moreover have "\<not> live d (t_ID t) tok" if "(t_ID t, tok) \<in> c_issued c" for tok
    using claim_supersedes d(1) that by (simp add: claim_event_def)
  ultimately show ?thesis using d(2) by blast
qed

lemma claim_supersede:
  assumes "R s c" "st_Claim st now opts s = (Inr t, s')" "(t_ID t, tok) \<in> c_issued c"
  shows "\<exists>d. R s' d \<and> (t_ID t, tok) \<in> c_issued d \<and> \<not> live d (t_ID t) tok \<and>
    leased d (t_ID t) (t_LeaseToken t) (t_LeasedUntil t)"
proof -
  obtain d where d: "cstep c (claim_event now t) d" "R s' d" using claim_ok [OF assms(1,2)] by blast
  then have "\<not> live d (t_ID t) tok"
    using claim_supersedes assms(3) by (simp add: claim_event_def)
  moreover have "leased d (t_ID t) (t_LeaseToken t) (t_LeasedUntil t)"
    using d(1) by (auto simp: claim_event_def leased_def elim!: claimedE)
  ultimately show ?thesis using d assms(3) issued_mono [OF d(1)] by blast
qed

lemma leased_live: "leased c i tok u \<Longrightarrow> live c i tok"
  by (auto simp: leased_def live_def)

lemma fenced:
  assumes "R s c" "\<not> live c (t_ID t) (t_LeaseToken t)"
  shows "fst (st_Complete st now t r s) \<noteq> None"
    and "fst (st_Fail st now t f ra b s) \<noteq> None"
    and "fst (st_ExtendLease st now t l s) \<noteq> Inr u"
proof -
  have no: "\<not> advances R c [e] s'" if "uses e = Some (t_ID t, t_LeaseToken t)" for e s'
    using assms(2) uses_live [OF _ that] by (auto simp: advances_def elim!: cexec_ConsE)
  show "fst (st_Complete st now t r s) \<noteq> None"
    using complete_ok [OF assms(1), of now t r "snd (st_Complete st now t r s)"] no
    by (auto simp: prod_eq_iff)
  show "fst (st_Fail st now t f ra b s) \<noteq> None"
    using fail_ok [OF assms(1), of now t f ra b "snd (st_Fail st now t f ra b s)"] no
    by (auto simp: prod_eq_iff split: if_splits)
  show "fst (st_ExtendLease st now t l s) \<noteq> Inr u"
    using extend_ok [OF assms(1), of now t l u "snd (st_ExtendLease st now t l s)"] no
    by (auto simp: prod_eq_iff)
qed

lemma complete_closes:
  assumes "R s c" "st_Complete st now t r s = (None, s')"
  shows "\<exists>d. R s' d \<and> live c (t_ID t) (t_LeaseToken t) \<and> \<not> live d (t_ID t) (t_LeaseToken t) \<and>
    c_issued c \<subseteq> c_issued d"
proof -
  obtain d where d: "cstep c (Completed (t_ID t) (t_LeaseToken t)) d" "R s' d"
    using complete_ok [OF assms] by (auto simp: advances_def elim!: cexec_ConsE cexec_NilE)
  with closes_kills [OF d(1)] uses_live [OF d(1)] issued_mono [OF d(1)] show ?thesis by auto
qed

lemma fail_closes:
  assumes "R s c" "st_Fail st now t f ra b s = (None, s')"
  shows "\<exists>d. R s' d \<and> live c (t_ID t) (t_LeaseToken t) \<and> \<not> live d (t_ID t) (t_LeaseToken t) \<and>
    c_issued c \<subseteq> c_issued d"
proof -
  let ?e = "if b then Died (t_ID t) (t_LeaseToken t) else Retried (t_ID t) (t_LeaseToken t)"
  obtain d where d: "cstep c ?e d" "R s' d"
    using fail_ok [OF assms] by (auto simp: advances_def elim!: cexec_ConsE cexec_NilE)
  have "closes ?e = Some (t_ID t, t_LeaseToken t)" "uses ?e = Some (t_ID t, t_LeaseToken t)" by simp_all
  with closes_kills [OF d(1)] uses_live [OF d(1)] issued_mono [OF d(1)] d(2) show ?thesis by blast
qed

end

end
