(* ===== verification/Memstore_Refine.thy ===== *)
theory Memstore_Refine
  imports Memstore_Props Store_Client
begin

text \<open>
  The in-memory store implements the store contract: a simulation between its states and those of
  the abstract machine, one lemma per operation, and the interpretation of the contract's locale.
\<close>

section \<open>The simulation relation\<close>

definition sim :: "memstore \<Rightarrow> cstore \<Rightarrow> bool" where
  "sim s c \<longleftrightarrow> ms_wf s \<and> c_tasks c = (\<lambda>i. map_option abs_task (map_of (ms_tasks s) i)) \<and>
     snd ` c_issued c \<subseteq> lease_token ` {..ms_seq s} \<and> inj_on snd (c_issued c) \<and>
     dom (c_limit c) \<subseteq> task_id ` {..ms_seq s}"

lemma sim_wf: "sim s c \<Longrightarrow> ms_wf s"
  by (simp add: sim_def)

lemma sim_lookup: "sim s c \<Longrightarrow> c_tasks c i = map_option abs_task (map_of (ms_tasks s) i)"
  by (simp add: sim_def)

lemma sim_init: "sim ms_New cinit"
  by (simp add: sim_def cinit_def ms_New_def [THEN arg_cong [where f = ms_tasks]] ms_New_def
      [THEN arg_cong [where f = ms_seq]])

lemma sim_fresh_token: "sim s c \<Longrightarrow> (i, lease_token (Suc (ms_seq s))) \<notin> c_issued c"
  by (force simp: sim_def)

lemma sim_cong:
  assumes "sim s c" "ms_tasks s' = ms_tasks s" "ms_seq s' = ms_seq s"
  shows "sim s' c"
  using assms ms_wf_grow [of s s'] by (simp add: sim_def)

lemma sim_update:
  assumes "sim s c" "map_of (ms_tasks s) i = Some t" "t_ID t' = i"
  shows "sim (s\<lparr>ms_tasks := upd i t' (ms_tasks s)\<rparr>) (put c i (abs_task t'))"
  using assms ms_wf_update [OF sim_wf [OF assms(1)] assms(2,3)] by (simp add: sim_def fun_eq_iff)

lemma held_Some:
  "held i tok s = Some t \<longleftrightarrow>
    map_of (ms_tasks s) i = Some t \<and> t_Status t = StatusRunning \<and> t_LeaseToken t = tok"
  by (auto simp: held_def split: option.splits)

lemma held_running: "held i tok s = Some t \<Longrightarrow> a_state (abs_task t) = ARunning tok (t_LeasedUntil t)"
  by (simp add: held_Some)

lemma sim_live: "sim s c \<Longrightarrow> live c i tok \<longleftrightarrow> held i tok s \<noteq> None"
  by (auto simp: live_def sim_lookup held_Some)

lemma held_ID: "sim s c \<Longrightarrow> held i tok s = Some t \<Longrightarrow> t_ID t = i"
  using ms_wf_ID [OF sim_wf] by (simp add: held_Some)

lemma held_sim: "sim s c \<Longrightarrow> held i tok s = Some t \<Longrightarrow> c_tasks c i = Some (abs_task t)"
  by (simp add: sim_lookup held_Some)

section \<open>Enqueue\<close>

lemma key_active_sim:
  "sim s c \<Longrightarrow> key_active c k \<longleftrightarrow>
    (\<exists>i t. map_of (ms_tasks s) i = Some t \<and> t_UniqueKey t = k \<and> active t)"
  unfolding key_active_def by (fastforce simp: sim_lookup)

lemma activeKeyHolder_None:
  "sim s c \<Longrightarrow> activeKeyHolder k (ms_tasks s) = None \<longleftrightarrow> \<not> key_active c k"
  by (auto simp: activeKeyHolder_def find_None_iff key_active_sim ms_wf_entry [OF sim_wf])

lemma activeKeyHolder_Some:
  "activeKeyHolder k (ms_tasks s) = Some t \<Longrightarrow>
    \<exists>i. (i, t) \<in> set (ms_tasks s) \<and> t_UniqueKey t = k \<and> active t"
  by (auto simp: activeKeyHolder_def dest: find_SomeD)

lemma sim_insert:
  assumes "sim s c" "t_Status t = StatusPending"
    and "t_UniqueKey t = [] \<or> activeKeyHolder (t_UniqueKey t) (ms_tasks s) = None"
    and i: "i = task_id (Suc (ms_seq s))"
  shows "cstep c (Enqueued i (abs_task t)) (enter c i (abs_task t)) \<and>
    sim (s\<lparr>ms_seq := Suc (ms_seq s), ms_tasks := upd i (t\<lparr>t_ID := i\<rparr>) (ms_tasks s)\<rparr>)
      (enter c i (abs_task t))"
proof
  have fresh: "map_of (ms_tasks s) i = None" using ms_wf_fresh [OF sim_wf [OF assms(1)]] i by simp
  have fresh_limit: "c_limit c i = None" using assms(1) i by (auto simp: sim_def dom_def)
  show "cstep c (Enqueued i (abs_task t)) (enter c i (abs_task t))"
    using assms fresh fresh_limit by (intro cstep.enqueued [of _ _ _ "t_RunAt t"])
      (auto simp: sim_lookup activeKeyHolder_None)
  have "abs_task (t\<lparr>t_ID := i\<rparr>) = abs_task t"
    using assms(2) by (simp add: abs_task_def)
  moreover have "ms_wf (s\<lparr>ms_seq := Suc (ms_seq s), ms_tasks := upd i (t\<lparr>t_ID := i\<rparr>) (ms_tasks s)\<rparr>)"
    using sim_wf [OF assms(1)] fresh i unfolding ms_wf_def by (auto simp: keys_upd)
  ultimately show "sim (s\<lparr>ms_seq := Suc (ms_seq s), ms_tasks := upd i (t\<lparr>t_ID := i\<rparr>) (ms_tasks s)\<rparr>)
      (enter c i (abs_task t))"
    using assms(1) by (auto simp: sim_def fun_eq_iff i)
qed

lemma enqueue_loop_sim:
  assumes "sim s c" "\<forall>t \<in> set ts. t_Status t = StatusPending" "enqueue_loop ts ids s = (r, s')"
  shows "\<exists>new us d. length new = length us \<and> prefix us ts \<and>
    cexec c (map2 (\<lambda>i t. Enqueued i (abs_task t)) new us) d \<and> sim s' d \<and>
    (\<forall>all. r = Inr all \<longrightarrow> all = ids @ new \<and> us = ts)"
  using assms
proof (induction ts arbitrary: ids s c)
  case Nil
  then show ?case by (auto intro!: exI [of _ "[]"] exI [of _ c])
next
  case (Cons t ts)
  let ?h = "if t_UniqueKey t \<noteq> [] then activeKeyHolder (t_UniqueKey t) (ms_tasks s) else None"
  show ?case
  proof (cases ?h)
    case (Some h)
    with Cons.prems show ?thesis by (auto intro!: exI [of _ "[]"] exI [of _ c])
  next
    case None
    let ?i = "task_id (Suc (ms_seq s))"
    let ?s = "s\<lparr>ms_seq := Suc (ms_seq s), ms_tasks := upd ?i (t\<lparr>t_ID := ?i\<rparr>) (ms_tasks s)\<rparr>"
    from None have "t_UniqueKey t = [] \<or> activeKeyHolder (t_UniqueKey t) (ms_tasks s) = None"
      by (auto split: if_splits)
    with sim_insert [OF Cons.prems(1)] Cons.prems(2)
    have st: "cstep c (Enqueued ?i (abs_task t)) (enter c ?i (abs_task t))"
      and si: "sim ?s (enter c ?i (abs_task t))" by auto
    from Cons.prems(3) None have "enqueue_loop ts (ids @ [?i]) ?s = (r, s')"
      by (simp add: Let_def)
    from Cons.IH [OF si _ this] Cons.prems(2) obtain new us d where
      IH: "length new = length us" "prefix us ts"
        "cexec (enter c ?i (abs_task t)) (map2 (\<lambda>i t. Enqueued i (abs_task t)) new us) d" "sim s' d"
        "\<forall>all. r = Inr all \<longrightarrow> all = (ids @ [?i]) @ new \<and> us = ts"
      by auto
    from IH st show ?thesis
      by (intro exI [of _ "?i # new"] exI [of _ "t # us"] exI [of _ d])
        (auto intro: cexec_cons)
  qed
qed

lemma stored_exact: "stored_as i t (Enqueued i (abs_task t))"
  by (auto simp: stored_as_def intro!: exI [of _ "t_RunAt t"])

lemma mem_enqueue:
  assumes "sim s c" "\<forall>t \<in> set ts. t_Status t = StatusPending" "ms_Enqueue ts s = ((ids, e), s')"
  shows "may_advance sim c (enqueue_events ts) s' \<and>
    (e = None \<longrightarrow> (\<exists>es. list_all2 (\<lambda>(i, t) e. stored_as i t e) (zip ids ts) es \<and>
      length ids = length ts \<and> advances sim c es s'))"
proof -
  let ?ev = "\<lambda>i t. Enqueued i (abs_task t)"
  obtain r s1 where el: "enqueue_loop ts [] s = (r, s1)" by fastforce
  with assms(3) have s1: "s1 = s'" and r: "e = None \<longrightarrow> r = Inr ids"
    by (auto simp: ms_Enqueue_def split: sum.splits)
  from enqueue_loop_sim [OF assms(1,2) el] obtain new us d where
    x: "length new = length us" "prefix us ts" "cexec c (map2 ?ev new us) d" "sim s' d"
      "\<forall>all. r = Inr all \<longrightarrow> all = new \<and> us = ts"
    using s1 by auto
  have ev: "list_all2 (\<lambda>(i, t) e. stored_as i t e) (zip new us) (map2 ?ev new us)"
    by (auto simp: list_all2_conv_all_nth stored_exact)
  from x(3,4) have adv: "advances sim c (map2 ?ev new us) s'" unfolding advances_def by blast
  have "set (map2 ?ev new us) \<subseteq> enqueue_events ts"
    using stored_events [OF ev] set_mono_prefix [OF x(2)] by blast
  with adv have "may_advance sim c (enqueue_events ts) s'" by (rule advances_may)
  moreover have "list_all2 (\<lambda>(i, t) e. stored_as i t e) (zip ids ts) (map2 ?ev ids ts) \<and>
      length ids = length ts \<and> advances sim c (map2 ?ev ids ts) s'" if "e = None"
    using x(1,5) ev adv r that by auto
  ultimately show ?thesis by blast
qed

section \<open>Claims\<close>

lemma claim_sim:
  assumes "sim s c" "claimOneLocked opts now s = (Some t, s')"
  shows "\<exists>d. cstep c (claim_event now t) d \<and> sim s' d \<and> c_tasks d (t_ID t) = Some (abs_task t) \<and>
    d = (put c (t_ID t) (abs_task t))\<lparr>c_issued := insert (t_ID t, t_LeaseToken t) (c_issued c)\<rparr>"
proof -
  let ?q = "Suc (ms_seq s)"
  obtain b where b: "least_eligible opts now s b" "t = claim_task opts now (lease_token ?q) b"
      "s' = s\<lparr>ms_seq := ?q, ms_tasks := upd (t_ID b) t (ms_tasks s)\<rparr>"
    using claimOneLocked_SomeD [OF sim_wf [OF assms(1)] assms(2)] by metis
  let ?d = "(put c (t_ID t) (abs_task t))\<lparr>c_issued := insert (t_ID t, t_LeaseToken t) (c_issued c)\<rparr>"
  have l: "map_of (ms_tasks s) (t_ID b) = Some b" "runnable now b"
    using b(1) by (simp_all add: least_eligible_def eligible_def)
  have abs: "abs_task t = (abs_task b)\<lparr>a_attempts := t_Attempts b + 1,
      a_state := ARunning (lease_token ?q) (add_time now (co_Lease opts))\<rparr>"
    by (simp add: b(2) claim_task_def abs_task_def)
  have sel: "t_ID t = t_ID b" "t_LeaseToken t = lease_token ?q"
      "t_LeasedUntil t = add_time now (co_Lease opts)"
    by (simp_all add: b(2) claim_task_def)
  have "cstep c (claim_event now t) ?d"
    using cstep.claimed [of c "t_ID b" "abs_task b" now "lease_token ?q" "add_time now (co_Lease opts)"]
      sim_lookup [OF assms(1)] l sim_fresh_token [OF assms(1)]
    by (simp add: claim_event_def sel abs claimable_abs del: claimable.simps)
  moreover have "sim (s\<lparr>ms_tasks := upd (t_ID b) t (ms_tasks s)\<rparr>) (put c (t_ID b) (abs_task t))"
    by (rule sim_update [OF assms(1) l(1) sel(1)])
  then have "sim s' ?d"
    unfolding b(3) sim_def by (auto simp: sel intro: ms_wf_grow)
  ultimately show ?thesis by auto
qed

lemma claim_accepts:
  assumes "ms_wf s" "claimOneLocked opts now s = (Some t, s')"
  shows "accepts opts t \<and> t_ID t \<in> dom (map_of (ms_tasks s)) \<and>
    (\<forall>u. map_of (ms_tasks s) (t_ID t) = Some u \<longrightarrow> runnable now u)"
proof -
  obtain b where b: "least_eligible opts now s b"
      "t = claim_task opts now (lease_token (Suc (ms_seq s))) b"
    using claimOneLocked_SomeD [OF assms] by metis
  then show ?thesis
    by (auto simp: least_eligible_def eligible_def accepts_def claim_task_def)
qed

lemma mem_claim:
  assumes "sim s c" "claimOneLocked opts now s = (Some t, s')"
  shows "\<exists>d. cstep c (claim_event now t) d \<and> sim s' d \<and> c_tasks d (t_ID t) = Some (abs_task t) \<and>
    accepts opts t"
proof -
  obtain d where "cstep c (claim_event now t) d" "sim s' d" "c_tasks d (t_ID t) = Some (abs_task t)"
    using claim_sim [OF assms] by blast
  with claim_accepts [OF sim_wf [OF assms(1)] assms(2)] show ?thesis by blast
qed

text \<open>A task claimed with a lease that is not negative cannot be claimed again at the same time.\<close>

lemma claimed_not_runnable:
  "0 \<le> sint (co_Lease opts) \<Longrightarrow> \<not> runnable now (claim_task opts now tok t)"
  using add_time_mono [of "co_Lease opts" now] by (simp add: runnable_def claim_task_def)

lemma claim_not_runnable:
  assumes "ms_wf s" "claimOneLocked opts now s = (Some t, s')" "0 \<le> sint (co_Lease opts)"
  shows "\<not> runnable now t"
  using claimOneLocked_SomeD [OF assms(1,2)] claimed_not_runnable [OF assms(3)] by metis

definition batch_inv :: "claim_options \<Rightarrow> gtime \<Rightarrow> cstore \<Rightarrow> task list \<Rightarrow> bool" where
  "batch_inv opts now c out \<longleftrightarrow> distinct (map t_ID out) \<and>
     (\<forall>t \<in> set out. c_tasks c (t_ID t) = Some (abs_task t) \<and> \<not> runnable now t \<and> accepts opts t)"

lemma batch_inv_step:
  assumes "sim s c" "claimOneLocked opts now s = (Some t, s')" "0 \<le> sint (co_Lease opts)"
    and d: "d = (put c (t_ID t) (abs_task t))\<lparr>c_issued := iss\<rparr>" and inv: "batch_inv opts now c out"
  shows "batch_inv opts now d (out @ [t])"
proof -
  note wf = sim_wf [OF assms(1)]
  have fresh: "t_ID u \<noteq> t_ID t" if "u \<in> set out" for u
  proof
    assume "t_ID u = t_ID t"
    then have eq: "t_ID t = t_ID u" by simp
    from inv that have u: "c_tasks c (t_ID u) = Some (abs_task u)" "\<not> runnable now u"
      by (auto simp: batch_inv_def)
    from claim_accepts [OF wf assms(2)] obtain v where
      v: "map_of (ms_tasks s) (t_ID u) = Some v" "runnable now v" by (auto simp: eq)
    then have "abs_task v = abs_task u"
      using u(1) sim_lookup [OF assms(1), of "t_ID u"] by simp
    with u(2) v(2) show False by (metis claimable_abs)
  qed
  with inv claim_accepts [OF wf assms(2)] claim_not_runnable [OF wf assms(2,3)] show ?thesis
    by (auto simp: batch_inv_def d dest: fresh)
qed

lemma claim_batch_sim:
  assumes "sim s c" "0 \<le> sint (co_Lease opts)" "batch_inv opts now c out"
    and "claim_batch_loop now opts k out s = (out', s')"
  shows "\<exists>new d. out' = out @ new \<and> cexec c (map (claim_event now) new) d \<and> sim s' d \<and>
    batch_inv opts now d out' \<and> int (length out') \<le> max (int (length out)) k"
  using assms
proof (induction now opts k out s arbitrary: c rule: claim_batch_loop.induct)
  case (1 now opts k out s)
  show ?case
  proof (cases "int (length out) < k")
    case False
    with "1.prems" show ?thesis
      by (auto simp: claim_batch_loop.simps [of now opts k out s] intro!: exI [of _ c])
  next
    case True
    obtain r s1 where cl: "claimOneLocked opts now s = (r, s1)" by fastforce
    show ?thesis
    proof (cases r)
      case None
      with cl claimOneLocked_None [OF sim_wf [OF "1.prems"(1)]] have "s1 = s" by blast
      with "1.prems" True cl None show ?thesis
        by (auto simp: claim_batch_loop.simps [of now opts k out s] intro!: exI [of _ c])
    next
      case (Some t)
      from claim_sim [OF "1.prems"(1)] cl Some obtain d where
        d: "cstep c (claim_event now t) d" "sim s1 d"
          "d = (put c (t_ID t) (abs_task t))\<lparr>c_issued := insert (t_ID t, t_LeaseToken t) (c_issued c)\<rparr>"
        by blast
      have inv: "batch_inv opts now d (out @ [t])"
        using batch_inv_step [OF "1.prems"(1) _ "1.prems"(2) d(3) "1.prems"(3)] cl Some by blast
      have "claim_batch_loop now opts k (out @ [t]) s1 = (out', s')"
        using "1.prems"(4) True cl Some by (simp add: claim_batch_loop.simps [of now opts k out s])
      from "1.IH" [OF True cl [symmetric] Some d(2) "1.prems"(2) inv this] obtain new d' where
        IH: "out' = (out @ [t]) @ new" "cexec d (map (claim_event now) new) d'" "sim s' d'"
          "batch_inv opts now d' out'" "int (length out') \<le> max (int (length (out @ [t]))) k"
        by blast
      then have "cexec c (map (claim_event now) (t # new)) d'"
        using d(1) by (auto intro: cexec_cons)
      with IH True show ?thesis by (intro exI [of _ "t # new"] exI [of _ d']) auto
    qed
  qed
qed

section \<open>Outcome writes and leases\<close>

lemma abs_complete: "abs_task (complete_task now r t) = (abs_task t)\<lparr>a_state := ADone, a_key := []\<rparr>"
  by (simp add: complete_task_def abs_task_def)

lemma abs_fail_terminal:
  "abs_task (fail_task now f ra True t) = (abs_task t)\<lparr>a_state := ADead, a_key := []\<rparr>"
  by (simp add: fail_task_def abs_task_def)

lemma abs_fail_retry:
  "abs_task (fail_task now f ra False t) = (abs_task t)\<lparr>a_state := APending ra\<rparr>"
  by (simp add: fail_task_def abs_task_def)

lemma abs_extend:
  "t_Status t = StatusRunning \<Longrightarrow>
    abs_task (t\<lparr>t_LeasedUntil := u\<rparr>) = (abs_task t)\<lparr>a_state := ARunning (t_LeaseToken t) u\<rparr>"
  by (simp add: abs_task_def)

lemma abs_requeue:
  "abs_task (requeue_task now t) = (abs_task t)\<lparr>a_state := APending now, a_attempts := 0\<rparr>"
  by (simp add: requeue_task_def abs_task_def)

lemma abs_reap: "abs_task (reap_task now t) = (abs_task t)\<lparr>a_state := ADead, a_key := []\<rparr>"
  by (simp add: reap_task_def abs_task_def)

lemma update_ID [simp]:
  "t_ID (complete_task now r t) = t_ID t" "t_ID (fail_task now f ra b t) = t_ID t"
  "t_ID (requeue_task now t) = t_ID t" "t_ID (reap_task now t) = t_ID t"
  by (simp_all add: complete_task_def fail_task_def requeue_task_def reap_task_def Let_def)

lemma advances_update:
  assumes "sim s c" "map_of (ms_tasks s) i = Some t" "t_ID t' = i"
    and "cstep c e (put c i (abs_task t'))"
  shows "advances sim c [e] (s\<lparr>ms_tasks := upd i t' (ms_tasks s)\<rparr>)"
  unfolding advances_def by (intro exI conjI, rule cexec_one [OF assms(4)], rule sim_update [OF assms(1-3)])

lemma advances_held:
  assumes "sim s c" "held i tok s = Some h" "t_ID t' = t_ID h"
    and "cstep c e (put c i (abs_task t'))"
  shows "advances sim c [e] (s\<lparr>ms_tasks := upd i t' (ms_tasks s)\<rparr>)"
proof (rule advances_update [OF assms(1) _ _ assms(4)])
  show "map_of (ms_tasks s) i = Some h" using assms(2) by (simp add: held_Some)
  show "t_ID t' = i" using assms(3) held_ID [OF assms(1,2)] by simp
qed

lemma mem_complete:
  assumes "sim s c" "ms_Complete now t r s = (e, s')"
  shows "(e = None \<and> advances sim c [Completed (t_ID t) (t_LeaseToken t)] s') \<or>
    (e = Some ErrLeaseLost \<and> s' = s \<and> \<not> live c (t_ID t) (t_LeaseToken t))"
proof (cases "held (t_ID t) (t_LeaseToken t) s")
  case None
  with assms show ?thesis by (simp add: ms_Complete_def sim_live)
next
  case (Some h)
  have "cstep c (Completed (t_ID t) (t_LeaseToken t))
      (put c (t_ID t) (abs_task (complete_task now r h)))"
    unfolding abs_complete
    by (rule cstep.completed [OF held_sim [OF assms(1) Some] held_running [OF Some]])
  from advances_held [OF assms(1) Some _ this] Some assms(2) show ?thesis
    by (auto simp: ms_Complete_def)
qed

lemma mem_fail:
  assumes "sim s c" "ms_Fail now t f ra b s = (e, s')"
  shows "(e = None \<and> advances sim c
      [if b then Died (t_ID t) (t_LeaseToken t) else Retried (t_ID t) (t_LeaseToken t)] s') \<or>
    (e = Some ErrLeaseLost \<and> s' = s \<and> \<not> live c (t_ID t) (t_LeaseToken t))"
proof (cases "held (t_ID t) (t_LeaseToken t) s")
  case None
  with assms show ?thesis by (simp add: ms_Fail_def sim_live)
next
  case (Some h)
  note run = held_sim [OF assms(1) Some] held_running [OF Some]
  have "cstep c (if b then Died (t_ID t) (t_LeaseToken t) else Retried (t_ID t) (t_LeaseToken t))
      (put c (t_ID t) (abs_task (fail_task now f ra b h)))"
    using cstep.died [OF run] cstep.retried [OF run]
    by (cases b) (simp_all add: abs_fail_terminal abs_fail_retry)
  from advances_held [OF assms(1) Some _ this] Some assms(2) show ?thesis
    by (auto simp: ms_Fail_def)
qed

lemma mem_extend:
  assumes "sim s c" "ms_ExtendLease now t lease s = (e, s')"
  shows "(\<exists>u. e = Inr u \<and> u = add_time now lease \<and>
      advances sim c [Extended (t_ID t) (t_LeaseToken t)] s') \<or> (e = Inl ErrLeaseLost \<and> s' = s)"
proof (cases "ms_forceLeaseLost s \<or> held (t_ID t) (t_LeaseToken t) s = None")
  case True
  with assms(2) show ?thesis by (auto simp: ms_ExtendLease_def split: if_splits)
next
  case False
  then obtain h where h: "held (t_ID t) (t_LeaseToken t) s = Some h" by auto
  have "cstep c (Extended (t_ID t) (t_LeaseToken t))
      (put c (t_ID t) (abs_task (h\<lparr>t_LeasedUntil := add_time now lease\<rparr>)))"
    using cstep.extended [OF held_sim [OF assms(1) h] held_running [OF h]] h
    by (simp add: abs_extend held_Some)
  then have "advances sim c [Extended (t_ID t) (t_LeaseToken t)]
      (s\<lparr>ms_tasks := upd (t_ID t) (h\<lparr>t_LeasedUntil := add_time now lease\<rparr>) (ms_tasks s)\<rparr>)"
    by (intro advances_held [OF assms(1) h]) auto
  with h False assms(2) show ?thesis by (auto simp: ms_ExtendLease_def Let_def)
qed

lemma advances_trans:
  "advances R c es s1 \<Longrightarrow> (\<And>d. R s1 d \<Longrightarrow> advances R d fs s2) \<Longrightarrow> advances R c (es @ fs) s2"
  unfolding advances_def by (blast intro: cexec_append)

text \<open>One entry of a batch behaves like its single write; the batch is their sequence.\<close>

lemma finalize_step:
  assumes "sim s c"
    and "(case o_Failure r of
        Some f \<Rightarrow> ms_Fail now (o_Task r) f (o_RetryAt r) (o_Terminal r) s
      | None \<Rightarrow> ms_Complete now (o_Task r) (o_Result r) s) = (e, s')"
  shows "(e = None \<and> advances sim c [outcome_event r] s') \<or> (e = Some ErrLeaseLost \<and> s' = s)"
proof (cases "o_Failure r")
  case None
  with mem_complete [OF assms(1)] assms(2) show ?thesis
    unfolding outcome_event_def Let_def by fastforce
next
  case (Some f)
  with mem_fail [OF assms(1)] assms(2) show ?thesis
    unfolding outcome_event_def Let_def by fastforce
qed

lemma finalize_loop_sim:
  assumes "sim s c" "finalize_loop clock os n lost s = ((lost', e), s')"
  shows "\<exists>rs. set rs \<subseteq> set os \<and> lost' = lost + int (length os) - int (length rs) \<and> e = None \<and>
    advances sim c (map outcome_event rs) s'"
  using assms
proof (induction os arbitrary: n lost s c)
  case Nil
  then show ?case by (auto intro: advances_nil)
next
  case (Cons r os)
  obtain e1 s1 where st: "(case o_Failure r of
        Some f \<Rightarrow> ms_Fail (clock n) (o_Task r) f (o_RetryAt r) (o_Terminal r) s
      | None \<Rightarrow> ms_Complete (clock n) (o_Task r) (o_Result r) s) = (e1, s1)"
    by fastforce
  from finalize_step [OF Cons.prems(1) st] show ?case
  proof (elim disjE conjE)
    assume e1: "e1 = None" and adv: "advances sim c [outcome_event r] s1"
    then obtain d where d: "cexec c [outcome_event r] d" "sim s1 d" by (auto simp: advances_def)
    from Cons.prems(2) st e1 have "finalize_loop clock os (Suc n) lost s1 = ((lost', e), s')"
      by simp
    from Cons.IH [OF d(2) this] obtain rs where rs: "set rs \<subseteq> set os"
        "lost' = lost + int (length os) - int (length rs)" "e = None"
        "advances sim d (map outcome_event rs) s'" by blast
    then have "advances sim c (map outcome_event (r # rs)) s'"
      using d(1) cexec_append [OF d(1)] unfolding advances_def by fastforce
    with rs show ?thesis by (intro exI [of _ "r # rs"]) auto
  next
    assume e1: "e1 = Some ErrLeaseLost" and s1: "s1 = s"
    from Cons.prems(2) st e1 s1
    have "finalize_loop clock os (Suc n) (lost + 1) s = ((lost', e), s')" by simp
    from Cons.IH [OF Cons.prems(1) this] obtain rs where "set rs \<subseteq> set os"
        "lost' = lost + 1 + int (length os) - int (length rs)" "e = None"
        "advances sim c (map outcome_event rs) s'" by blast
    then show ?thesis by (intro exI [of _ rs]) auto
  qed
qed

lemma mem_finalize:
  assumes "sim s c" "ms_FinalizeBatch clock os s = ((lost, e), s')"
  shows "e = None \<and> (\<exists>rs. set rs \<subseteq> set os \<and> lost = int (length os) - int (length rs) \<and>
    advances sim c (map outcome_event rs) s')"
  using finalize_loop_sim [OF assms(1), of clock os 0 0 lost e s'] assms(2)
  by (auto simp: ms_FinalizeBatch_def)

section \<open>Sweeps and dead letters\<close>

text \<open>A sweep is one abstract event per entry it touches, in iteration order.\<close>

lemma sweep_exec:
  assumes "distinct (keys m)" "\<forall>(i, t) \<in> set m. c_tasks c i = Some (abs_task t)"
    and "\<And>c i t. c_tasks c i = Some (abs_task t) \<Longrightarrow> p t \<Longrightarrow> cstep c (ev i) (put c i (abs_task (f t)))"
  shows "cexec c (map ev (keys (filter (p \<circ> snd) m)))
    (c\<lparr>c_tasks := (\<lambda>i. case map_of m i of None \<Rightarrow> c_tasks c i
       | Some t \<Rightarrow> Some (abs_task (if p t then f t else t)))\<rparr>)"
  using assms(1,2)
proof (induction m arbitrary: c)
  case Nil
  then show ?case by (simp add: cexec_nil)
next
  case (Cons e m)
  obtain i t where e: "e = (i, t)" by fastforce
  let ?upd = "\<lambda>c m. c\<lparr>c_tasks := (\<lambda>i. case map_of m i of None \<Rightarrow> c_tasks c i
       | Some t \<Rightarrow> Some (abs_task (if p t then f t else t)))\<rparr>"
  have dm: "distinct (keys m)" using Cons.prems(1) by simp
  have i: "map_of m i = None" using Cons.prems(1) by (simp add: e map_of_eq_None_iff)
  show ?case
  proof (cases "p t")
    case True
    let ?d = "put c i (abs_task (f t))"
    have st: "cstep c (ev i) ?d" using assms(3) True Cons.prems(2) by (auto simp: e)
    have "\<forall>(j, u) \<in> set m. c_tasks ?d j = Some (abs_task u)"
      using Cons.prems by (force simp: e)
    from Cons.IH [OF dm this]
    have "cexec ?d (map ev (keys (filter (p \<circ> snd) m))) (?upd ?d m)" .
    moreover have "?upd ?d m = ?upd c (e # m)"
      using True i by (auto simp: e fun_eq_iff split: option.split)
    ultimately show ?thesis using cexec_cons [OF st] True by (simp add: e comp_def)
  next
    case False
    have "\<forall>(j, u) \<in> set m. c_tasks c j = Some (abs_task u)" using Cons.prems by (auto simp: e)
    from Cons.IH [OF dm this]
    have "cexec c (map ev (keys (filter (p \<circ> snd) m))) (?upd c m)" .
    moreover have "?upd c m = ?upd c (e # m)"
      using False i Cons.prems(2) by (auto simp: e fun_eq_iff split: option.split)
    ultimately show ?thesis using False by (simp add: e comp_def)
  qed
qed

lemma sweep_sim:
  assumes "sim s c" "\<And>t. t_ID (f t) = t_ID t"
    and "\<And>c i t. c_tasks c i = Some (abs_task t) \<Longrightarrow> p t \<Longrightarrow> cstep c (ev i) (put c i (abs_task (f t)))"
  shows "advances sim c (map ev (keys (filter (p \<circ> snd) (ms_tasks s))))
    (s\<lparr>ms_tasks := fst (sweep p f (ms_tasks s))\<rparr>)"
proof -
  let ?d = "c\<lparr>c_tasks := (\<lambda>i. case map_of (ms_tasks s) i of None \<Rightarrow> c_tasks c i
       | Some t \<Rightarrow> Some (abs_task (if p t then f t else t)))\<rparr>"
  note wf = sim_wf [OF assms(1)]
  have "\<forall>(i, t) \<in> set (ms_tasks s). c_tasks c i = Some (abs_task t)"
    using ms_wf_entry [OF wf] sim_lookup [OF assms(1)] by auto
  with wf have "cexec c (map ev (keys (filter (p \<circ> snd) (ms_tasks s)))) ?d"
    by (intro sweep_exec assms(3)) (auto simp: ms_wf_def)
  moreover have "sim (s\<lparr>ms_tasks := fst (sweep p f (ms_tasks s))\<rparr>) ?d"
    using assms(1) ms_wf_sweep [OF wf assms(2)]
    by (auto simp: sim_def lookup_sweep fun_eq_iff split: option.split)
  ultimately show ?thesis by (auto simp: advances_def)
qed

lemma mem_requeue_dead:
  assumes "sim s c" "ms_RequeueDead now ty s = (n, s')"
  shows "\<exists>is. n = int (length is) \<and> advances sim c (map Requeued is) s'"
proof -
  let ?p = "\<lambda>t. t_Status t = StatusDead \<and> (ty = [] \<or> t_Type t = ty)"
  have "advances sim c (map Requeued (keys (filter (?p \<circ> snd) (ms_tasks s))))
      (s\<lparr>ms_tasks := fst (sweep ?p (requeue_task now) (ms_tasks s))\<rparr>)"
    using assms(1) by (rule sweep_sim) (auto simp: abs_requeue intro!: cstep.requeued)
  with assms(2) show ?thesis
    by (intro exI [of _ "keys (filter (?p \<circ> snd) (ms_tasks s))"])
      (auto simp: ms_RequeueDead_def sweep_def)
qed

lemma mem_reap:
  assumes "sim s c" "ms_ReapExpired now s = (n, s')"
  shows "\<exists>is. n = int (length is) \<and> advances sim c (map (\<lambda>i. Reaped i now) is) s'"
proof -
  have "advances sim c (map (\<lambda>i. Reaped i now) (keys (filter (expired_exhausted now \<circ> snd) (ms_tasks s))))
      (s\<lparr>ms_tasks := fst (sweep (expired_exhausted now) (reap_task now) (ms_tasks s))\<rparr>)"
    using assms(1)
    by (rule sweep_sim) (auto simp: abs_reap expired_exhausted_def intro!: cstep.reaped)
  with assms(2) show ?thesis
    by (intro exI [of _ "keys (filter (expired_exhausted now \<circ> snd) (ms_tasks s))"])
      (auto simp: ms_ReapExpired_def sweep_def)
qed

lemma may_sweep:
  "\<exists>is. n = int (length is) \<and> advances R c (map ev is) s' \<Longrightarrow> may_advance R c (range ev) s'"
  unfolding may_advance_def by (metis image_mono list.set_map subset_UNIV)

lemma mem_requeue:
  assumes "sim s c" "ms_Requeue now i s = (e, s')"
  shows "(e = None \<and> advances sim c [Requeued i] s') \<or>
    (e = Some (ErrNotFound i) \<and> s' = s \<and>
      (\<forall>t. map_of (ms_tasks s) i = Some t \<longrightarrow> t_Status t \<noteq> StatusDead))"
proof (cases "\<exists>t. map_of (ms_tasks s) i = Some t \<and> t_Status t = StatusDead")
  case False
  with assms(2) show ?thesis by (auto simp: ms_Requeue_def split: option.splits)
next
  case True
  then obtain t where t: "map_of (ms_tasks s) i = Some t" "t_Status t = StatusDead" by blast
  have "cstep c (Requeued i) (put c i (abs_task (requeue_task now t)))"
    unfolding abs_requeue using t sim_lookup [OF assms(1)] by (intro cstep.requeued) auto
  then have "advances sim c [Requeued i]
      (s\<lparr>ms_tasks := upd i (requeue_task now t) (ms_tasks s)\<rparr>)"
    using t ms_wf_ID [OF sim_wf [OF assms(1)] t(1)] by (intro advances_update [OF assms(1)]) auto
  with assms(2) t show ?thesis by (auto simp: ms_Requeue_def)
qed

section \<open>The interpretation\<close>

definition memstore_ops :: "(gtime \<Rightarrow> string) \<Rightarrow> memstore store" where
  "memstore_ops tstr = \<lparr>
     st_Enqueue = ms_Enqueue, st_Claim = ms_Claim, st_ClaimBatch = ms_ClaimBatch,
     st_Complete = ms_Complete, st_Fail = ms_Fail, st_ExtendLease = ms_ExtendLease,
     st_FinalizeBatch = ms_FinalizeBatch, st_Requeue = ms_Requeue,
     st_RequeueDead = (\<lambda>now ty s. case ms_RequeueDead now ty s of (n, s') \<Rightarrow> (Inr n, s')),
     st_RegisterQueues = ms_RegisterQueues,
     st_ReapExpired = (\<lambda>now s. case ms_ReapExpired now s of (n, s') \<Rightarrow> (Inr n, s')),
     st_EnsureMetrics = (\<lambda>ret s. (None, s)),
     st_SnapshotMetrics = (\<lambda>qs w iv s. (None, ms_SnapshotMetrics tstr qs w s)),
     st_RecordCounters = (\<lambda>mid w iv cs s. (None, ms_RecordCounters mid w cs s))\<rparr>"

lemma ms_Claim_Inr: "ms_Claim now opts s = (Inr t, s') \<longleftrightarrow> claimOneLocked opts now s = (Some t, s')"
  by (auto simp: ms_Claim_def split: prod.splits option.splits)

lemma ms_Claim_Inl:
  "ms_Claim now opts s = (Inl e, s') \<longleftrightarrow> e = ErrNoTask \<and> claimOneLocked opts now s = (None, s')"
  by (auto simp: ms_Claim_def split: prod.splits option.splits)

lemma mem_claim_none: "sim s c \<Longrightarrow> ms_Claim now opts s = (Inl e, s') \<Longrightarrow> e = ErrNoTask \<and> s' = s"
  unfolding ms_Claim_Inl by (simp add: claimOneLocked_None [OF sim_wf])

lemma mem_batch_ok:
  assumes "sim s c" "0 \<le> sint (co_Lease opts)" "ms_ClaimBatch now opts k s = (Inr ts, s')"
  shows "int (length ts) \<le> max 0 k \<and> distinct (map t_ID ts) \<and>
      (\<exists>d. cexec c (map (claim_event now) ts) d \<and> sim s' d \<and>
        (\<forall>t \<in> set ts. c_tasks d (t_ID t) = Some (abs_task t) \<and> accepts opts t))"
proof -
  have "claim_batch_loop now opts k [] s = (ts, s')"
    using assms(3) by (auto simp: ms_ClaimBatch_def split: prod.splits if_splits)
  moreover have "batch_inv opts now c []" by (simp add: batch_inv_def)
  ultimately show ?thesis
    using claim_batch_sim [OF assms(1,2)] by (fastforce simp: batch_inv_def)
qed

lemma claim_batch_loop_prefix:
  "prefix out (fst (claim_batch_loop now opts k out s))"
proof (induction now opts k out s rule: claim_batch_loop.induct)
  case (1 now opts k out s)
  show ?case
  proof (cases "int (length out) < k")
    case False
    then show ?thesis by (simp add: claim_batch_loop.simps [of now opts k out s])
  next
    case True
    obtain r s1 where cl: "claimOneLocked opts now s = (r, s1)" by fastforce
    show ?thesis
    proof (cases r)
      case None
      with True cl show ?thesis by (simp add: claim_batch_loop.simps [of now opts k out s])
    next
      case (Some t)
      from "1" [OF True cl [symmetric] Some] True cl Some show ?thesis
        by (simp add: claim_batch_loop.simps [of now opts k out s] append_prefixD)
    qed
  qed
qed

lemma mem_batch_err:
  assumes "sim s c" "ms_ClaimBatch now opts k s = (Inl e, s')"
  shows "e = ErrNoTask \<and> s' = s"
proof -
  have loop: "claim_batch_loop now opts k [] s = ([], s')" and e: "e = ErrNoTask"
    using assms(2) by (auto simp: ms_ClaimBatch_def split: prod.splits if_splits)
  show ?thesis
  proof (cases "0 < k")
    case False
    with loop e show ?thesis by (simp add: claim_batch_loop.simps [of now opts k])
  next
    case True
    obtain r s1 where cl: "claimOneLocked opts now s = (r, s1)" by fastforce
    have "r = None"
    proof (rule ccontr)
      assume "r \<noteq> None"
      then obtain t where "r = Some t" by auto
      with loop True cl have "claim_batch_loop now opts k [t] s1 = ([], s')"
        by (simp add: claim_batch_loop.simps [of now opts k "[]" s])
      then show False using claim_batch_loop_prefix [of "[t]" now opts k s1] by simp
    qed
    with loop True cl have "s1 = s'" by (simp add: claim_batch_loop.simps [of now opts k "[]" s])
    with cl \<open>r = None\<close> e show ?thesis by (simp add: claimOneLocked_None [OF sim_wf [OF assms(1)]])
  qed
qed

interpretation mem: store_contract "memstore_ops tstr" sim for tstr
proof (unfold_locales, goal_cases)
  case 1 then show ?case using mem_enqueue by (simp add: memstore_ops_def)
next
  case 2 then show ?case using mem_enqueue by (simp add: memstore_ops_def)
next
  case 3 then show ?case by (intro mem_claim) (simp_all add: memstore_ops_def ms_Claim_Inr)
next
  case 4 then show ?case using mem_claim_none by (fastforce simp: memstore_ops_def)
next
  case 5 then show ?case using mem_claim_none
    by (fastforce simp: memstore_ops_def intro: may_advance_stay)
next
  case 6 then show ?case using mem_batch_ok by (simp add: memstore_ops_def)
next
  case 7 then show ?case using mem_batch_err
    by (fastforce simp: memstore_ops_def intro: may_advance_stay)
next
  case 8 then show ?case using mem_complete by (fastforce simp: memstore_ops_def)
next
  case 9 then show ?case using mem_complete by (fastforce simp: memstore_ops_def)
next
  case 10 then show ?case using mem_complete
    by (fastforce simp: memstore_ops_def intro: may_advance_stay)
next
  case 11 then show ?case using mem_fail by (fastforce simp: memstore_ops_def)
next
  case 12 then show ?case using mem_fail by (fastforce simp: memstore_ops_def)
next
  case 13 then show ?case using mem_fail
    by (fastforce simp: memstore_ops_def intro: may_advance_stay)
next
  case 14 then show ?case using mem_extend by (fastforce simp: memstore_ops_def)
next
  case 15 then show ?case using mem_extend
    by (fastforce simp: memstore_ops_def intro: may_advance_stay)
next
  case 16 then show ?case using mem_finalize by (simp add: memstore_ops_def)
next
  case 17 then show ?case using mem_finalize by (fastforce simp: memstore_ops_def)
next
  case 18 then show ?case using mem_requeue by (fastforce simp: memstore_ops_def)
next
  case 19 then show ?case using mem_requeue
    by (fastforce simp: memstore_ops_def intro: may_advance_stay)
next
  case 20 then show ?case
    using mem_requeue_dead [THEN may_sweep] by (auto simp: memstore_ops_def split: prod.splits)
next
  case 21 then show ?case
    using mem_reap [THEN may_sweep] by (auto simp: memstore_ops_def full_SetCompr_eq split: prod.splits)
next
  case 22 then show ?case
    by (auto simp: memstore_ops_def ms_RegisterQueues_def split: prod.splits intro: sim_cong)
next
  case 23 then show ?case by (simp add: memstore_ops_def)
next
  case 24 then show ?case
    by (auto simp: memstore_ops_def ms_SnapshotMetrics_def split: prod.splits intro: sim_cong)
next
  case 25 then show ?case
    by (auto simp: memstore_ops_def ms_RecordCounters_def intro: sim_cong)
qed

end
