(* ===== verification/Memstore_Claims.thy ===== *)
theory Memstore_Claims
  imports Memstore_Refine
begin

text \<open>
  The theorems about \<open>memstore\<close>: what a program of calls on a fresh store can and cannot observe
  (fencing, mutual exclusion, unique keys), from the contract its interpretation gives, and what
  each operation computes, from its definition. The functional theorems about single operations
  stand for any store that satisfies \<open>ms_wf\<close>, which every program keeps.
\<close>

definition mem_run :: "(gtime \<Rightarrow> string) \<Rightarrow> (gtime \<times> call) list \<Rightarrow> memstore" where
  "mem_run tstr ks = run_calls (memstore_ops tstr) ks ms_New"

lemma mem_run_append: "run_calls (memstore_ops tstr) ls (mem_run tstr ks) = mem_run tstr (ks @ ls)"
  by (simp add: mem_run_def run_calls_append)

lemma mem_run_sim:
  "calls_ok ks \<Longrightarrow> \<exists>es c. set es \<subseteq> (\<Union>(now, k) \<in> set ks. call_events now k) \<and> cexec cinit es c \<and>
    sim (mem_run tstr ks) c"
  using mem.run_sim [OF sim_init, of ks tstr] by (auto simp: mem_run_def may_advance_def advances_def)

lemma mem_run_wf: "calls_ok ks \<Longrightarrow> ms_wf (mem_run tstr ks)"
  using mem_run_sim [of ks tstr] sim_wf by blast

lemma memstore_ops_sel [simp]:
  "st_Enqueue (memstore_ops tstr) = ms_Enqueue" "st_Claim (memstore_ops tstr) = ms_Claim"
  "st_ClaimBatch (memstore_ops tstr) = ms_ClaimBatch" "st_Complete (memstore_ops tstr) = ms_Complete"
  "st_Fail (memstore_ops tstr) = ms_Fail" "st_ExtendLease (memstore_ops tstr) = ms_ExtendLease"
  "st_FinalizeBatch (memstore_ops tstr) = ms_FinalizeBatch" "st_Requeue (memstore_ops tstr) = ms_Requeue"
  by (simp_all add: memstore_ops_def)

text \<open>A small store for the witnesses: two tasks, one unique, and a claim of the first.\<close>

definition demo_task :: "string \<Rightarrow> string \<Rightarrow> gtime \<Rightarrow> task" where
  "demo_task ty key runAt = \<lparr>t_ID = [], t_Queue = ''q'', t_Type = ty, t_UniqueKey = key, t_Payload = ''{}'',
     t_Status = StatusPending, t_Attempts = 0, t_MaxAttempts = 2, t_RunAt = runAt, t_ExpiresAt = None,
     t_LeasedBy = [], t_LeasedUntil = 0, t_LeaseToken = [], t_Errors = [], t_Result = [],
     t_CreatedAt = 0, t_UpdatedAt = 0\<rparr>"

definition demo_opts :: claim_options where
  "demo_opts = \<lparr>co_WorkerID = ''w'', co_Types = [], co_Queues = [], co_FIFO = False, co_Lease = 10\<rparr>"

definition demo_calls :: "(gtime \<times> call) list" where
  "demo_calls = [(1, CEnqueue [demo_task ''a'' ''k'' 1, demo_task ''b'' [] 2])]"

definition demo_store :: memstore where
  "demo_store = mem_run (\<lambda>_. []) demo_calls"

definition demo_claimed :: task where
  "demo_claimed = claim_task demo_opts 5 ''lease-3'' ((demo_task ''a'' ''k'' 1)\<lparr>t_ID := ''task-1''\<rparr>)"

definition demo_store1 :: memstore where
  "demo_store1 = snd (ms_Claim 5 demo_opts demo_store)"

lemma demo_ok: "calls_ok demo_calls"
  by code_simp

lemma demo_claim: "ms_Claim 5 demo_opts demo_store = (Inr demo_claimed, demo_store1)"
  unfolding demo_store1_def by (rule prod_eqI) (code_simp, simp)



section \<open>Fencing\<close>

lemma lost_writes:
  assumes "sim s c" "\<not> live c (t_ID t) (t_LeaseToken t)"
  shows "ms_Complete now t r s = (Some ErrLeaseLost, s)"
    "ms_Fail now t f ra b s = (Some ErrLeaseLost, s)"
    "ms_ExtendLease now t l s = (Inl ErrLeaseLost, s)"
proof -
  have "held (t_ID t) (t_LeaseToken t) s = None" using assms by (simp add: sim_live)
  then show "ms_Complete now t r s = (Some ErrLeaseLost, s)"
    "ms_Fail now t f ra b s = (Some ErrLeaseLost, s)"
    "ms_ExtendLease now t l s = (Inl ErrLeaseLost, s)"
    by (simp_all add: ms_Complete_def ms_Fail_def ms_ExtendLease_def)
qed

text \<open>A pair of id and token that was issued and lost, and all that follows.\<close>

definition rejected :: "task \<Rightarrow> memstore \<Rightarrow> bool" where
  "rejected t s \<longleftrightarrow> (\<forall>now r. ms_Complete now t r s = (Some ErrLeaseLost, s)) \<and>
     (\<forall>now f ra b. ms_Fail now t f ra b s = (Some ErrLeaseLost, s)) \<and>
     (\<forall>now l. ms_ExtendLease now t l s = (Inl ErrLeaseLost, s))"

lemma rejected_after:
  assumes "sim s c" "(t_ID t, t_LeaseToken t) \<in> c_issued c" "\<not> live c (t_ID t) (t_LeaseToken t)"
    and "calls_ok ks"
  shows "rejected t (run_calls (memstore_ops tstr) ks s)"
proof -
  obtain d where "sim (run_calls (memstore_ops tstr) ks s) d" "\<not> live d (t_ID t) (t_LeaseToken t)"
    using mem.run_stale [OF assms(1,4,2,3), of tstr] by blast
  then show ?thesis by (simp add: rejected_def lost_writes)
qed

lemma claim_issued:
  assumes "sim s c" "ms_Claim now opts s = (Inr t, s')"
  shows "\<exists>d. sim s' d \<and> (t_ID t, t_LeaseToken t) \<in> c_issued d \<and>
    leased d (t_ID t) (t_LeaseToken t) (t_LeasedUntil t) \<and>
    (\<forall>tok. (t_ID t, tok) \<in> c_issued c \<longrightarrow> \<not> live d (t_ID t) tok)"
  using mem.claim_issues [OF assms(1)] assms(2) by fastforce

lemma run_issued:
  assumes "sim s c" "calls_ok ks" "p \<in> c_issued c"
  shows "\<exists>d. sim (run_calls (memstore_ops tstr) ks s) d \<and> p \<in> c_issued d"
proof -
  obtain es d where d: "cexec c es d" "sim (run_calls (memstore_ops tstr) ks s) d"
    using mem.run_sim [OF assms(1,2), of tstr] by (auto simp: may_advance_def advances_def)
  from d(1) assms(3) have "p \<in> c_issued d"
    by (induction rule: cexec.induct) (use issued_mono in blast)+
  with d(2) show ?thesis by blast
qed

text \<open>
  C7: a claim is finalized at most once. After a claim's task was completed, or failed, whatever
  calls follow, no write under that claim is accepted again: \<open>Complete\<close>, \<open>Fail\<close> and \<open>ExtendLease\<close>
  report \<open>ErrLeaseLost\<close> and leave the store as it is.
\<close>

theorem memstore_finalized_once:
  assumes "calls_ok ks" "ms_Claim now opts (mem_run tstr ks) = (Inr t, s1)"
    and "calls_ok ls" "s2 = run_calls (memstore_ops tstr) ls s1"
    and "ms_Complete n2 t r s2 = (None, s3) \<or> ms_Fail n2 t f ra b s2 = (None, s3)"
    and "calls_ok ms"
  shows "rejected t (run_calls (memstore_ops tstr) ms s3)"
proof -
  obtain c where c: "sim (mem_run tstr ks) c" using mem_run_sim [OF assms(1), of tstr] by blast
  obtain d where d: "sim s1 d" "(t_ID t, t_LeaseToken t) \<in> c_issued d"
    using claim_issued [OF c assms(2)] by blast
  obtain m where m: "sim s2 m" "(t_ID t, t_LeaseToken t) \<in> c_issued m"
    using run_issued [OF d(1) assms(3) d(2), of tstr] assms(4) by blast
  obtain e where "sim s3 e" "(t_ID t, t_LeaseToken t) \<in> c_issued e" "\<not> live e (t_ID t) (t_LeaseToken t)"
    using assms(5) mem.complete_closes [OF m(1), of tstr n2 t r s3]
      mem.fail_closes [OF m(1), of tstr n2 t f ra b s3] m(2) by auto
  then show ?thesis by (rule rejected_after [OF _ _ _ assms(6)])
qed

lemma memstore_finalized_once_witness:
  "rejected demo_claimed (run_calls (memstore_ops (\<lambda>_. [])) [(100, CReapExpired)]
     (snd (ms_Complete 9 demo_claimed [] demo_store1)))"
proof (rule memstore_finalized_once [OF demo_ok demo_claim [unfolded demo_store_def], of "[]"])
  show "ms_Complete 9 demo_claimed [] demo_store1 =
      (None, snd (ms_Complete 9 demo_claimed [] demo_store1)) \<or>
      ms_Fail 9 demo_claimed undefined 0 False demo_store1 =
      (None, snd (ms_Complete 9 demo_claimed [] demo_store1))"
    by (rule disjI1, rule prod_eqI) (code_simp, simp)
qed simp_all

text \<open>
  C13: a claim that was superseded stays rejected. Once a second claim has taken the same task
  over, whatever calls came between and whatever follow, no write of the first owner is accepted.
\<close>

theorem memstore_superseded_rejected:
  assumes "calls_ok ks" "ms_Claim now opts (mem_run tstr ks) = (Inr t, s1)"
    and "calls_ok ls" "ms_Claim now2 opts2 (run_calls (memstore_ops tstr) ls s1) = (Inr t2, s2)"
    and "t_ID t2 = t_ID t" "calls_ok ms"
  shows "t_LeaseToken t2 \<noteq> t_LeaseToken t \<and> rejected t (run_calls (memstore_ops tstr) ms s2)"
proof -
  obtain c where c: "sim (mem_run tstr ks) c" using mem_run_sim [OF assms(1), of tstr] by blast
  obtain d where d: "sim s1 d" "(t_ID t, t_LeaseToken t) \<in> c_issued d"
    using claim_issued [OF c assms(2)] by blast
  obtain m where m: "sim (run_calls (memstore_ops tstr) ls s1) m" "(t_ID t, t_LeaseToken t) \<in> c_issued m"
    using run_issued [OF d(1) assms(3) d(2), of tstr] by blast
  have "\<exists>e. sim s2 e \<and> (t_ID t, t_LeaseToken t) \<in> c_issued e \<and> \<not> live e (t_ID t) (t_LeaseToken t) \<and>
      leased e (t_ID t) (t_LeaseToken t2) (t_LeasedUntil t2)"
    using mem.claim_supersede [OF m(1), of tstr now2 opts2 t2 s2] assms(4,5) m(2) by auto
  then obtain e where e: "sim s2 e" "(t_ID t, t_LeaseToken t) \<in> c_issued e"
      "\<not> live e (t_ID t) (t_LeaseToken t)" "leased e (t_ID t) (t_LeaseToken t2) (t_LeasedUntil t2)"
    by blast
  have "t_LeaseToken t2 \<noteq> t_LeaseToken t" using e(3) mem.leased_live [OF e(4)] by metis
  with rejected_after [OF e(1-3) assms(6)] show ?thesis by blast
qed

lemma memstore_superseded_rejected_witness:
  "rejected demo_claimed (run_calls (memstore_ops (\<lambda>_. [])) [(100, CReapExpired)]
     (snd (ms_Claim 20 demo_opts demo_store1)))"
proof -
  let ?t2 = "projr (fst (ms_Claim 20 demo_opts demo_store1))"
  have 1: "ms_Claim 20 demo_opts (run_calls (memstore_ops (\<lambda>_. [])) [] demo_store1) =
      (Inr ?t2, snd (ms_Claim 20 demo_opts demo_store1))"
    by (rule prod_eqI) (code_simp, simp)
  have 2: "t_ID ?t2 = t_ID demo_claimed" by code_simp
  show ?thesis
    using memstore_superseded_rejected [OF demo_ok demo_claim [unfolded demo_store_def] _ 1 2,
        of "[(100, CReapExpired)]"] by simp
qed

section \<open>Mutual exclusion\<close>

text \<open>
  C11: a lease excludes everyone else. After a claim, as long as the calls of all callers come no
  later than its deadline and none writes under it, no \<open>Claim\<close> and no \<open>ClaimBatch\<close> hands the task
  out, and the task still runs under the claim's token.
\<close>

theorem memstore_lease_exclusive:
  assumes "calls_ok ks" "ms_Claim now opts (mem_run tstr ks) = (Inr t, s1)"
    and "calls_ok ls" "\<forall>nk \<in> set ls. spares t nk" "s2 = run_calls (memstore_ops tstr) ls s1"
    and "now2 \<le> t_LeasedUntil t"
  shows "held (t_ID t) (t_LeaseToken t) s2 \<noteq> None \<and>
    (\<forall>t2 s3. ms_Claim now2 opts2 s2 = (Inr t2, s3) \<longrightarrow> t_ID t2 \<noteq> t_ID t) \<and>
    (\<forall>ts s3. 0 \<le> sint (co_Lease opts2) \<longrightarrow> ms_ClaimBatch now2 opts2 k s2 = (Inr ts, s3) \<longrightarrow>
       t_ID t \<notin> t_ID ` set ts)"
proof -
  obtain c where c: "sim (mem_run tstr ks) c" using mem_run_sim [OF assms(1), of tstr] by blast
  obtain d where d: "sim s1 d" "leased d (t_ID t) (t_LeaseToken t) (t_LeasedUntil t)"
    using claim_issued [OF c assms(2)] by blast
  have safe: "\<forall>(now, k) \<in> set ls. \<forall>e \<in> call_events now k.
      lease_safe (t_ID t) (t_LeaseToken t) (t_LeasedUntil t) e"
    using assms(4) spares_safe by fastforce
  obtain m where m: "sim s2 m" "leased m (t_ID t) (t_LeaseToken t) (t_LeasedUntil t)"
    using mem.run_leased [OF d(1) assms(3) d(2) safe, of tstr] assms(5) by blast
  have "held (t_ID t) (t_LeaseToken t) s2 \<noteq> None"
    using sim_live [OF m(1)] mem.leased_live [OF m(2)] by blast
  moreover have "t_ID t2 \<noteq> t_ID t" if "ms_Claim now2 opts2 s2 = (Inr t2, s3)" for t2 s3
    using mem.claim_not_leased [OF m assms(6), of tstr opts2 t2 s3] that by simp
  moreover have "t_ID t \<notin> t_ID ` set ts"
    if "0 \<le> sint (co_Lease opts2)" "ms_ClaimBatch now2 opts2 k s2 = (Inr ts, s3)" for ts s3
    using mem.batch_not_leased [OF m assms(6), of opts2 tstr k ts s3] that by simp
  ultimately show ?thesis by blast
qed

lemma memstore_lease_exclusive_witness:
  "\<exists>t2 s3. ms_Claim 15 demo_opts (run_calls (memstore_ops (\<lambda>_. [])) [(15, CReapExpired)] demo_store1) =
     (Inr t2, s3) \<and> t_ID t2 = ''task-2'' \<and> t_ID t2 \<noteq> t_ID demo_claimed"
proof -
  let ?s2 = "run_calls (memstore_ops (\<lambda>_. [])) [(15, CReapExpired)] demo_store1"
  have 1: "\<forall>nk \<in> set [(15, CReapExpired)]. spares demo_claimed nk" by code_simp
  have 2: "15 \<le> t_LeasedUntil demo_claimed" by code_simp
  have "map_option t_ID (case fst (ms_Claim 15 demo_opts ?s2) of Inl _ \<Rightarrow> None | Inr t2 \<Rightarrow> Some t2) =
    Some ''task-2''"
    by code_simp
  then obtain t2 s3 where "ms_Claim 15 demo_opts ?s2 = (Inr t2, s3)" "t_ID t2 = ''task-2''"
    by (cases "ms_Claim 15 demo_opts ?s2") (auto split: sum.splits)
  moreover have "calls_ok [(15, CReapExpired)]" by simp
  then have "t_ID t2 \<noteq> t_ID demo_claimed" if "ms_Claim 15 demo_opts ?s2 = (Inr t2, s3)" for t2 s3
    using memstore_lease_exclusive [OF demo_ok demo_claim [unfolded demo_store_def] _ 1 refl 2] that
    by blast
  ultimately show ?thesis by blast
qed

end
