(* ===== verification/Config.thy ===== *)
theory Config
  imports Core_Types Backoff
begin

text \<open>
  The manager's settings: \<open>options.go\<close>. An \<open>Option\<close> is a closure that writes fields of a
  \<open>Config\<close>; here it is a constructor with the closure's captured values and \<open>apply_option\<close> is its
  call. Two fields are pointers, \<open>Config.Pipeline\<close> (to the variable \<open>pc\<close> that
  \<open>WithPipelineMode\<close>'s closure captures) and \<open>JanitorConfig.Metrics\<close> (to the caller's struct);
  they are addresses in an explicit heap, because \<open>New\<close> writes defaults through them. The logger
  (diagnostics only) is left out.
\<close>

section \<open>Handlers as values\<close>

text \<open>
  A handler result of type \<open>any\<close> is what \<open>json.Marshal\<close> makes of it, an error or the bytes, which
  is all the code does with it; a nil result is \<open>None\<close>. A call returns a result and an error, or
  panics. Of the context only the deadline matters here.
\<close>

type_synonym anyval = "string + json"

datatype hret = Returned "anyval option" "string option" | Panicked string

type_synonym hfun = "gtime option \<Rightarrow> task \<Rightarrow> json \<Rightarrow> hret"
type_synonym middleware = "hfun \<Rightarrow> hfun"

section \<open>Settings\<close>

record pipeline_config =
  pc_ClaimBatch :: int
  pc_QueueLease :: duration
  pc_FinalizeBatch :: int
  pc_FinalizeInterval :: duration
  pc_NoFinalize :: bool

record metrics_config =
  mc_Interval :: duration
  mc_Retention :: duration

type_synonym addr = nat

record janitor_config =
  jc_ReapInterval :: duration
  jc_NoReap :: bool
  jc_Metrics :: "addr option"

text \<open>Which hooks are set. A hook only observes: its calls are recorded in the manager's log.\<close>

record hooks =
  hk_OnEnqueue :: bool
  hk_OnClaim :: bool
  hk_OnComplete :: bool
  hk_OnFail :: bool
  hk_OnDead :: bool

record config =
  c_Workers :: int
  c_PollInterval :: duration
  c_LeaseTime :: duration
  c_DefaultMaxAttempts :: int
  c_DefaultTimeout :: duration
  c_Backoff :: "backoff option"
  c_Janitor :: janitor_config
  c_HeartbeatInterval :: duration
  c_Pipeline :: "addr option"
  c_DisableChangeStream :: bool
  c_FallbackPoll :: duration
  c_FIFO :: bool
  c_Queues :: "queue_policy list"
  c_ManagerName :: string
  c_Hooks :: hooks
  c_Middleware :: "middleware list"

text \<open>The variables the pointers point to.\<close>

record heap =
  hp_next :: addr
  hp_pipeline :: "addr \<Rightarrow> pipeline_config"
  hp_metrics :: "addr \<Rightarrow> metrics_config"

section \<open>Options\<close>

datatype goption =
    OWorkers int
  | OPollInterval duration
  | OLeaseTime duration
  | ODefaultMaxAttempts int
  | ODefaultTimeout duration
  | OBackoff "backoff option"
  | OWithoutChangeStream
  | OFallbackPoll duration
  | OHooks hooks
  | OMiddleware "middleware list"
  | OManagerName string
  | OJanitor janitor_config
  | OFIFO
  | OQueues "queue_policy list"
  | OPipelineMode addr
  | OHeartbeatInterval duration

definition HeartbeatAuto :: duration where "HeartbeatAuto = -1"

fun apply_option :: "goption \<Rightarrow> config \<Rightarrow> config" where
  "apply_option (OWorkers n) c = c\<lparr>c_Workers := n\<rparr>"
| "apply_option (OPollInterval d) c = c\<lparr>c_PollInterval := d\<rparr>"
| "apply_option (OLeaseTime d) c = c\<lparr>c_LeaseTime := d\<rparr>"
| "apply_option (ODefaultMaxAttempts n) c = c\<lparr>c_DefaultMaxAttempts := n\<rparr>"
| "apply_option (ODefaultTimeout d) c = c\<lparr>c_DefaultTimeout := d\<rparr>"
| "apply_option (OBackoff b) c = c\<lparr>c_Backoff := b\<rparr>"
| "apply_option OWithoutChangeStream c = c\<lparr>c_DisableChangeStream := True\<rparr>"
| "apply_option (OFallbackPoll d) c = c\<lparr>c_FallbackPoll := d\<rparr>"
| "apply_option (OHooks h) c = c\<lparr>c_Hooks := h\<rparr>"
| "apply_option (OMiddleware mw) c = c\<lparr>c_Middleware := c_Middleware c @ mw\<rparr>"
| "apply_option (OManagerName n) c = c\<lparr>c_ManagerName := n\<rparr>"
| "apply_option (OJanitor jc) c = c\<lparr>c_Janitor := jc\<rparr>"
| "apply_option OFIFO c = c\<lparr>c_FIFO := True\<rparr>"
| "apply_option (OQueues qs) c = c\<lparr>c_Queues := c_Queues c @ qs\<rparr>"
| "apply_option (OPipelineMode a) c = c\<lparr>c_Pipeline := Some a\<rparr>"
| "apply_option (OHeartbeatInterval d) c = c\<lparr>c_HeartbeatInterval := d\<rparr>"

text \<open>
  \<open>WithPipelineMode\<close> allocates the parameter \<open>pc\<close> its closure captures, once per call of
  \<open>WithPipelineMode\<close> and not once per use of the option it returns.
\<close>

definition WithPipelineMode :: "pipeline_config \<Rightarrow> heap \<Rightarrow> goption \<times> heap" where
  "WithPipelineMode pc h = (OPipelineMode (hp_next h),
     h\<lparr>hp_next := Suc (hp_next h), hp_pipeline := (hp_pipeline h)(hp_next h := pc)\<rparr>)"

definition WithHeartbeat :: goption where
  "WithHeartbeat = OHeartbeatInterval HeartbeatAuto"

text \<open>A handler option sets the timeout, 0 being the manager's default.\<close>

record handler_options = ho_timeout :: duration

definition WithHandlerTimeout :: "duration \<Rightarrow> handler_options \<Rightarrow> handler_options" where
  "WithHandlerTimeout d ho = ho\<lparr>ho_timeout := d\<rparr>"

section \<open>Defaults\<close>

definition no_hooks :: hooks where
  "no_hooks = \<lparr>hk_OnEnqueue = False, hk_OnClaim = False, hk_OnComplete = False, hk_OnFail = False,
     hk_OnDead = False\<rparr>"

definition default_config :: config where
  "default_config = \<lparr>c_Workers = 4, c_PollInterval = seconds 2, c_LeaseTime = seconds 60,
     c_DefaultMaxAttempts = 3, c_DefaultTimeout = seconds 60, c_Backoff = Some default_backoff,
     c_Janitor = \<lparr>jc_ReapInterval = 0, jc_NoReap = False, jc_Metrics = None\<rparr>,
     c_HeartbeatInterval = 0, c_Pipeline = None, c_DisableChangeStream = False,
     c_FallbackPoll = seconds 30, c_FIFO = False, c_Queues = [], c_ManagerName = [],
     c_Hooks = no_hooks, c_Middleware = []\<rparr>"

definition build_config :: "goption list \<Rightarrow> config" where
  "build_config opts = fold apply_option opts default_config"

lemma apply_options_queues:
  "c_Queues (fold apply_option opts c) = c_Queues c @ concat (map (\<lambda>opt. case opt of OQueues qs \<Rightarrow> qs | _ \<Rightarrow> []) opts)"
proof (induction opts arbitrary: c)
  case (Cons opt opts)
  then show ?case by (cases opt) simp_all
qed simp

section \<open>Validation\<close>

definition err :: "string \<Rightarrow> gerror" where
  "err s = ErrOther (''gotasks: '' @ s)"

text \<open>The \<open>%q\<close> verb on names without special characters.\<close>

definition quoted :: "string \<Rightarrow> string" where
  "quoted s = CHR 0x22 # s @ [CHR 0x22]"

fun new_queues ::
  "queue_policy list \<Rightarrow> queue_policy amap \<Rightarrow> string list \<Rightarrow> gerror + queue_policy amap \<times> string list" where
  "new_queues [] queues names = Inr (queues, names)"
| "new_queues (q # qs) queues names =
     (if qp_Name q = [] then Inl (err ''queue names must not be empty'')
      else if sint (qp_TTL q) < 0 then Inl (err ''QueuePolicy.TTL must be >= 0 (0 = no expiry)'')
      else if qp_MaxAttempts q < 0 then Inl (err ''QueuePolicy.MaxAttempts must be >= 0 (0 = inherit)'')
      else case map_of queues (qp_Name q) of
        Some _ \<Rightarrow> Inl (err (''queue '' @ quoted (qp_Name q) @ '' declared twice''))
      | None \<Rightarrow> new_queues qs (upd (qp_Name q) q queues) (names @ [qp_Name q]))"

text \<open>
  The pipeline's defaults, resolved in place: the second component is what the pointed-to struct
  holds afterwards, on the error returns too.
\<close>

definition resolve_claim :: "duration \<Rightarrow> pipeline_config \<Rightarrow> gerror option \<times> pipeline_config" where
  "resolve_claim leaseTime p =
     (let p1 = (if pc_ClaimBatch p = 0 then p\<lparr>pc_ClaimBatch := 32\<rparr> else p)
      in if pc_ClaimBatch p1 < 1 \<or> pc_ClaimBatch p1 > 100
         then (Some (err ''Pipeline.ClaimBatch must be between 1 and 100''), p1)
         else if sint (pc_QueueLease p1) < 0
         then (Some (err ''Pipeline.QueueLease must be >= 0''), p1)
         else (None, if pc_QueueLease p1 = 0 then p1\<lparr>pc_QueueLease := leaseTime\<rparr> else p1))"

definition resolve_finalize :: "pipeline_config \<Rightarrow> gerror option \<times> pipeline_config" where
  "resolve_finalize p =
     (let p1 = (if pc_FinalizeBatch p = 0 then p\<lparr>pc_FinalizeBatch := min (2 * pc_ClaimBatch p) 1000\<rparr> else p)
      in if pc_FinalizeBatch p1 < 2 \<or> pc_FinalizeBatch p1 > 1000
         then (Some (err ''Pipeline.FinalizeBatch must be between 2 and 1000''), p1)
         else if sint (pc_FinalizeInterval p1) < 0
         then (Some (err ''Pipeline.FinalizeInterval must be >= 0''), p1)
         else (None, if pc_FinalizeInterval p1 = 0 then p1\<lparr>pc_FinalizeInterval := millis 300\<rparr> else p1))"

definition resolve_pipeline :: "duration \<Rightarrow> pipeline_config \<Rightarrow> gerror option \<times> pipeline_config" where
  "resolve_pipeline leaseTime p = (case resolve_claim leaseTime p of
     (Some e, p1) \<Rightarrow> (Some e, p1)
   | (None, p1) \<Rightarrow> if \<not> pc_NoFinalize p1 then resolve_finalize p1 else (None, p1))"

definition resolve_metrics :: "metrics_config \<Rightarrow> gerror option \<times> metrics_config" where
  "resolve_metrics mc =
     (let m1 = (if mc_Interval mc = 0 then mc\<lparr>mc_Interval := minutes 1\<rparr> else mc)
      in if sint (mc_Interval m1) < sint (seconds 1)
         then (Some (err ''Metrics.Interval must be >= 1s''), m1)
         else let m2 = (if mc_Retention m1 = 0 then m1\<lparr>mc_Retention := hours (7 * 24)\<rparr> else m1)
              in if sint (mc_Retention m2) < sint (minutes 1)
                 then (Some (err ''Metrics.Retention must be >= 1m''), m2)
                 else (None, m2))"

definition check_scalars :: "config \<Rightarrow> gerror option" where
  "check_scalars c =
     (if c_Workers c < 1 then Some (err ''Workers must be >= 1'')
      else if sint (c_PollInterval c) \<le> 0 then Some (err ''PollInterval must be > 0'')
      else if sint (c_LeaseTime c) \<le> 0 then Some (err ''LeaseTime must be > 0'')
      else if c_DefaultMaxAttempts c < 1 then Some (err ''DefaultMaxAttempts must be >= 1'')
      else if Option.is_none (c_Backoff c) then Some (err ''Backoff must not be nil'')
      else if sint (c_FallbackPoll c) \<le> 0 then Some (err ''FallbackPoll must be > 0'')
      else if c_Queues c = []
      then Some (err ''at least one queue must be declared with WithQueues (there is no default queue)'')
      else None)"

text \<open>
  The three stages of \<open>New\<close> after the scalar checks: the pipeline struct behind its pointer, the
  manager's name, and the janitor with the metrics struct behind its pointer.
\<close>

definition pipeline_stage :: "config \<Rightarrow> heap \<Rightarrow> gerror option \<times> heap" where
  "pipeline_stage c h = (case c_Pipeline c of
     None \<Rightarrow> (None, h)
   | Some a \<Rightarrow> (case resolve_pipeline (c_LeaseTime c) (hp_pipeline h a) of
       (e, p) \<Rightarrow> (e, h\<lparr>hp_pipeline := (hp_pipeline h)(a := p)\<rparr>)))"

definition name_stage :: "config \<Rightarrow> config" where
  "name_stage c = (if c_ManagerName c = [] then c\<lparr>c_ManagerName := ''manager''\<rparr> else c)"

definition janitor_stage :: "config \<Rightarrow> heap \<Rightarrow> (gerror + config) \<times> heap" where
  "janitor_stage c h =
     (let c1 = (if jc_ReapInterval (c_Janitor c) = 0
                then c\<lparr>c_Janitor := (c_Janitor c)\<lparr>jc_ReapInterval := seconds 60\<rparr>\<rparr> else c)
      in if sint (jc_ReapInterval (c_Janitor c1)) < 0
         then (Inl (err ''Janitor.ReapInterval must be > 0 (disable with NoReap)''), h)
         else case jc_Metrics (c_Janitor c1) of
           None \<Rightarrow> (Inr c1, h)
         | Some a \<Rightarrow> (case resolve_metrics (hp_metrics h a) of
             (e, mc) \<Rightarrow> (case e of None \<Rightarrow> Inr c1 | Some e' \<Rightarrow> Inl e',
                         h\<lparr>hp_metrics := (hp_metrics h)(a := mc)\<rparr>)))"

text \<open>The part of \<open>New\<close> from its first check to the logger, over the heap the pointers live in.\<close>

definition resolve ::
  "config \<Rightarrow> heap \<Rightarrow> (gerror + config \<times> queue_policy amap \<times> string list) \<times> heap" where
  "resolve c h = (case check_scalars c of
     Some e \<Rightarrow> (Inl e, h)
   | None \<Rightarrow> (case new_queues (c_Queues c) [] [] of
       Inl e \<Rightarrow> (Inl e, h)
     | Inr (queues, names) \<Rightarrow> (case pipeline_stage c h of
         (Some e, h1) \<Rightarrow> (Inl e, h1)
       | (None, h1) \<Rightarrow> (case janitor_stage (name_stage c) h1 of
           (Inl e, h2) \<Rightarrow> (Inl e, h2)
         | (Inr c2, h2) \<Rightarrow> (Inr (c2, queues, names), h2)))))"

end
