(* ===== verification/Manager.thy ===== *)
theory Manager
  imports Config Store_Client
begin

text \<open>
  The manager: \<open>manager.go\<close>. \<open>Manager\<close> is a record of its fields; methods are functions of it and
  of the store's state, over a method table \<open>st\<close> (theory \<open>Store_Interface\<close>). What runs in another
  goroutine or process happens between two such calls (theory \<open>Fleet\<close>). The log is the sequence of
  hook calls; \<open>time.Now()\<close>, random bytes and the JSON codec are arguments.
\<close>

section \<open>State\<close>

datatype hook_event =
    OnEnqueue task
  | OnClaim task
  | OnComplete task duration
  | OnFail task string bool
  | OnDead task string

record handler_entry =
  he_fn :: "gtime option \<Rightarrow> task \<Rightarrow> hret"
  he_timeout :: duration

record manager =
  m_cfg :: config
  m_pipeline :: "pipeline_config option"
  m_metrics :: "metrics_config option"
  m_handlers :: "handler_entry amap"
  m_types :: "string list"
  m_queueNames :: "string list"
  m_queues :: "queue_policy amap"
  m_managerID :: string
  m_counters :: "queue_counters amap option"
  m_registered :: bool
  m_started :: bool
  m_claimDone :: bool
  m_runDone :: bool
  m_taskCh :: "task list"
  m_fetchNudge :: bool
  m_watching :: bool
  m_finBuf :: "outcome list"
  m_finOldest :: gtime
  m_finMinLease :: gtime
  m_finWake :: bool
  m_finMargin :: duration
  m_log :: "hook_event list"

text \<open>\<open>count\<close> adds to one queue's counter; \<open>pick\<close> is the update of the chosen field.\<close>

definition count :: "string \<Rightarrow> (queue_counters \<Rightarrow> queue_counters) \<Rightarrow> manager \<Rightarrow> manager" where
  "count q pick m = (case m_counters m of
     None \<Rightarrow> m
   | Some cs \<Rightarrow> (case map_of cs q of
       None \<Rightarrow> m
     | Some c \<Rightarrow> m\<lparr>m_counters := Some (upd q (pick c) cs)\<rparr>))"

definition add_enqueued :: "int \<Rightarrow> queue_counters \<Rightarrow> queue_counters" where
  "add_enqueued n c = c\<lparr>qc_Enqueued := qc_Enqueued c + n\<rparr>"
definition add_claimed :: "queue_counters \<Rightarrow> queue_counters" where
  "add_claimed c = c\<lparr>qc_Claimed := qc_Claimed c + 1\<rparr>"
definition add_done :: "queue_counters \<Rightarrow> queue_counters" where
  "add_done c = c\<lparr>qc_Done := qc_Done c + 1\<rparr>"
definition add_failed :: "queue_counters \<Rightarrow> queue_counters" where
  "add_failed c = c\<lparr>qc_Failed := qc_Failed c + 1\<rparr>"
definition add_dead :: "queue_counters \<Rightarrow> queue_counters" where
  "add_dead c = c\<lparr>qc_Dead := qc_Dead c + 1\<rparr>"

text \<open>\<open>fireHook\<close>: a hook that is set is called; whatever it does, a panic too, stops there.\<close>

definition fireHook :: "bool \<Rightarrow> hook_event \<Rightarrow> manager \<Rightarrow> manager" where
  "fireHook is_set e m = (if is_set then m\<lparr>m_log := m_log m @ [e]\<rparr> else m)"

section \<open>New\<close>

definition hex_digit :: "nat \<Rightarrow> char" where
  "hex_digit d = (if d < 10 then char_of (48 + d) else char_of (87 + d))"

definition hex :: "nat list \<Rightarrow> string" where
  "hex bs = concat (map (\<lambda>b. [hex_digit (b div 16), hex_digit (b mod 16)]) bs)"

text \<open>\<open>rnd\<close> is the result of \<open>rand.Read\<close>: four bytes, or its error.\<close>

definition New :: "goption list \<Rightarrow> gerror + nat list \<Rightarrow> heap \<Rightarrow> (gerror + manager) \<times> heap" where
  "New opts rnd h = (case resolve (build_config opts) h of
     (Inl e, h') \<Rightarrow> (Inl e, h')
   | (Inr (cfg, queues, names), h') \<Rightarrow> (case rnd of
       Inl e \<Rightarrow> (Inl (err ''manager id''), h')
     | Inr sfx \<Rightarrow>
         (Inr \<lparr>m_cfg = cfg, m_pipeline = map_option (hp_pipeline h') (c_Pipeline cfg),
            m_metrics = map_option (hp_metrics h') (jc_Metrics (c_Janitor cfg)),
            m_handlers = [], m_types = [], m_queueNames = names, m_queues = queues,
            m_managerID = c_ManagerName cfg @ ''.'' @ hex sfx,
            m_counters = (if jc_Metrics (c_Janitor cfg) \<noteq> None
                          then Some (map (\<lambda>q. (q, zero_counters)) names) else None),
            m_registered = False, m_started = False, m_claimDone = False, m_runDone = False,
            m_taskCh = [], m_fetchNudge = False, m_watching = False, m_finBuf = [],
            m_finOldest = 0, m_finMinLease = 0, m_finWake = False, m_finMargin = 0,
            m_log = []\<rparr>, h')))"

section \<open>Enqueue\<close>

definition marshalPayload :: "anyval \<Rightarrow> gerror + json" where
  "marshalPayload v = (case v of
     Inl e \<Rightarrow> Inl (err (''marshal payload: '' @ e))
   | Inr b \<Rightarrow>
       (let t = trim_space b
        in if t = [] \<or> t = ''null'' then Inr []
           else if hd t \<noteq> CHR ''{'' then Inl (err (''payload must marshal to a JSON object, got '' @ take 20 t))
           else Inr b))"

definition ensureRegistered :: "'s store \<Rightarrow> manager \<Rightarrow> 's \<Rightarrow> gerror option \<times> manager \<times> 's" where
  "ensureRegistered st m s =
     (if m_registered m then (None, m, s)
      else case st_RegisterQueues st (c_Queues (m_cfg m)) s of
        (Some e, s') \<Rightarrow> (Some e, m, s')
      | (None, s') \<Rightarrow> (None, m\<lparr>m_registered := True\<rparr>, s'))"

text \<open>The inheritance of the attempts budget: task, then queue, then manager.\<close>

definition resolve_attempts :: "config \<Rightarrow> queue_policy \<Rightarrow> task_policy \<Rightarrow> int" where
  "resolve_attempts cfg qp p =
     (let a = tp_MaxAttempts p; b = (if a = 0 then qp_MaxAttempts qp else a)
      in if b = 0 then c_DefaultMaxAttempts cfg else b)"

definition expiry :: "queue_policy \<Rightarrow> gtime \<Rightarrow> gtime option" where
  "expiry qp runAt = (if 0 < sint (qp_TTL qp) then Some (add_time runAt (qp_TTL qp)) else None)"

definition new_task ::
  "string \<Rightarrow> string \<Rightarrow> task_policy \<Rightarrow> int \<Rightarrow> gtime \<Rightarrow> gtime option \<Rightarrow> gtime \<Rightarrow> json \<Rightarrow> task" where
  "new_task queue taskType p attempts runAt expiresAt now raw =
     \<lparr>t_ID = [], t_Queue = queue, t_Type = taskType, t_UniqueKey = tp_UniqueKey p, t_Payload = raw,
      t_Status = StatusPending, t_Attempts = 0, t_MaxAttempts = attempts, t_RunAt = runAt,
      t_ExpiresAt = expiresAt, t_LeasedBy = [], t_LeasedUntil = 0, t_LeaseToken = [], t_Errors = [],
      t_Result = [], t_CreatedAt = now, t_UpdatedAt = now\<rparr>"

fun build_tasks :: "(json \<Rightarrow> task) \<Rightarrow> anyval list \<Rightarrow> gerror + task list" where
  "build_tasks mk [] = Inr []"
| "build_tasks mk (pl # pls) = (case marshalPayload pl of
     Inl e \<Rightarrow> Inl e
   | Inr raw \<Rightarrow> (case build_tasks mk pls of
       Inl e \<Rightarrow> Inl e
     | Inr ts \<Rightarrow> Inr (mk raw # ts)))"

text \<open>The loop over the returned ids: an empty id is a task that was not inserted.\<close>

fun note_inserted :: "string list \<Rightarrow> task list \<Rightarrow> int \<Rightarrow> manager \<Rightarrow> int \<times> manager" where
  "note_inserted [] ts n m = (n, m)"
| "note_inserted (i # ids) (t # ts) n m =
     (if i = [] then note_inserted ids ts n m
      else note_inserted ids ts (n + 1)
             (fireHook (hk_OnEnqueue (c_Hooks (m_cfg m))) (OnEnqueue (t\<lparr>t_ID := i\<rparr>)) m))"
| "note_inserted (i # ids) [] n m = (n, m)"

text \<open>
  What \<open>EnqueueMany\<close> does between registration and the store call: the checks on the policy and the
  tasks it builds. No payloads give no tasks, before anything else is looked at.
\<close>

definition plan_tasks ::
  "config \<Rightarrow> queue_policy \<Rightarrow> gtime \<Rightarrow> string \<Rightarrow> string \<Rightarrow> anyval list \<Rightarrow> task_policy list \<Rightarrow>
    gerror + task list" where
  "plan_tasks cfg qp now queue taskType payloads policy =
     (if payloads = [] then Inr []
      else if length policy > 1 then Inl (err ''at most one TaskPolicy'')
      else let p = (if length policy = 1 then hd policy else zero_policy);
               attempts = resolve_attempts cfg qp p;
               runAt = (if is_zero (tp_RunAt p) then add_time now (tp_Delay p) else tp_RunAt p)
           in if attempts < 1 then Inl (err ''max attempts must be >= 1'')
              else if tp_UniqueKey p \<noteq> [] \<and> length payloads > 1
              then Inl (err ''TaskPolicy.UniqueKey requires a single-task enqueue'')
              else build_tasks (new_task queue taskType p attempts runAt (expiry qp runAt) now) payloads)"

definition EnqueueMany ::
  "'s store \<Rightarrow> gtime \<Rightarrow> string \<Rightarrow> string \<Rightarrow> anyval list \<Rightarrow> task_policy list \<Rightarrow> manager \<Rightarrow> 's \<Rightarrow>
    (string list \<times> gerror option) \<times> manager \<times> 's" where
  "EnqueueMany st now queue taskType payloads policy m s =
     (if taskType = [] then (([], Some (err ''task type is empty'')), m, s)
      else case map_of (m_queues m) queue of
        None \<Rightarrow> (([], Some (err (''queue '' @ quoted queue @ '' is not declared on this manager (WithQueues)''))), m, s)
      | Some qp \<Rightarrow> (case ensureRegistered st m s of
          (Some e, m1, s1) \<Rightarrow> (([], Some e), m1, s1)
        | (None, m1, s1) \<Rightarrow> (case plan_tasks (m_cfg m1) qp now queue taskType payloads policy of
            Inl e \<Rightarrow> (([], Some e), m1, s1)
          | Inr tasks \<Rightarrow>
              if tasks = [] then (([], None), m1, s1)
              else (case st_Enqueue st tasks s1 of
                ((ids, e), s2) \<Rightarrow> (case note_inserted ids tasks 0 m1 of
                  (n, m2) \<Rightarrow> ((ids, e), count queue (add_enqueued n) m2, s2))))))"

definition Enqueue ::
  "'s store \<Rightarrow> gtime \<Rightarrow> string \<Rightarrow> string \<Rightarrow> anyval \<Rightarrow> task_policy list \<Rightarrow> manager \<Rightarrow> 's \<Rightarrow>
    (string \<times> gerror option) \<times> manager \<times> 's" where
  "Enqueue st now queue taskType payload policy m s =
     (case EnqueueMany st now queue taskType [payload] policy m s of
        ((ids, Some e), m', s') \<Rightarrow> (case e of
            DuplicateTaskError k i \<Rightarrow> ((i, Some e), m', s')
          | _ \<Rightarrow> (([], Some e), m', s'))
      | ((ids, None), m', s') \<Rightarrow> ((hd ids, None), m', s'))"

section \<open>Handlers\<close>

text \<open>The result encoding around the whole middleware chain.\<close>

definition wrap_value :: "json \<Rightarrow> json" where
  "wrap_value b = CHR ''{'' # quoted ''value'' @ '':'' @ b @ ''}''"

definition encode_result :: "hret \<Rightarrow> hret" where
  "encode_result r = (case r of
     Panicked p \<Rightarrow> Panicked p
   | Returned res (Some e) \<Rightarrow> Returned None (Some e)
   | Returned None None \<Rightarrow> Returned None None
   | Returned (Some (Inl e)) None \<Rightarrow> Returned None (Some (''encode result: '' @ e))
   | Returned (Some (Inr b)) None \<Rightarrow>
       (let tb = trim_space b
        in Returned (Some (Inr (if tb \<noteq> [] \<and> hd tb \<noteq> CHR ''{'' \<and> tb \<noteq> ''null'' then wrap_value b else b))) None))"

text \<open>
  The typed handler in raw form: \<open>dec\<close> is \<open>json.Unmarshal\<close> into the payload type, \<open>zero\<close> its zero
  value, which an empty payload leaves in place.
\<close>

definition raw_handler ::
  "(json \<Rightarrow> string + 'p) \<Rightarrow> 'p \<Rightarrow> (gtime option \<Rightarrow> task \<Rightarrow> 'p \<Rightarrow> hret) \<Rightarrow> hfun" where
  "raw_handler dec zero fn = (\<lambda>ctx t payload.
     if payload \<noteq> [] then (case dec payload of
         Inl e \<Rightarrow> Returned None (Some (''decode payload: '' @ e))
       | Inr p \<Rightarrow> fn ctx t p)
     else fn ctx t zero)"

definition RegisterHandler ::
  "string \<Rightarrow> (json \<Rightarrow> string + 'p) \<Rightarrow> 'p \<Rightarrow> (gtime option \<Rightarrow> task \<Rightarrow> 'p \<Rightarrow> hret) option \<Rightarrow>
    (handler_options \<Rightarrow> handler_options) list \<Rightarrow> manager \<Rightarrow> gerror option \<times> manager" where
  "RegisterHandler taskType dec zero fn opts m =
     (if taskType = [] then (Some (err ''task type is empty''), m)
      else case fn of None \<Rightarrow> (Some (err ''handler is nil''), m) | Some f \<Rightarrow>
      if m_started m then (Some (err ''cannot register handlers after Start''), m)
      else case map_of (m_handlers m) taskType of
        Some _ \<Rightarrow> (Some (err (''handler already registered for type '' @ quoted taskType)), m)
      | None \<Rightarrow>
          let ho = fold (\<lambda>opt. opt) opts \<lparr>ho_timeout = 0\<rparr>;
              raw = foldr (\<lambda>mw next. mw next) (c_Middleware (m_cfg m)) (raw_handler dec zero f)
          in (None, m\<lparr>m_handlers := upd taskType
                 \<lparr>he_fn = (\<lambda>ctx t. encode_result (raw ctx t (t_Payload t))), he_timeout = ho_timeout ho\<rparr>
                 (m_handlers m)\<rparr>))"

section \<open>Claims, leases, dead letters\<close>

definition claimOptions :: "string \<Rightarrow> duration \<Rightarrow> manager \<Rightarrow> claim_options" where
  "claimOptions workerID lease m = \<lparr>co_WorkerID = workerID, co_Types = m_types m,
     co_Queues = m_queueNames m, co_FIFO = c_FIFO (m_cfg m), co_Lease = lease\<rparr>"

text \<open>\<open>ExtendLease\<close> writes the new deadline into the caller's task, which it returns here.\<close>

definition ExtendLease :: "'s store \<Rightarrow> gtime \<Rightarrow> task \<Rightarrow> manager \<Rightarrow> 's \<Rightarrow> (gerror + task) \<times> 's" where
  "ExtendLease st now t m s = (case st_ExtendLease st now t (c_LeaseTime (m_cfg m)) s of
     (Inl e, s') \<Rightarrow> (Inl e, s')
   | (Inr u, s') \<Rightarrow> (Inr (t\<lparr>t_LeasedUntil := u\<rparr>), s'))"

definition Requeue :: "'s store \<Rightarrow> gtime \<Rightarrow> string \<Rightarrow> 's \<Rightarrow> gerror option \<times> 's" where
  "Requeue st now i s = st_Requeue st now i s"

definition RequeueDead :: "'s store \<Rightarrow> gtime \<Rightarrow> string \<Rightarrow> 's \<Rightarrow> (gerror + int) \<times> 's" where
  "RequeueDead st now ty s = st_RequeueDead st now ty s"

section \<open>Start and Stop\<close>

definition finalizeOn :: "manager \<Rightarrow> bool" where
  "finalizeOn m = (case m_pipeline m of None \<Rightarrow> False | Some p \<Rightarrow> \<not> pc_NoFinalize p)"

definition fin_margin :: "duration \<Rightarrow> duration" where
  "fin_margin interval =
     (if sint (seconds 2) < sint (4 * interval) then 4 * interval else seconds 2)"

text \<open>
  \<open>Start\<close> up to the launch of the goroutines, which are the steps of theory \<open>Fleet\<close>. \<open>watch\<close> is
  whether the store is a \<open>Watcher\<close> whose stream came up.
\<close>

definition Start :: "'s store \<Rightarrow> bool \<Rightarrow> manager \<Rightarrow> 's \<Rightarrow> gerror option \<times> manager \<times> 's" where
  "Start st watch m s =
     (if keys (m_handlers m) = [] then (Some (err ''no handlers registered''), m, s)
      else if m_started m then (Some (err ''already started''), m, s)
      else case ensureRegistered st (m\<lparr>m_started := True\<rparr>) s of
        (Some e, m1, s1) \<Rightarrow> (Some e, m1\<lparr>m_started := False\<rparr>, s1)
      | (None, m1, s1) \<Rightarrow>
          let m2 = m1\<lparr>m_types := sort (keys (m_handlers m1)), m_claimDone := False, m_runDone := False\<rparr>;
              m3 = (case m_pipeline m2 of
                      Some p \<Rightarrow> if finalizeOn m2
                        then m2\<lparr>m_finWake := False, m_finMargin := fin_margin (pc_FinalizeInterval p)\<rparr>
                        else m2
                    | None \<Rightarrow> m2);
              m4 = m3\<lparr>m_watching := \<not> c_DisableChangeStream (m_cfg m3) \<and> watch\<rparr>
          in (None, (if m_pipeline m4 \<noteq> None then m4\<lparr>m_taskCh := [], m_fetchNudge := False\<rparr> else m4), s1))"

definition worker_id :: "manager \<Rightarrow> nat \<Rightarrow> string" where
  "worker_id m i = m_managerID m @ ''.worker.'' @ digits i"

definition channel_cap :: "manager \<Rightarrow> int" where
  "channel_cap m = (case m_pipeline m of None \<Rightarrow> 0 | Some p \<Rightarrow> c_Workers (m_cfg m) + pc_ClaimBatch p)"

definition janitor_needed :: "manager \<Rightarrow> bool" where
  "janitor_needed m \<longleftrightarrow> \<not> jc_NoReap (c_Janitor (m_cfg m)) \<or> m_metrics m \<noteq> None"

text \<open>How long \<open>idleWait\<close> sleeps when nothing wakes it.\<close>

definition idle_poll :: "manager \<Rightarrow> duration" where
  "idle_poll m = (if m_watching m then c_FallbackPoll (m_cfg m) else c_PollInterval (m_cfg m))"

text \<open>
  \<open>Stop\<close> cancels the claim context; the run context goes when every goroutine has returned, or when
  the caller's context ends first (the hard stop).
\<close>

definition stop_claiming :: "manager \<Rightarrow> manager" where
  "stop_claiming m = (if m_started m then m\<lparr>m_claimDone := True\<rparr> else m)"

definition Stop :: "bool \<Rightarrow> manager \<Rightarrow> bool \<times> manager" where
  "Stop ctx_expired m =
     (if \<not> m_started m then (True, m)
      else (\<not> ctx_expired, (stop_claiming m)\<lparr>m_runDone := True\<rparr>))"

end
