(* ===== verification/Config_Props.thy ===== *)
theory Config_Props
  imports Manager
begin

text \<open>
  What \<open>New\<close> guarantees of the manager it returns, and what it does to the structs its options
  point to.
\<close>

section \<open>Valid settings\<close>

fun valid_queue :: "queue_policy \<Rightarrow> bool" where
  "valid_queue q \<longleftrightarrow> qp_Name q \<noteq> [] \<and> 0 \<le> sint (qp_TTL q) \<and> 0 \<le> qp_MaxAttempts q"

definition valid_pipeline :: "pipeline_config \<Rightarrow> bool" where
  "valid_pipeline p \<longleftrightarrow> 1 \<le> pc_ClaimBatch p \<and> pc_ClaimBatch p \<le> 100 \<and> 0 < sint (pc_QueueLease p) \<and>
     (\<not> pc_NoFinalize p \<longrightarrow> 2 \<le> pc_FinalizeBatch p \<and> pc_FinalizeBatch p \<le> 1000 \<and> 0 < sint (pc_FinalizeInterval p))"

definition valid_metrics :: "metrics_config \<Rightarrow> bool" where
  "valid_metrics mc \<longleftrightarrow> sint (seconds 1) \<le> sint (mc_Interval mc) \<and> sint (minutes 1) \<le> sint (mc_Retention mc)"

definition valid_scalars :: "config \<Rightarrow> bool" where
  "valid_scalars c \<longleftrightarrow> 1 \<le> c_Workers c \<and> 0 < sint (c_PollInterval c) \<and> 0 < sint (c_LeaseTime c) \<and>
     1 \<le> c_DefaultMaxAttempts c \<and> \<not> Option.is_none (c_Backoff c) \<and> 0 < sint (c_FallbackPoll c) \<and> c_Queues c \<noteq> []"

lemma check_scalars_None: "check_scalars c = None \<longleftrightarrow> valid_scalars c"
  by (auto simp: check_scalars_def valid_scalars_def)

lemma sint_nonzero: "(d :: duration) \<noteq> 0 \<Longrightarrow> 0 \<le> sint d \<Longrightarrow> 0 < sint d"
  using signed_word_eqI [of d 0] by (auto simp: order_less_le)

text \<open>The queue loop accepts exactly valid queues of distinct names.\<close>

lemma new_queues_spec:
  assumes "set (keys m) = set names"
  shows "case new_queues qs m names of
      Inr (m', names') \<Rightarrow> (\<forall>q \<in> set qs. valid_queue q) \<and> distinct (map qp_Name qs) \<and>
        set names \<inter> set (map qp_Name qs) = {} \<and>
        names' = names @ map qp_Name qs \<and> set (keys m') = set names' \<and>
        (\<forall>n q. map_of m' n = Some q \<longleftrightarrow> map_of m n = Some q \<or> (q \<in> set qs \<and> qp_Name q = n))
    | Inl e \<Rightarrow> \<not> ((\<forall>q \<in> set qs. valid_queue q) \<and> distinct (map qp_Name qs) \<and>
        set names \<inter> set (map qp_Name qs) = {})"
  using assms
proof (induction qs m names rule: new_queues.induct)
  case (1 m names)
  then show ?case by simp
next
  case (2 q qs m names)
  show ?case
  proof (cases "valid_queue q \<and> map_of m (qp_Name q) = None")
    case False
    then have "qp_Name q \<in> set names \<or> \<not> valid_queue q"
      using 2(2) by (auto simp: map_of_eq_None_iff)
    with False show ?thesis by (auto split: option.split)
  next
    case True
    then have new: "new_queues (q # qs) m names = new_queues qs (upd (qp_Name q) q m) (names @ [qp_Name q])"
      by simp
    have fresh: "qp_Name q \<notin> set names" using True 2(2) by (auto simp: map_of_eq_None_iff)
    have k: "set (keys (upd (qp_Name q) q m)) = set (names @ [qp_Name q])" using 2(2) by (auto simp: keys_upd)
    have IH: "case new_queues qs (upd (qp_Name q) q m) (names @ [qp_Name q]) of
      Inr (m', names') \<Rightarrow> (\<forall>q \<in> set qs. valid_queue q) \<and> distinct (map qp_Name qs) \<and>
        set (names @ [qp_Name q]) \<inter> set (map qp_Name qs) = {} \<and>
        names' = (names @ [qp_Name q]) @ map qp_Name qs \<and> set (keys m') = set names' \<and>
        (\<forall>n u. map_of m' n = Some u \<longleftrightarrow> map_of (upd (qp_Name q) q m) n = Some u \<or> (u \<in> set qs \<and> qp_Name u = n))
    | Inl e \<Rightarrow> \<not> ((\<forall>q \<in> set qs. valid_queue q) \<and> distinct (map qp_Name qs) \<and>
        set (names @ [qp_Name q]) \<inter> set (map qp_Name qs) = {})"
      using 2(1) [OF _ _ _ _ k] True by simp
    show ?thesis
    proof (cases "new_queues qs (upd (qp_Name q) q m) (names @ [qp_Name q])")
      case (Inl e)
      with IH new True fresh show ?thesis by auto
    next
      case (Inr r)
      with IH new True fresh show ?thesis by (cases r) (auto split: if_splits)
    qed
  qed
qed

lemma resolve_pipeline_valid:
  assumes "0 < sint lt" "resolve_pipeline lt p = (None, p')"
  shows "valid_pipeline p'"
  using assms
  by (auto simp: resolve_pipeline_def resolve_claim_def resolve_finalize_def valid_pipeline_def Let_def
      sint_nonzero sint_millis split: if_splits prod.splits option.splits)

definition acceptable_pipeline :: "pipeline_config \<Rightarrow> bool" where
  "acceptable_pipeline p \<longleftrightarrow> (pc_ClaimBatch p = 0 \<or> (1 \<le> pc_ClaimBatch p \<and> pc_ClaimBatch p \<le> 100)) \<and>
     0 \<le> sint (pc_QueueLease p) \<and>
     (\<not> pc_NoFinalize p \<longrightarrow> (pc_FinalizeBatch p = 0 \<or> (2 \<le> pc_FinalizeBatch p \<and> pc_FinalizeBatch p \<le> 1000)) \<and>
        0 \<le> sint (pc_FinalizeInterval p))"

lemma resolve_pipeline_accepts: "fst (resolve_pipeline lt p) = None \<longleftrightarrow> acceptable_pipeline p"
  by (auto simp: resolve_pipeline_def resolve_claim_def resolve_finalize_def acceptable_pipeline_def Let_def
      split: prod.splits option.splits)

definition acceptable_metrics :: "metrics_config \<Rightarrow> bool" where
  "acceptable_metrics mc \<longleftrightarrow> (mc_Interval mc = 0 \<or> sint (seconds 1) \<le> sint (mc_Interval mc)) \<and>
     (mc_Retention mc = 0 \<or> sint (minutes 1) \<le> sint (mc_Retention mc))"

lemma resolve_metrics_spec:
  "fst (resolve_metrics mc) = None \<longleftrightarrow> acceptable_metrics mc"
  "resolve_metrics mc = (None, mc') \<Longrightarrow> valid_metrics mc'"
  by (auto simp: resolve_metrics_def acceptable_metrics_def valid_metrics_def Let_def sint_seconds
      split: if_splits)

text \<open>The settings \<open>New\<close> accepts, read off the options and the structs they point to.\<close>

definition acceptable :: "config \<Rightarrow> heap \<Rightarrow> bool" where
  "acceptable c h \<longleftrightarrow> valid_scalars c \<and> (\<forall>q \<in> set (c_Queues c). valid_queue q) \<and>
     distinct (map qp_Name (c_Queues c)) \<and>
     (\<forall>a. c_Pipeline c = Some a \<longrightarrow> acceptable_pipeline (hp_pipeline h a)) \<and>
     0 \<le> sint (jc_ReapInterval (c_Janitor c)) \<and>
     (\<forall>a. jc_Metrics (c_Janitor c) = Some a \<longrightarrow> acceptable_metrics (hp_metrics h a))"

lemma new_queues_iff:
  "(\<exists>e. new_queues qs [] [] = Inl e) \<longleftrightarrow> \<not> ((\<forall>q \<in> set qs. valid_queue q) \<and> distinct (map qp_Name qs))"
  using new_queues_spec [of "[]" "[]" qs] by (cases "new_queues qs [] []") auto

definition settings_valid :: "manager \<Rightarrow> bool" where
  "settings_valid m \<longleftrightarrow> valid_scalars (m_cfg m) \<and> (\<forall>q \<in> set (c_Queues (m_cfg m)). valid_queue q) \<and>
     distinct (m_queueNames m) \<and> m_queueNames m = map qp_Name (c_Queues (m_cfg m)) \<and>
     (\<forall>n q. map_of (m_queues m) n = Some q \<longleftrightarrow> q \<in> set (c_Queues (m_cfg m)) \<and> qp_Name q = n) \<and>
     (\<forall>p. m_pipeline m = Some p \<longrightarrow> valid_pipeline p) \<and>
     0 < sint (jc_ReapInterval (c_Janitor (m_cfg m))) \<and>
     (\<forall>mc. m_metrics m = Some mc \<longrightarrow> valid_metrics mc) \<and>
     (m_counters m = None \<longleftrightarrow> m_metrics m = None)"

lemma name_stage_sel [simp]:
  "c_Workers (name_stage c) = c_Workers c" "c_PollInterval (name_stage c) = c_PollInterval c"
  "c_LeaseTime (name_stage c) = c_LeaseTime c" "c_DefaultMaxAttempts (name_stage c) = c_DefaultMaxAttempts c"
  "c_Backoff (name_stage c) = c_Backoff c" "c_FallbackPoll (name_stage c) = c_FallbackPoll c"
  "c_Queues (name_stage c) = c_Queues c" "c_Pipeline (name_stage c) = c_Pipeline c"
  "c_Janitor (name_stage c) = c_Janitor c"
  by (simp_all add: name_stage_def)

lemma janitor_stage_Inr:
  assumes "janitor_stage c h = (Inr c2, h2)"
  shows "hp_pipeline h2 = hp_pipeline h \<and> c_Queues c2 = c_Queues c \<and> c_Pipeline c2 = c_Pipeline c \<and>
    valid_scalars c2 = valid_scalars c \<and> 0 < sint (jc_ReapInterval (c_Janitor c2)) \<and>
    (\<forall>a. jc_Metrics (c_Janitor c2) = Some a \<longrightarrow> valid_metrics (hp_metrics h2 a))"
  using assms resolve_metrics_spec(2)
  by (auto simp: janitor_stage_def valid_scalars_def Let_def sint_seconds sint_nonzero
      split: if_splits option.splits prod.splits)

lemma janitor_stage_accepts:
  "(\<exists>c2 h2. janitor_stage c h = (Inr c2, h2)) \<longleftrightarrow> 0 \<le> sint (jc_ReapInterval (c_Janitor c)) \<and>
    (\<forall>a. jc_Metrics (c_Janitor c) = Some a \<longrightarrow> acceptable_metrics (hp_metrics h a))"
  by (auto simp: janitor_stage_def Let_def sint_seconds resolve_metrics_spec(1) [symmetric]
      split: if_splits option.splits prod.splits)

lemma pipeline_stage_None:
  assumes "pipeline_stage c h = (None, h1)" "0 < sint (c_LeaseTime c)"
  shows "hp_metrics h1 = hp_metrics h \<and> (\<forall>a. c_Pipeline c = Some a \<longrightarrow> valid_pipeline (hp_pipeline h1 a))"
  using assms resolve_pipeline_valid
  by (auto simp: pipeline_stage_def split: option.splits prod.splits)

lemma pipeline_stage_accepts:
  "fst (pipeline_stage c h) = None \<longleftrightarrow>
    (\<forall>a. c_Pipeline c = Some a \<longrightarrow> acceptable_pipeline (hp_pipeline h a))"
  using resolve_pipeline_accepts
  by (auto simp: pipeline_stage_def split: option.splits prod.splits) (metis fst_conv)+

lemma resolve_Inr:
  assumes "resolve c h = (Inr (c2, queues, names), h2)"
  obtains h1 where "valid_scalars c" "new_queues (c_Queues c) [] [] = Inr (queues, names)"
    "pipeline_stage c h = (None, h1)" "janitor_stage (name_stage c) h1 = (Inr c2, h2)"
  using assms by (auto simp: resolve_def check_scalars_None split: option.splits sum.splits prod.splits)

lemma settings_of_New:
  assumes "New opts rnd h = (Inr m, h')"
  shows "settings_valid m"
proof -
  let ?c = "build_config opts"
  obtain c2 queues names sfx where r: "resolve ?c h = (Inr (c2, queues, names), h')"
    and m: "m_cfg m = c2" "m_pipeline m = map_option (hp_pipeline h') (c_Pipeline c2)"
      "m_metrics m = map_option (hp_metrics h') (jc_Metrics (c_Janitor c2))"
      "m_queueNames m = names" "m_queues m = queues"
      "m_counters m = (if jc_Metrics (c_Janitor c2) \<noteq> None then Some (map (\<lambda>q. (q, zero_counters)) names) else None)"
    using assms by (auto simp: New_def split: sum.splits prod.splits)
  obtain h1 where s: "valid_scalars ?c" "new_queues (c_Queues ?c) [] [] = Inr (queues, names)"
    "pipeline_stage ?c h = (None, h1)" "janitor_stage (name_stage ?c) h1 = (Inr c2, h')"
    using resolve_Inr [OF r] by blast
  have lt: "0 < sint (c_LeaseTime ?c)" using s(1) by (simp add: valid_scalars_def)
  note j = janitor_stage_Inr [OF s(4)] and p = pipeline_stage_None [OF s(3) lt]
  have "valid_scalars c2" using j s(1) by (simp add: valid_scalars_def)
  moreover have "\<forall>p. m_pipeline m = Some p \<longrightarrow> valid_pipeline p"
    using j p by (auto simp: m(2))
  moreover have "\<forall>mc. m_metrics m = Some mc \<longrightarrow> valid_metrics mc" using j by (auto simp: m(3))
  moreover have "(\<forall>q \<in> set (c_Queues ?c). valid_queue q) \<and> distinct (map qp_Name (c_Queues ?c)) \<and>
      names = map qp_Name (c_Queues ?c) \<and>
      (\<forall>n q. map_of queues n = Some q \<longleftrightarrow> q \<in> set (c_Queues ?c) \<and> qp_Name q = n)"
    using new_queues_spec [of "[]" "[]" "c_Queues ?c"] s(2) by simp
  ultimately show ?thesis
    using j by (simp add: settings_valid_def m del: valid_queue.simps)
qed

text \<open>
  C35: a manager's settings are valid. Whatever options \<open>New\<close> is given, a manager it returns has
  positive times and counts, distinct well-formed queues that its lookup table holds exactly, and
  pipeline and metrics settings within their bounds, every default filled in.
\<close>

theorem new_settings_valid:
  assumes "New opts rnd h = (Inr m, h')"
  shows "settings_valid m"
  using assms by (rule settings_of_New)

definition demo_queue :: queue_policy where
  "demo_queue = \<lparr>qp_Name = ''q'', qp_TTL = 0, qp_MaxAttempts = 0\<rparr>"

definition zero_pipeline :: pipeline_config where
  "zero_pipeline = \<lparr>pc_ClaimBatch = 0, pc_QueueLease = 0, pc_FinalizeBatch = 0, pc_FinalizeInterval = 0,
     pc_NoFinalize = False\<rparr>"

definition empty_heap :: heap where
  "empty_heap = \<lparr>hp_next = 0, hp_pipeline = (\<lambda>_. zero_pipeline),
     hp_metrics = (\<lambda>_. \<lparr>mc_Interval = 0, mc_Retention = 0\<rparr>)\<rparr>"

definition demo_manager :: "goption list \<Rightarrow> manager" where
  "demo_manager opts = projr (fst (New (OQueues [demo_queue] # opts) (Inr [1, 2, 3, 4]) empty_heap))"

lemma new_settings_valid_witness: "settings_valid (demo_manager [OPipelineMode 0])"
proof -
  have "isl (fst (New [OQueues [demo_queue], OPipelineMode 0] (Inr [1, 2, 3, 4]) empty_heap)) = False"
    by code_simp
  then have "New [OQueues [demo_queue], OPipelineMode 0] (Inr [1, 2, 3, 4]) empty_heap =
      (Inr (demo_manager [OPipelineMode 0]),
       snd (New [OQueues [demo_queue], OPipelineMode 0] (Inr [1, 2, 3, 4]) empty_heap))"
    unfolding demo_manager_def by (intro prod_eqI) (simp_all add: sum.expand)
  then show ?thesis by (rule new_settings_valid)
qed

lemma resolve_accepts:
  "(\<exists>r h'. resolve c h = (Inr r, h')) \<longleftrightarrow> valid_scalars c \<and> (\<exists>r. new_queues (c_Queues c) [] [] = Inr r) \<and>
    fst (pipeline_stage c h) = None \<and>
    (\<exists>c2 h2. janitor_stage (name_stage c) (snd (pipeline_stage c h)) = (Inr c2, h2))"
proof (cases "check_scalars c")
  case (Some e)
  then have "\<not> valid_scalars c" unfolding check_scalars_None [symmetric] by simp
  with Some show ?thesis by (simp add: resolve_def)
next
  case None
  then have v: "valid_scalars c" unfolding check_scalars_None .
  obtain e h1 where p: "pipeline_stage c h = (e, h1)" by fastforce
  obtain jr h2 where j: "janitor_stage (name_stage c) h1 = (jr, h2)" by fastforce
  from None v p j show ?thesis
    by (cases "new_queues (c_Queues c) [] []"; cases e; cases jr) (simp_all add: resolve_def split: prod.split)
qed

lemma pipeline_stage_metrics: "hp_metrics (snd (pipeline_stage c h)) = hp_metrics h"
  by (simp add: pipeline_stage_def split: option.split prod.split)

lemma New_accepts_iff:
  "(\<exists>m. fst (New opts (Inr sfx) h) = Inr m) \<longleftrightarrow> (\<exists>r h'. resolve (build_config opts) h = (Inr r, h'))"
proof -
  obtain r h' where "resolve (build_config opts) h = (r, h')" by fastforce
  then show ?thesis by (cases r) (simp_all add: New_def split: prod.split)
qed

lemma New_acceptable: "(\<exists>m. fst (New opts (Inr sfx) h) = Inr m) \<longleftrightarrow> acceptable (build_config opts) h"
proof -
  have "(\<exists>r. new_queues qs [] [] = Inr r) \<longleftrightarrow> \<not> (\<exists>e. new_queues qs [] [] = Inl e)" for qs
    by (cases "new_queues qs [] []") simp_all
  then show ?thesis
    unfolding New_accepts_iff resolve_accepts janitor_stage_accepts new_queues_iff pipeline_stage_accepts
      pipeline_stage_metrics acceptable_def name_stage_sel by (simp only: new_queues_iff) blast
qed


section \<open>The shared pipeline struct\<close>

text \<open>
  Resolving a resolved struct changes nothing, so the copy a manager keeps stays what its pointer
  shows.
\<close>

lemma resolve_pipeline_valid_id:
  assumes "valid_pipeline p"
  shows "resolve_pipeline lt p = (None, p)"
proof -
  have "pc_QueueLease p \<noteq> 0" "\<not> pc_NoFinalize p \<Longrightarrow> pc_FinalizeInterval p \<noteq> 0"
    using assms by (auto simp: valid_pipeline_def)
  with assms show ?thesis
    by (cases "pc_NoFinalize p")
      (simp_all add: valid_pipeline_def resolve_pipeline_def resolve_claim_def resolve_finalize_def)
qed

lemma resolve_pipeline_stable:
  "0 < sint lt \<Longrightarrow> resolve_pipeline lt p = (None, p') \<Longrightarrow> resolve_pipeline lt2 p' = (None, p')"
  by (rule resolve_pipeline_valid_id, rule resolve_pipeline_valid)

text \<open>
  One pipeline option used for two managers is shared. \<open>WithPipelineMode(PipelineConfig{})\<close>
  built once and given to a manager of lease time 10s and then to one of lease time 60s leaves the
  second with a queue lease of 10s, not the documented default, its own lease time.
\<close>

theorem new_pipeline_option_shared:
  "let (opt, h) = WithPipelineMode zero_pipeline empty_heap;
       h1 = snd (New [OQueues [demo_queue], OLeaseTime (seconds 10), opt] (Inr [1, 2, 3, 4]) h);
       p2 = m_pipeline (projr (fst (New [OQueues [demo_queue], opt] (Inr [5, 6, 7, 8]) h1)))
   in map_option pc_QueueLease p2 = Some (seconds 10) \<and>
      map_option pc_QueueLease (m_pipeline (projr (fst (New [OQueues [demo_queue], opt] (Inr [5, 6, 7, 8]) h)))) =
        Some (seconds 60)"
  by code_simp

end
