(* ===== verification/Worker.thy ===== *)
theory Worker
  imports Manager
begin

text \<open>
  What a manager's goroutines do: \<open>worker.go\<close>. The railway loop of a worker, the run of one task
  from handler to recorded outcome, the finalize buffer and its flusher, the heartbeat and the
  janitor with its two clocks. A loop is modelled by its round, a function of the state; a
  \<open>select\<close> with several ready cases is a choice passed as an argument. The times a round reads are
  arguments, in the order the code reads them.
\<close>

section \<open>Claiming\<close>

text \<open>What a worker does after a round of its loop.\<close>

datatype worker_next = Process task | IdleWait | Exit

definition note_claimed :: "task \<Rightarrow> manager \<Rightarrow> manager" where
  "note_claimed t m = fireHook (hk_OnClaim (c_Hooks (m_cfg m))) (OnClaim t) (count (t_Queue t) add_claimed m)"

text \<open>\<open>cancelled\<close>: whether the claim context is done when the claim returns.\<close>

definition worker_round ::
  "'s store \<Rightarrow> gtime \<Rightarrow> bool \<Rightarrow> string \<Rightarrow> manager \<Rightarrow> 's \<Rightarrow> worker_next \<times> manager \<times> 's" where
  "worker_round st now cancelled wid m s =
     (if m_claimDone m then (Exit, m, s)
      else case st_Claim st now (claimOptions wid (c_LeaseTime (m_cfg m)) m) s of
        (Inr t, s') \<Rightarrow> (Process t, note_claimed t m, s')
      | (Inl e, s') \<Rightarrow>
          if e = ErrNoTask then (IdleWait, m, s')
          else if cancelled then (Exit, m, s') else (IdleWait, m, s'))"

section \<open>Running one task\<close>

definition handler_deadline :: "manager \<Rightarrow> handler_entry \<Rightarrow> gtime \<Rightarrow> gtime option" where
  "handler_deadline m entry now =
     (let timeout = (if he_timeout entry = 0 then c_DefaultTimeout (m_cfg m) else he_timeout entry)
      in if 0 < sint timeout then Some (add_time now timeout) else None)"

text \<open>\<open>invoke\<close>: a panic of the handler is an error like any other.\<close>

definition invoke :: "handler_entry \<Rightarrow> gtime option \<Rightarrow> task \<Rightarrow> json \<times> string option" where
  "invoke entry ctx t = (case he_fn entry ctx t of
     Panicked v \<Rightarrow> ([], Some (''panic: '' @ v))
   | Returned (Some (Inr b)) e \<Rightarrow> (b, e)
   | Returned _ e \<Rightarrow> ([], e))"

definition terminal :: "task \<Rightarrow> bool" where
  "terminal t \<longleftrightarrow> t_Attempts t \<ge> t_MaxAttempts t"

definition next_delay :: "manager \<Rightarrow> jitter_source \<Rightarrow> int \<Rightarrow> panic + duration" where
  "next_delay m rnd attempt = (case c_Backoff (m_cfg m) of
     None \<Rightarrow> Inr 0
   | Some b \<Rightarrow> b rnd attempt)"

text \<open>
  The outcome of an attempt, with its counters and hooks. \<open>Backoff.Next\<close> runs outside \<open>invoke\<close>, so
  its panic is not recovered: it ends the program (\<open>Inl\<close>).
\<close>

definition attempt_outcome ::
  "jitter_source \<Rightarrow> string \<Rightarrow> gtime \<Rightarrow> duration \<Rightarrow> task \<Rightarrow> json \<times> string option \<Rightarrow> manager \<Rightarrow>
    panic + outcome \<times> manager" where
  "attempt_outcome rnd workerID now dur t r m = (case r of
     (result, None) \<Rightarrow>
       (let m1 = count (t_Queue t) add_done m;
            m2 = fireHook (hk_OnComplete (c_Hooks (m_cfg m))) (OnComplete t dur) m1
        in Inr (\<lparr>o_Task = t, o_Result = result, o_Failure = None, o_RetryAt = 0, o_Terminal = False\<rparr>, m2))
   | (result, Some e) \<Rightarrow>
       (let m1 = count (t_Queue t) (if terminal t then add_dead else add_failed) m;
            m2 = fireHook (hk_OnFail (c_Hooks (m_cfg m))) (OnFail t e (\<not> terminal t)) m1;
            m3 = (if terminal t then fireHook (hk_OnDead (c_Hooks (m_cfg m))) (OnDead t e) m2 else m2);
            taskErr = \<lparr>te_At = now, te_Attempt = t_Attempts t, te_Worker = workerID, te_Message = e\<rparr>
        in case next_delay m rnd (t_Attempts t) of
             Inl p \<Rightarrow> Inl p
           | Inr d \<Rightarrow> Inr (\<lparr>o_Task = t, o_Result = [], o_Failure = Some taskErr,
                            o_RetryAt = add_time now d, o_Terminal = terminal t\<rparr>, m3)))"

definition shouldBufferOutcome :: "gtime \<Rightarrow> task \<Rightarrow> manager \<Rightarrow> bool" where
  "shouldBufferOutcome now t m =
     (if \<not> finalizeOn m \<or> t_MaxAttempts t = 1 then False
      else sint (sub_time (t_LeasedUntil t) now) \<ge> sint (m_finMargin m))"

definition finalizeNow :: "'s store \<Rightarrow> gtime \<Rightarrow> outcome \<Rightarrow> 's \<Rightarrow> gerror option \<times> 's" where
  "finalizeNow st now r s = (case o_Failure r of
     Some f \<Rightarrow> st_Fail st now (o_Task r) f (o_RetryAt r) (o_Terminal r) s
   | None \<Rightarrow> st_Complete st now (o_Task r) (o_Result r) s)"

definition bufferOutcome :: "gtime \<Rightarrow> outcome \<Rightarrow> manager \<Rightarrow> manager" where
  "bufferOutcome now r m =
     (let m1 = (if m_finBuf m = [] then m\<lparr>m_finOldest := now, m_finMinLease := t_LeasedUntil (o_Task r)\<rparr>
                else if t_LeasedUntil (o_Task r) < m_finMinLease m
                then m\<lparr>m_finMinLease := t_LeasedUntil (o_Task r)\<rparr> else m)
      in m1\<lparr>m_finBuf := m_finBuf m1 @ [r], m_finWake := True\<rparr>)"

text \<open>
  \<open>process\<close> as a whole, for a run nothing interrupts: \<open>t0\<close> is read when the handler starts, \<open>t1\<close>
  when it has returned, \<open>t2\<close> by the buffering decision and \<open>t3\<close> by what follows it.
\<close>

definition process ::
  "'s store \<Rightarrow> jitter_source \<Rightarrow> string \<Rightarrow> gtime \<Rightarrow> gtime \<Rightarrow> gtime \<Rightarrow> gtime \<Rightarrow> task \<Rightarrow> manager \<Rightarrow> 's \<Rightarrow>
    panic + manager \<times> 's" where
  "process st rnd workerID t0 t1 t2 t3 t m s = (case map_of (m_handlers m) (t_Type t) of
     None \<Rightarrow> Inr (m, s)
   | Some entry \<Rightarrow>
       (case attempt_outcome rnd workerID t1 (sub_time t1 t0) t
               (invoke entry (handler_deadline m entry t0) t) m of
          Inl p \<Rightarrow> Inl p
        | Inr (r, m1) \<Rightarrow>
            if shouldBufferOutcome t2 t m1 then Inr (bufferOutcome t3 r m1, s)
            else Inr (m1, snd (finalizeNow st t3 r s))))"

section \<open>The flusher\<close>

definition flush_deadline :: "pipeline_config \<Rightarrow> manager \<Rightarrow> gtime" where
  "flush_deadline p m =
     (let deadline = add_time (m_finOldest m) (pc_FinalizeInterval p);
          leaseEdge = add_time (m_finMinLease m) (div_dur (- m_finMargin m) 2)
      in if leaseEdge < deadline then leaseEdge else deadline)"

definition flush_due :: "pipeline_config \<Rightarrow> gtime \<Rightarrow> manager \<Rightarrow> bool" where
  "flush_due p now m \<longleftrightarrow>
     int (length (m_finBuf m)) \<ge> pc_FinalizeBatch p \<or>
     (length (m_finBuf m) > 0 \<and> \<not> now < flush_deadline p m)"

definition flushOutcomes ::
  "'s store \<Rightarrow> (nat \<Rightarrow> gtime) \<Rightarrow> manager \<Rightarrow> 's \<Rightarrow> (int \<times> gerror option) \<times> manager \<times> 's" where
  "flushOutcomes st clock m s =
     (let buf = m_finBuf m; m1 = m\<lparr>m_finBuf := []\<rparr>
      in if buf = [] then ((0, None), m1, s)
         else case st_FinalizeBatch st clock buf s of (r, s') \<Rightarrow> (r, m1, s'))"

text \<open>
  A round of the flusher: it flushes when a trigger is due, exits with a last flush when every worker
  is done, and otherwise sleeps, at most until the deadline when something is buffered.
\<close>

datatype flusher_next = FlushAgain | FlushExit | FlushSleep "duration option"

definition flusher_round ::
  "'s store \<Rightarrow> gtime \<Rightarrow> (nat \<Rightarrow> gtime) \<Rightarrow> bool \<Rightarrow> pipeline_config \<Rightarrow> manager \<Rightarrow> 's \<Rightarrow>
    flusher_next \<times> manager \<times> 's" where
  "flusher_round st now clock workersDone p m s =
     (if flush_due p now m
      then (case flushOutcomes st clock m s of (_, m', s') \<Rightarrow> (FlushAgain, m', s'))
      else if workersDone
      then (case flushOutcomes st clock m s of (_, m', s') \<Rightarrow> (FlushExit, m', s'))
      else (FlushSleep (if m_finBuf m = [] then None else Some (sub_time (flush_deadline p m) now)),
            m\<lparr>m_finWake := False\<rparr>, s))"

section \<open>The heartbeat\<close>

definition heartbeat_interval :: "config \<Rightarrow> duration option" where
  "heartbeat_interval c =
     (let interval = c_HeartbeatInterval c
      in if interval = 0 then None
         else let iv = (if sint interval < 0 then div_dur (c_LeaseTime c) 3 else interval)
              in if sint iv \<le> 0 then None else Some iv)"

text \<open>
  One tick: the extension is not written into the task (the handler may read it). The result says
  whether the lease was lost, upon which the handler's context is cancelled and the heartbeat ends.
\<close>

definition heartbeat_tick :: "'s store \<Rightarrow> gtime \<Rightarrow> task \<Rightarrow> manager \<Rightarrow> 's \<Rightarrow> bool \<times> 's" where
  "heartbeat_tick st now t m s = (case st_ExtendLease st now t (c_LeaseTime (m_cfg m)) s of
     (Inl e, s') \<Rightarrow> (e = ErrLeaseLost, s')
   | (Inr _, s') \<Rightarrow> (False, s'))"

section \<open>The janitor\<close>

definition flush_counters :: "queue_counters amap \<Rightarrow> queue_counters amap" where
  "flush_counters cs = filter (\<lambda>(q, c). c \<noteq> zero_counters) cs"

text \<open>
  \<open>flushMetrics\<close> closes the window that began at \<open>windowStart\<close>: the counters are swapped to zero
  before they are written.
\<close>

definition flushMetrics ::
  "'s store \<Rightarrow> gtime \<Rightarrow> bool \<Rightarrow> metrics_config \<Rightarrow> manager \<Rightarrow> 's \<Rightarrow> gerror option \<times> manager \<times> 's" where
  "flushMetrics st windowStart drain mc m s =
     (let s1 = (if \<not> drain then snd (st_SnapshotMetrics st (m_queueNames m) windowStart (mc_Interval mc) s) else s);
          cs = (case m_counters m of None \<Rightarrow> [] | Some cs \<Rightarrow> cs);
          counters = flush_counters cs;
          m1 = m\<lparr>m_counters := map_option (map_vals (\<lambda>_. zero_counters)) (m_counters m)\<rparr>
      in if counters = [] then (None, m1, s1)
         else case st_RecordCounters st (m_managerID m) windowStart (mc_Interval mc) counters s1 of
           (e, s2) \<Rightarrow> (e, m1, s2))"

record janitor =
  jn_nextReap :: gtime
  jn_nextMetrics :: gtime
  jn_metricsOn :: bool

definition janitor_init :: "'s store \<Rightarrow> gtime \<Rightarrow> manager \<Rightarrow> 's \<Rightarrow> janitor \<times> 's" where
  "janitor_init st now m s =
     (let jc = c_Janitor (m_cfg m);
          nextReap = (if jc_NoReap jc then 0 else add_time now (jc_ReapInterval jc))
      in case m_metrics m of
           None \<Rightarrow> (\<lparr>jn_nextReap = nextReap, jn_nextMetrics = 0, jn_metricsOn = False\<rparr>, s)
         | Some mc \<Rightarrow> (case st_EnsureMetrics st (mc_Retention mc) s of
             (Some _, s') \<Rightarrow> (\<lparr>jn_nextReap = nextReap, jn_nextMetrics = 0, jn_metricsOn = False\<rparr>, s')
           | (None, s') \<Rightarrow> (\<lparr>jn_nextReap = nextReap,
                jn_nextMetrics = add_time (truncate_time now (mc_Interval mc)) (mc_Interval mc),
                jn_metricsOn = True\<rparr>, s')))"

definition janitor_idle :: "janitor \<Rightarrow> bool" where
  "janitor_idle j \<longleftrightarrow> is_zero (jn_nextReap j) \<and> \<not> jn_metricsOn j"

definition janitor_next :: "janitor \<Rightarrow> gtime" where
  "janitor_next j =
     (if jn_metricsOn j \<and> (is_zero (jn_nextReap j) \<or> jn_nextMetrics j < jn_nextReap j)
      then jn_nextMetrics j else jn_nextReap j)"

definition reap :: "'s store \<Rightarrow> gtime \<Rightarrow> 's \<Rightarrow> 's" where
  "reap st now s = snd (st_ReapExpired st now s)"

definition janitor_window :: "metrics_config \<Rightarrow> janitor \<Rightarrow> gtime" where
  "janitor_window mc j = add_time (jn_nextMetrics j) (- mc_Interval mc)"

text \<open>
  A round that the timer ends is two tests, each with its own reading of the clock: \<open>n0\<close> is read by
  the reap test, \<open>n1\<close> by the sweep, \<open>n2\<close> to set the next one and \<open>n3\<close> by the metrics test. A round
  that shutdown ends is \<open>janitor_drain\<close>.
\<close>

definition janitor_reap ::
  "'s store \<Rightarrow> gtime \<Rightarrow> gtime \<Rightarrow> gtime \<Rightarrow> janitor \<Rightarrow> manager \<Rightarrow> 's \<Rightarrow> janitor \<times> 's" where
  "janitor_reap st n0 n1 n2 j m s =
     (if \<not> is_zero (jn_nextReap j) \<and> \<not> n0 < jn_nextReap j
      then (j\<lparr>jn_nextReap := add_time n2 (jc_ReapInterval (c_Janitor (m_cfg m)))\<rparr>, reap st n1 s)
      else (j, s))"

definition janitor_metrics ::
  "'s store \<Rightarrow> gtime \<Rightarrow> janitor \<Rightarrow> manager \<Rightarrow> 's \<Rightarrow> janitor \<times> manager \<times> 's" where
  "janitor_metrics st n3 j m s = (case m_metrics m of
     Some mc \<Rightarrow>
       if jn_metricsOn j \<and> \<not> n3 < jn_nextMetrics j
       then (case flushMetrics st (janitor_window mc j) False mc m s of
          (_, m', s') \<Rightarrow> (j\<lparr>jn_nextMetrics := add_time (jn_nextMetrics j) (mc_Interval mc)\<rparr>, m', s'))
       else (j, m, s)
   | None \<Rightarrow> (j, m, s))"

definition janitor_round ::
  "'s store \<Rightarrow> gtime \<Rightarrow> gtime \<Rightarrow> gtime \<Rightarrow> gtime \<Rightarrow> janitor \<Rightarrow> manager \<Rightarrow> 's \<Rightarrow> janitor \<times> manager \<times> 's" where
  "janitor_round st n0 n1 n2 n3 j m s = (case janitor_reap st n0 n1 n2 j m s of
     (j1, s1) \<Rightarrow> janitor_metrics st n3 j1 m s1)"

definition janitor_drain :: "'s store \<Rightarrow> janitor \<Rightarrow> manager \<Rightarrow> 's \<Rightarrow> manager \<times> 's" where
  "janitor_drain st j m s = (case m_metrics m of
     Some mc \<Rightarrow> if jn_metricsOn j
       then (case flushMetrics st (janitor_window mc j) True mc m s of (_, m', s') \<Rightarrow> (m', s'))
       else (m, s)
   | None \<Rightarrow> (m, s))"

end
