(* ===== verification/Heartbeat.thy ===== *)
theory Heartbeat
  imports Memstore_Claims Config_Props Worker
begin

text \<open>
  The heartbeat (\<open>startHeartbeat\<close> in \<open>worker.go\<close>) over the memory store: a handler may run longer than
  the lease, as long as its heartbeat comes in time.
\<close>

text \<open>
  The goroutine's loop: before each tick, at the time the pair names, others act on the store. The
  result says whether the lease was found lost, which ends the loop and cancels the handler.
\<close>

fun heartbeat_loop :: "'s store \<Rightarrow> task \<Rightarrow> manager \<Rightarrow> (('s \<Rightarrow> 's) \<times> gtime) list \<Rightarrow> 's \<Rightarrow> bool \<times> 's" where
  "heartbeat_loop st t m [] s = (False, s)"
| "heartbeat_loop st t m ((env, now) # bs) s = (case heartbeat_tick st now t m (env s) of
     (True, s') \<Rightarrow> (True, s')
   | (False, s') \<Rightarrow> heartbeat_loop st t m bs s')"

section \<open>The test knob stays off\<close>

lemma enqueue_loop_knob: "ms_forceLeaseLost (snd (enqueue_loop ts ids s)) = ms_forceLeaseLost s"
  by (induction ts ids s rule: enqueue_loop.induct) (auto simp: Let_def split: option.splits)

lemma claim_knob: "claimOneLocked opts now s = (r, s') \<Longrightarrow> ms_forceLeaseLost s' = ms_forceLeaseLost s"
  by (auto simp: claimOneLocked_def Let_def split: option.splits)

lemma batch_knob: "ms_forceLeaseLost (snd (claim_batch_loop now opts k out s)) = ms_forceLeaseLost s"
proof (induction now opts k out s rule: claim_batch_loop.induct)
  case (1 now opts k out s)
  then show ?case
    by (subst claim_batch_loop.simps) (auto dest: claim_knob split: prod.splits option.splits)
qed

lemma write_knob:
  "ms_forceLeaseLost (snd (ms_Complete now t r s)) = ms_forceLeaseLost s"
  "ms_forceLeaseLost (snd (ms_Fail now t f ra b s)) = ms_forceLeaseLost s"
  by (auto simp: ms_Complete_def ms_Fail_def split: option.splits)

lemma finalize_knob: "ms_forceLeaseLost (snd (finalize_loop clock os n lost s)) = ms_forceLeaseLost s"
proof (induction clock os n lost s rule: finalize_loop.induct)
  case (2 clock r os n lost s)
  show ?case
  proof (cases "o_Failure r")
    case None
    with 2 write_knob(1) [of "clock n" "o_Task r" "o_Result r" s] show ?thesis
      by (cases "ms_Complete (clock n) (o_Task r) (o_Result r) s") (auto split: option.splits)
  next
    case (Some f)
    with 2 write_knob(2) [of "clock n" "o_Task r" f "o_RetryAt r" "o_Terminal r" s] show ?thesis
      by (cases "ms_Fail (clock n) (o_Task r) f (o_RetryAt r) (o_Terminal r) s") (auto split: option.splits)
  qed
qed simp

lemma call_knob: "ms_forceLeaseLost (apply_call (memstore_ops tstr) nk s) = ms_forceLeaseLost s"
proof -
  obtain now k where nk: "nk = (now, k)" by fastforce
  show ?thesis unfolding nk
  proof (cases k)
    case (CEnqueue ts)
    with enqueue_loop_knob [of ts "[]" s] show "ms_forceLeaseLost (apply_call (memstore_ops tstr) (now, k) s) = ms_forceLeaseLost s"
      by (auto simp: memstore_ops_def ms_Enqueue_def split: prod.splits sum.splits)
  next
    case (CClaim opts)
    then show "ms_forceLeaseLost (apply_call (memstore_ops tstr) (now, k) s) = ms_forceLeaseLost s"
      by (auto simp: memstore_ops_def ms_Claim_def dest: claim_knob split: prod.splits option.splits)
  next
    case (CClaimBatch opts n)
    with batch_knob [of now opts n "[]" s] show "ms_forceLeaseLost (apply_call (memstore_ops tstr) (now, k) s) = ms_forceLeaseLost s"
      by (auto simp: memstore_ops_def ms_ClaimBatch_def split: prod.splits if_splits)
  next
    case (CFinalizeBatch clock os)
    with finalize_knob [of clock os 0 0 s] show "ms_forceLeaseLost (apply_call (memstore_ops tstr) (now, k) s) = ms_forceLeaseLost s"
      by (simp add: memstore_ops_def ms_FinalizeBatch_def)
  qed (auto simp: memstore_ops_def write_knob ms_ExtendLease_def ms_Requeue_def ms_RequeueDead_def ms_RegisterQueues_def
      ms_ReapExpired_def ms_SnapshotMetrics_def ms_RecordCounters_def Let_def split: option.splits prod.splits if_splits)
qed

lemma run_knob: "ms_forceLeaseLost (run_calls (memstore_ops tstr) ks s) = ms_forceLeaseLost s"
  by (induction ks arbitrary: s) (simp_all add: call_knob)

section \<open>Beats in time\<close>

text \<open>
  The others' calls before each beat come no later than the deadline the last beat set (\<open>u\<close> at first)
  and do not write under the claim.
\<close>

fun in_time :: "task \<Rightarrow> duration \<Rightarrow> gtime \<Rightarrow> ((gtime \<times> call) list \<times> gtime) list \<Rightarrow> bool" where
  "in_time t lease u [] \<longleftrightarrow> True"
| "in_time t lease u ((ls, b) # bs) \<longleftrightarrow> calls_ok ls \<and> list_all (spares (t\<lparr>t_LeasedUntil := u\<rparr>)) ls \<and>
     in_time t lease (add_time b lease) bs"

definition deadline :: "duration \<Rightarrow> gtime \<Rightarrow> ((gtime \<times> call) list \<times> gtime) list \<Rightarrow> gtime" where
  "deadline lease u bs = (if bs = [] then u else add_time (snd (last bs)) lease)"

lemma leased_held: "sim s c \<Longrightarrow> leased c i tok u \<longleftrightarrow> (\<exists>h. held i tok s = Some h \<and> t_LeasedUntil h = u)"
proof -
  assume s: "sim s c"
  have "a_state (abs_task h) = ARunning tok u \<longleftrightarrow> t_Status h = StatusRunning \<and> t_LeaseToken h = tok \<and> t_LeasedUntil h = u" for h
    by (cases "t_Status h") simp_all
  then show ?thesis by (auto simp: leased_def sim_lookup [OF s] held_Some)
qed

lemma spared_leased:
  assumes "sim s c" "leased c (t_ID t) (t_LeaseToken t) u" "calls_ok ls" "list_all (spares (t\<lparr>t_LeasedUntil := u\<rparr>)) ls"
  shows "\<exists>d. sim (run_calls (memstore_ops tstr) ls s) d \<and> leased d (t_ID t) (t_LeaseToken t) u"
proof -
  have "\<forall>(now, k) \<in> set ls. \<forall>e \<in> call_events now k. lease_safe (t_ID t) (t_LeaseToken t) u e"
    using assms(4) spares_safe [of "t\<lparr>t_LeasedUntil := u\<rparr>"] by (fastforce simp: list_all_iff)
  then show ?thesis using mem.run_leased [OF assms(1,3,2), of tstr] by blast
qed

lemma beats_keep:
  assumes "sim s c" "leased c (t_ID t) (t_LeaseToken t) u" "\<not> ms_forceLeaseLost s"
    and "in_time t (c_LeaseTime (m_cfg m)) u bs"
    and "heartbeat_loop (memstore_ops tstr) t m (map (\<lambda>(ls, b). (run_calls (memstore_ops tstr) ls, b)) bs) s = (lost, s2)"
  shows "\<not> lost \<and> (\<exists>d. sim s2 d \<and> leased d (t_ID t) (t_LeaseToken t) (deadline (c_LeaseTime (m_cfg m)) u bs))"
  using assms
proof (induction bs arbitrary: s c u)
  case Nil
  then show ?case by (auto simp: deadline_def)
next
  case (Cons x bs)
  obtain ls b where x: "x = (ls, b)" by fastforce
  let ?l = "c_LeaseTime (m_cfg m)" and ?s = "run_calls (memstore_ops tstr) ls s"
  have ok: "calls_ok ls" "list_all (spares (t\<lparr>t_LeasedUntil := u\<rparr>)) ls" "in_time t ?l (add_time b ?l) bs"
    using Cons.prems(4) by (simp_all add: x)
  obtain d where d: "sim ?s d" "leased d (t_ID t) (t_LeaseToken t) u"
    using spared_leased [OF Cons.prems(1,2) ok(1,2)] by blast
  obtain h where h: "held (t_ID t) (t_LeaseToken t) ?s = Some h" using d leased_held by blast
  have knob: "\<not> ms_forceLeaseLost ?s" using Cons.prems(3) by (simp add: run_knob)
  let ?s' = "?s\<lparr>ms_tasks := upd (t_ID t) (h\<lparr>t_LeasedUntil := add_time b ?l\<rparr>) (ms_tasks ?s)\<rparr>"
  have ext: "ms_ExtendLease b t ?l ?s = (Inr (add_time b ?l), ?s')" using h knob by (simp add: ms_ExtendLease_def Let_def)
  have tick: "heartbeat_tick (memstore_ops tstr) b t m ?s = (False, ?s')"
    by (simp add: heartbeat_tick_def ext)
  obtain d' where d': "sim ?s' d'" using mem_extend [OF d(1) ext] by (auto simp: advances_def)
  have "held (t_ID t) (t_LeaseToken t) ?s' = Some (h\<lparr>t_LeasedUntil := add_time b ?l\<rparr>)" using h by (simp add: held_Some)
  then have l': "leased d' (t_ID t) (t_LeaseToken t) (add_time b ?l)" using leased_held [OF d'] by simp
  have "heartbeat_loop (memstore_ops tstr) t m (map (\<lambda>(ls, b). (run_calls (memstore_ops tstr) ls, b)) bs) ?s' = (lost, s2)"
    using Cons.prems(5) tick by (simp add: x)
  from Cons.IH [OF d' l' _ ok(3) this] knob show ?case by (auto simp: deadline_def x split: if_splits)
qed

lemma held_finalized:
  "held (t_ID t) (t_LeaseToken t) s = Some h \<Longrightarrow> o_Task out = t \<Longrightarrow> fst (finalizeNow (memstore_ops tstr) now out s) = None"
  by (auto simp: finalizeNow_def ms_Complete_def ms_Fail_def split: option.splits)

text \<open>
  C12: the heartbeat keeps the claim. After a claim, whatever calls others make between the beats and
  after the last one, if they come no later than the deadline the last beat set and do not write
  under the claim, the heartbeat never finds the lease lost, however long the handler runs, and the
  store accepts its outcome.
\<close>

theorem heartbeat_keeps_claim:
  assumes "calls_ok ks" "ms_Claim now opts (mem_run tstr ks) = (Inr t, s1)"
    and "in_time t (c_LeaseTime (m_cfg m)) (t_LeasedUntil t) bs"
    and "heartbeat_loop (memstore_ops tstr) t m (map (\<lambda>(ls, b). (run_calls (memstore_ops tstr) ls, b)) bs) s1 = (lost, s2)"
    and "calls_ok ls" "list_all (spares (t\<lparr>t_LeasedUntil := deadline (c_LeaseTime (m_cfg m)) (t_LeasedUntil t) bs\<rparr>)) ls"
    and "o_Task out = t"
  shows "\<not> lost \<and> fst (finalizeNow (memstore_ops tstr) later out (run_calls (memstore_ops tstr) ls s2)) = None"
proof -
  obtain c where c: "sim (mem_run tstr ks) c" using mem_run_sim [OF assms(1), of tstr] by blast
  obtain d where d: "sim s1 d" "leased d (t_ID t) (t_LeaseToken t) (t_LeasedUntil t)"
    using claim_issued [OF c assms(2)] by blast
  have "ms_forceLeaseLost s1 = ms_forceLeaseLost (mem_run tstr ks)"
    using assms(2) by (auto simp: ms_Claim_def dest: claim_knob split: prod.splits option.splits)
  then have "\<not> ms_forceLeaseLost s1" unfolding mem_run_def run_knob by (simp add: ms_New_def)
  from beats_keep [OF d this assms(3,4)] obtain e where e: "\<not> lost" "sim s2 e"
      "leased e (t_ID t) (t_LeaseToken t) (deadline (c_LeaseTime (m_cfg m)) (t_LeasedUntil t) bs)" by blast
  from spared_leased [OF e(2,3) assms(5,6)] leased_held
  obtain h where "held (t_ID t) (t_LeaseToken t) (run_calls (memstore_ops tstr) ls s2) = Some h" by blast
  with e(1) held_finalized [OF _ assms(7)] show ?thesis by blast
qed

text \<open>
  A claim at 5 ns for 10 ns, with a lease time of 60 s: beats at 14 ns and at 29 s, sweeps and a
  rival's claim before them, a sweep at 80 s, long past the first deadlines, and then the outcome.
\<close>

definition demo_beats :: "((gtime \<times> call) list \<times> gtime) list" where
  "demo_beats = [([(12, CReapExpired)], 14), ([(29000000000, CReapExpired), (29000000000, CClaim demo_opts)], 29000000000)]"

definition demo_outcome :: outcome where
  "demo_outcome = \<lparr>o_Task = demo_claimed, o_Result = [], o_Failure = None, o_RetryAt = 0, o_Terminal = False\<rparr>"

lemma demo_in_time:
  "in_time demo_claimed (c_LeaseTime (m_cfg (demo_manager []))) (t_LeasedUntil demo_claimed) demo_beats \<and>
    list_all (spares (demo_claimed\<lparr>t_LeasedUntil := deadline (c_LeaseTime (m_cfg (demo_manager []))) (t_LeasedUntil demo_claimed) demo_beats\<rparr>))
      [(80000000000, CReapExpired)]"
  by code_simp

lemma heartbeat_keeps_claim_witness:
  "\<exists>s2. heartbeat_loop (memstore_ops (\<lambda>_. [])) demo_claimed (demo_manager [])
      (map (\<lambda>(ls, b). (run_calls (memstore_ops (\<lambda>_. [])) ls, b)) demo_beats) demo_store1 = (False, s2) \<and>
    fst (finalizeNow (memstore_ops (\<lambda>_. [])) 85000000000 demo_outcome
      (run_calls (memstore_ops (\<lambda>_. [])) [(80000000000, CReapExpired)] s2)) = None"
proof -
  obtain lost s2 where l: "heartbeat_loop (memstore_ops (\<lambda>_. [])) demo_claimed (demo_manager [])
      (map (\<lambda>(ls, b). (run_calls (memstore_ops (\<lambda>_. [])) ls, b)) demo_beats) demo_store1 = (lost, s2)" by fastforce
  have ok: "calls_ok [(80000000000, CReapExpired)]" "o_Task demo_outcome = demo_claimed" by (simp_all add: demo_outcome_def)
  have "\<not> lost \<and> fst (finalizeNow (memstore_ops (\<lambda>_. [])) 85000000000 demo_outcome
      (run_calls (memstore_ops (\<lambda>_. [])) [(80000000000, CReapExpired)] s2)) = None"
    by (rule heartbeat_keeps_claim [OF demo_ok demo_claim [unfolded demo_store_def] conjunct1 [OF demo_in_time] l
      ok(1) conjunct2 [OF demo_in_time] ok(2)])
  with l show ?thesis by (intro exI [of _ s2]) (cases lost, simp_all)
qed

end
