(* ===== verification/Fetcher.thy ===== *)
theory Fetcher
  imports Worker
begin

text \<open>
  Pipeline mode: \<open>fetcher.go\<close>. One fetcher claims batches under the queue lease into a bounded
  channel; workers take a task, revalidate it with one \<open>ExtendLease\<close> and run it. The channel is the
  list \<open>m_taskCh\<close> with the capacity \<open>channel_cap\<close> that \<open>Start\<close> gives it.
\<close>

datatype fetch_next = FetchExit | FetchWaitNudge | FetchPause | FetchIdle | FetchAgain | FetchBlocked "task list"

definition low_water :: "pipeline_config \<Rightarrow> int" where
  "low_water p = max 1 (pc_ClaimBatch p div 2)"

definition channel_free :: "manager \<Rightarrow> int" where
  "channel_free m = channel_cap m - int (length (m_taskCh m))"

text \<open>
  The send loop. Every claimed task is counted first; \<open>cancel_at\<close> is the send, if any, at which the
  done claim context wins, which drops that task and the rest. A full channel would block.
\<close>

fun deliver :: "task list \<Rightarrow> nat option \<Rightarrow> manager \<Rightarrow> fetch_next \<times> manager" where
  "deliver [] cancel_at m = (FetchAgain, m)"
| "deliver (t # ts) cancel_at m =
     (let m1 = note_claimed t m
      in if cancel_at = Some 0 then (FetchExit, m1)
         else if channel_free m1 \<le> 0 then (FetchBlocked (t # ts), m1)
         else deliver ts (map_option (\<lambda>n. n - 1) cancel_at) (m1\<lparr>m_taskCh := m_taskCh m1 @ [t]\<rparr>))"

definition fetcher_id :: "manager \<Rightarrow> string" where
  "fetcher_id m = m_managerID m @ ''.fetcher''"

definition fetch_round ::
  "'s store \<Rightarrow> gtime \<Rightarrow> bool \<Rightarrow> nat option \<Rightarrow> pipeline_config \<Rightarrow> manager \<Rightarrow> 's \<Rightarrow>
    fetch_next \<times> manager \<times> 's" where
  "fetch_round st now cancelled cancel_at p m s =
     (if m_claimDone m then (FetchExit, m, s)
      else if channel_free m < low_water p then (FetchWaitNudge, m, s)
      else case st_ClaimBatch st now (claimOptions (fetcher_id m) (pc_QueueLease p) m)
                  (min (pc_ClaimBatch p) (channel_free m)) s of
        (Inr ts, s') \<Rightarrow>
          (case deliver ts cancel_at m of (nx, m') \<Rightarrow>
             (if nx = FetchAgain \<and> ts = [] then FetchPause else nx, m', s'))
      | (Inl e, s') \<Rightarrow>
          if e = ErrNoTask then (FetchIdle, m, s')
          else if cancelled then (FetchExit, m, s') else (FetchIdle, m, s'))"

text \<open>A worker's receive from the channel, with its nudge to the fetcher.\<close>

definition take_task :: "manager \<Rightarrow> (task \<times> manager) option" where
  "take_task m = (case m_taskCh m of
     [] \<Rightarrow> None
   | t # ts \<Rightarrow> Some (t, m\<lparr>m_taskCh := ts, m_fetchNudge := True\<rparr>))"

text \<open>
  The start-of-work handshake: a lease that is over drops the task; otherwise at most two tries to
  extend it, of which \<open>n\<close> is what is left and \<open>clock n\<close> the time the store reads. The second
  component is the task with its new deadline, when this worker may run it.
\<close>

fun start_tries ::
  "'s store \<Rightarrow> (nat \<Rightarrow> gtime) \<Rightarrow> nat \<Rightarrow> task \<Rightarrow> manager \<Rightarrow> 's \<Rightarrow> task option \<times> 's" where
  "start_tries st clock 0 t m s = (None, s)"
| "start_tries st clock (Suc n) t m s =
     (case st_ExtendLease st (clock n) t (c_LeaseTime (m_cfg m)) s of
        (Inr u, s') \<Rightarrow> (Some (t\<lparr>t_LeasedUntil := u\<rparr>), s')
      | (Inl e, s') \<Rightarrow> if e = ErrLeaseLost then (None, s') else start_tries st clock n t m s')"

definition startOfWork ::
  "'s store \<Rightarrow> gtime \<Rightarrow> (nat \<Rightarrow> gtime) \<Rightarrow> task \<Rightarrow> manager \<Rightarrow> 's \<Rightarrow> task option \<times> 's" where
  "startOfWork st now clock t m s =
     (if \<not> now < t_LeasedUntil t then (None, s) else start_tries st clock 2 t m s)"

text \<open>
  A round of a pipeline worker. When the claim context is done and a task waits as well, \<open>stop\<close> says
  which case of the \<open>select\<close> wins; \<open>now\<close> and \<open>clock\<close> are what the handshake reads, \<open>t0\<close> to \<open>t3\<close> what
  \<open>process\<close> reads. The flag of the result says whether the loop goes on.
\<close>

definition batch_worker_round ::
  "'s store \<Rightarrow> jitter_source \<Rightarrow> string \<Rightarrow> bool \<Rightarrow> gtime \<Rightarrow> (nat \<Rightarrow> gtime) \<Rightarrow> gtime \<Rightarrow> gtime \<Rightarrow> gtime \<Rightarrow> gtime \<Rightarrow>
    manager \<Rightarrow> 's \<Rightarrow> panic + bool \<times> manager \<times> 's" where
  "batch_worker_round st rnd wid stop now clock t0 t1 t2 t3 m s =
     (if m_claimDone m \<and> (stop \<or> m_taskCh m = []) then Inr (False, m, s)
      else case take_task m of
        None \<Rightarrow> Inr (True, m, s)
      | Some (t, m1) \<Rightarrow> (case startOfWork st now clock t m1 s of
          (None, s') \<Rightarrow> Inr (True, m1, s')
        | (Some t', s') \<Rightarrow> map_sum id (Pair True) (process st rnd wid t0 t1 t2 t3 t' m1 s')))"

text \<open>A task whose queue lease is over is dropped: nothing is run, nothing is written.\<close>

lemma batch_worker_drops:
  assumes "m_taskCh m = t # ts" "t_LeasedUntil t \<le> now" "\<not> (m_claimDone m \<and> stop)"
  shows "batch_worker_round st rnd wid stop now clock t0 t1 t2 t3 m s =
    Inr (True, m\<lparr>m_taskCh := ts, m_fetchNudge := True\<rparr>, s)"
  using assms by (auto simp: batch_worker_round_def take_task_def startOfWork_def)

text \<open>A task whose claim the store refuses to extend is dropped too.\<close>

lemma batch_worker_lost:
  assumes "m_taskCh m = t # ts" "now < t_LeasedUntil t" "\<not> (m_claimDone m \<and> stop)"
    and "st_ExtendLease st (clock 1) t (c_LeaseTime (m_cfg m)) s = (Inl ErrLeaseLost, s')"
  shows "batch_worker_round st rnd wid stop now clock t0 t1 t2 t3 m s =
    Inr (True, m\<lparr>m_taskCh := ts, m_fetchNudge := True\<rparr>, s')"
  using assms by (auto simp: batch_worker_round_def take_task_def startOfWork_def numeral_2_eq_2)

end
