(* ===== verification/Shutdown.thy ===== *)
theory Shutdown
  imports Fetcher Config_Props Memstore_Claims
begin

text \<open>
  The life of a manager's pool (\<open>manager.go\<close>): the goroutines \<open>Start\<close> launches, the broadcast that
  wakes idle workers, \<open>Run\<close> and \<open>Close\<close>; and the end of the flusher, which drains the finalize buffer
  (\<open>worker.go\<close>).
\<close>

section \<open>Goroutines\<close>

datatype goroutine =
    FetcherLoop
  | BatchWorkerLoop string
  | WorkerLoop string
  | NudgeFan
  | AwaitWorkers
  | FlusherLoop
  | JanitorLoop

text \<open>
  What \<open>Start\<close> launches on the manager it has prepared, in order. The wait for the workers and the
  flusher come after every worker, so the wait counts them all.
\<close>

definition launch :: "manager \<Rightarrow> goroutine list" where
  "launch m =
     (let ids = map (worker_id m) [0..<nat (c_Workers (m_cfg m))]
      in (if m_pipeline m \<noteq> None then FetcherLoop # map BatchWorkerLoop ids
          else (if m_watching m then [NudgeFan] else []) @ map WorkerLoop ids) @
         (if finalizeOn m then [AwaitWorkers, FlusherLoop] else []) @
         (if janitor_needed m then [JanitorLoop] else []))"

section \<open>The broadcast\<close>

text \<open>
  A channel is its number; the broadcaster's current one is open and every earlier one is closed, so a
  wait on it returns.
\<close>

record broadcaster =
  bc_ch :: nat
  bc_closed :: "nat set"

definition newBroadcaster :: broadcaster where
  "newBroadcaster = \<lparr>bc_ch = 0, bc_closed = {}\<rparr>"

definition bc_wait :: "broadcaster \<Rightarrow> nat" where
  "bc_wait b = bc_ch b"

definition bc_signal :: "broadcaster \<Rightarrow> broadcaster" where
  "bc_signal b = \<lparr>bc_ch = Suc (bc_ch b), bc_closed = insert (bc_ch b) (bc_closed b)\<rparr>"

text \<open>What ends an idle wait: the poll interval, the end of claiming, or a nudge on what it waits on.\<close>

datatype wake_source = NoWake | OnBroadcast nat | OnStream

definition idle_wakeup :: "broadcaster \<Rightarrow> manager \<Rightarrow> wake_source" where
  "idle_wakeup b m = (if \<not> m_watching m then NoWake
     else if m_pipeline m = None then OnBroadcast (bc_wait b) else OnStream)"

section \<open>Run and Close\<close>

text \<open>
  \<open>Run\<close>: \<open>pool\<close> is what the goroutines do from the start of the pool to the end of the caller's
  context, \<open>expired\<close> whether the 30 seconds of grace pass before they return.
\<close>

definition Run ::
  "'s store \<Rightarrow> bool \<Rightarrow> (manager \<Rightarrow> 's \<Rightarrow> manager \<times> 's) \<Rightarrow> bool \<Rightarrow> manager \<Rightarrow> 's \<Rightarrow>
    gerror option \<times> manager \<times> 's" where
  "Run st watch pool expired m s = (case Start st watch m s of
     (Some e, m1, s1) \<Rightarrow> (Some e, m1, s1)
   | (None, m1, s1) \<Rightarrow>
       (case pool m1 s1 of (m2, s2) \<Rightarrow>
          (case Stop expired m2 of (ok, m3) \<Rightarrow>
             (if ok then None else Some (ErrOther ''context deadline exceeded''), m3, s2))))"

text \<open>\<open>Close\<close>: the store's own error comes first.\<close>

definition Close_manager :: "gerror option \<Rightarrow> gerror \<Rightarrow> bool \<Rightarrow> manager \<Rightarrow> gerror option \<times> manager" where
  "Close_manager store_close ctx_err expired m = (case Stop expired m of
     (ok, m1) \<Rightarrow> (case store_close of
        Some e \<Rightarrow> (Some e, m1)
      | None \<Rightarrow> (if ok then None else Some ctx_err, m1)))"

section \<open>Draining\<close>

text \<open>The flusher's loop once every worker has returned, for at most \<open>n\<close> rounds.\<close>

fun drain ::
  "'s store \<Rightarrow> (nat \<Rightarrow> gtime) \<Rightarrow> (nat \<Rightarrow> nat \<Rightarrow> gtime) \<Rightarrow> pipeline_config \<Rightarrow> nat \<Rightarrow> manager \<Rightarrow> 's \<Rightarrow>
    (manager \<times> 's) option" where
  "drain st now clock p 0 m s = None"
| "drain st now clock p (Suc n) m s = (case flusher_round st (now n) (clock n) True p m s of
     (FlushExit, m', s') \<Rightarrow> Some (m', s')
   | (_, m', s') \<Rightarrow> drain st now clock p n m' s')"

lemma flushed_state: "flushOutcomes st clock m s = (r, m', s') \<Longrightarrow> m' = m\<lparr>m_finBuf := []\<rparr> \<and>
    (if m_finBuf m = [] then s' = s else s' = snd (st_FinalizeBatch st clock (m_finBuf m) s))"
  by (auto simp: flushOutcomes_def Let_def split: if_splits prod.splits)

lemma not_due_empty: "0 < pc_FinalizeBatch p \<Longrightarrow> m_finBuf m = [] \<Longrightarrow> \<not> flush_due p now m"
  by (simp add: flush_due_def)

lemma drain_exits:
  assumes "0 < pc_FinalizeBatch p"
  shows "\<exists>j s'. drain st now clock p 2 m s = Some (m\<lparr>m_finBuf := []\<rparr>, s') \<and>
    (if m_finBuf m = [] then s' = s else s' = snd (st_FinalizeBatch st (clock j) (m_finBuf m) s))"
proof -
  obtain r m1 s1 where f: "flushOutcomes st (clock 1) m s = (r, m1, s1)" by (metis prod_cases3)
  note st = flushed_state [OF f]
  show ?thesis
  proof (cases "flush_due p (now 1) m")
    case True
    then have ne: "m_finBuf m \<noteq> []" using not_due_empty [OF assms] by blast
    have "\<not> flush_due p (now 0) (m\<lparr>m_finBuf := []\<rparr>)" by (rule not_due_empty [OF assms]) simp
    with True f st ne show ?thesis
      by (simp add: numeral_2_eq_2 flusher_round_def flushOutcomes_def [of st "clock 0"] Let_def) blast
  next
    case False
    with f st show ?thesis by (simp add: numeral_2_eq_2 flusher_round_def) blast
  qed
qed


definition demo_pipeline :: manager where
  "demo_pipeline = demo_manager [OPipelineMode 0]"

lemma demo_flusher: "FlusherLoop \<in> set (launch demo_pipeline) \<and> m_pipeline demo_pipeline \<noteq> None"
  by code_simp

definition demo_draining :: manager where
  "demo_draining = demo_pipeline\<lparr>m_finBuf := [\<lparr>o_Task = demo_task ''q'' [] 0, o_Result = [], o_Failure = None,
     o_RetryAt = 0, o_Terminal = False\<rparr>]\<rparr>"


end
