(* ===== verification/Mongo_Doc.thy ===== *)
theory Mongo_Doc
  imports Core_Types
begin

text \<open>
  The documents, filters and updates that \<open>stores/mongostore\<close> sends to MongoDB, as data, and what
  the server's manual says they mean. The Go code builds them as \<open>bson.M\<close> and \<open>bson.D\<close> values; here
  they are datatypes with one constructor per operator the code uses. The meaning is the
  documented one of these operators and is used only to state what the server promises (theory
  \<open>Mongo_Driver\<close>); the server itself is a parameter.
\<close>

section \<open>Documents\<close>

text \<open>
  An \<open>ObjectID\<close> is the number its twelve bytes make, in their order. A document is an association
  list of fields. BSON dates count milliseconds: \<open>bson_ms\<close> is what is left of a \<open>time.Time\<close>.
\<close>

type_synonym oid = nat

datatype bval =
    BNull
  | BStr string
  | BInt int
  | BTime gtime
  | BOid oid
  | BArr "bval list"
  | BDoc "(string \<times> bval) list"

type_synonym bdoc = "bval amap"

definition bson_ms :: "gtime \<Rightarrow> gtime" where
  "bson_ms t = t - t mod 1000000"

text \<open>The order of values of one type; values of different types never compare in a filter.\<close>

fun blt :: "bval \<Rightarrow> bval \<Rightarrow> bool" where
  "blt (BStr a) (BStr b) \<longleftrightarrow> a < b"
| "blt (BInt a) (BInt b) \<longleftrightarrow> a < b"
| "blt (BTime a) (BTime b) \<longleftrightarrow> a < b"
| "blt (BOid a) (BOid b) \<longleftrightarrow> a < b"
| "blt _ _ \<longleftrightarrow> False"

fun ble :: "bval \<Rightarrow> bval \<Rightarrow> bool" where
  "ble (BStr a) (BStr b) \<longleftrightarrow> a \<le> b"
| "ble (BInt a) (BInt b) \<longleftrightarrow> a \<le> b"
| "ble (BTime a) (BTime b) \<longleftrightarrow> a \<le> b"
| "ble (BOid a) (BOid b) \<longleftrightarrow> a \<le> b"
| "ble _ _ \<longleftrightarrow> False"

section \<open>Filters\<close>

datatype cond =
    CEq bval
  | CLt bval
  | CLte bval
  | CGt bval
  | CGte bval
  | CIn "bval list"
  | CExists

text \<open>
  A filter document is a conjunction of its entries. \<open>FExprLt a b\<close> is
  \<open>$expr: {$lt: [$a, $b]}\<close>, which compares two fields of the document.
\<close>

datatype bfilter =
    FField string cond
  | FOr "bfilter list"
  | FAnd "bfilter list"
  | FExprLt string string
  | FExprGte string string

fun cond_holds :: "cond \<Rightarrow> bval option \<Rightarrow> bool" where
  "cond_holds _ None \<longleftrightarrow> False"
| "cond_holds (CEq v) (Some w) \<longleftrightarrow> w = v"
| "cond_holds (CLt v) (Some w) \<longleftrightarrow> blt w v"
| "cond_holds (CLte v) (Some w) \<longleftrightarrow> ble w v"
| "cond_holds (CGt v) (Some w) \<longleftrightarrow> blt v w"
| "cond_holds (CGte v) (Some w) \<longleftrightarrow> ble v w"
| "cond_holds (CIn vs) (Some w) \<longleftrightarrow> w \<in> set vs"
| "cond_holds CExists (Some w) \<longleftrightarrow> True"

text \<open>
  Sorting and aggregation expressions compare values of all types: by type first, in BSON's order of
  types, a missing field below everything.
\<close>

fun type_rank :: "bval \<Rightarrow> nat" where
  "type_rank BNull = 0"
| "type_rank (BInt _) = 1"
| "type_rank (BStr _) = 2"
| "type_rank (BDoc _) = 3"
| "type_rank (BArr _) = 4"
| "type_rank (BOid _) = 5"
| "type_rank (BTime _) = 6"

definition vlt :: "bval \<Rightarrow> bval \<Rightarrow> bool" where
  "vlt v w \<longleftrightarrow> type_rank v < type_rank w \<or> (type_rank v = type_rank w \<and> blt v w)"

fun expr_lt :: "bval option \<Rightarrow> bval option \<Rightarrow> bool" where
  "expr_lt (Some v) (Some w) \<longleftrightarrow> vlt v w"
| "expr_lt None (Some w) \<longleftrightarrow> True"
| "expr_lt _ None \<longleftrightarrow> False"

fun fmatch :: "bfilter \<Rightarrow> bdoc \<Rightarrow> bool" where
  "fmatch (FField k c) d \<longleftrightarrow> cond_holds c (map_of d k)"
| "fmatch (FOr fs) d \<longleftrightarrow> list_ex (\<lambda>f. fmatch f d) fs"
| "fmatch (FAnd fs) d \<longleftrightarrow> list_all (\<lambda>f. fmatch f d) fs"
| "fmatch (FExprLt a b) d \<longleftrightarrow> expr_lt (map_of d a) (map_of d b)"
| "fmatch (FExprGte a b) d \<longleftrightarrow> \<not> expr_lt (map_of d a) (map_of d b)"

section \<open>Updates\<close>

datatype uop =
    USet bdoc
  | UInc "(string \<times> int) list"
  | UUnset "string list"
  | UPush string bval
  | USetOnInsert bdoc

text \<open>The expressions of an update with an aggregation pipeline.\<close>

datatype aexpr =
    ALit bval
  | AField string
  | AArr "aexpr list"
  | AObj "(string \<times> aexpr) list"
  | AIfNull aexpr aexpr
  | AConcat "aexpr list"

datatype stage = SSet "(string \<times> aexpr) list" | SUnset "string list"

datatype update = UpOps "uop list" | UpPipe "stage list"

definition set_fields :: "bdoc \<Rightarrow> bdoc \<Rightarrow> bdoc" where
  "set_fields fs d = fold (\<lambda>(k, v). upd k v) fs d"

definition unset_fields :: "string list \<Rightarrow> bdoc \<Rightarrow> bdoc" where
  "unset_fields ks d = filter (\<lambda>(k, v). k \<notin> set ks) d"

definition inc_field :: "string \<Rightarrow> int \<Rightarrow> bdoc \<Rightarrow> bdoc" where
  "inc_field k n d = (case map_of d k of
     None \<Rightarrow> upd k (BInt n) d
   | Some (BInt m) \<Rightarrow> upd k (BInt (m + n)) d
   | Some _ \<Rightarrow> d)"

definition push_field :: "string \<Rightarrow> bval \<Rightarrow> bdoc \<Rightarrow> bdoc" where
  "push_field k v d = (case map_of d k of
     None \<Rightarrow> upd k (BArr [v]) d
   | Some (BArr vs) \<Rightarrow> upd k (BArr (vs @ [v])) d
   | Some _ \<Rightarrow> d)"

fun uapply_op :: "uop \<Rightarrow> bdoc \<Rightarrow> bdoc" where
  "uapply_op (USet fs) d = set_fields fs d"
| "uapply_op (UInc fs) d = fold (\<lambda>(k, n). inc_field k n) fs d"
| "uapply_op (UUnset ks) d = unset_fields ks d"
| "uapply_op (UPush k v) d = push_field k v d"
| "uapply_op (USetOnInsert fs) d = d"

definition or_null :: "bval option \<Rightarrow> bval" where
  "or_null v = (case v of None \<Rightarrow> BNull | Some w \<Rightarrow> w)"

fun concat_arrays :: "bval list \<Rightarrow> bval" where
  "concat_arrays [] = BArr []"
| "concat_arrays (BArr vs # ws) = (case concat_arrays ws of BArr us \<Rightarrow> BArr (vs @ us) | _ \<Rightarrow> BNull)"
| "concat_arrays _ = BNull"

fun aeval :: "bdoc \<Rightarrow> aexpr \<Rightarrow> bval option" where
  "aeval d (ALit v) = Some v"
| "aeval d (AField k) = map_of d k"
| "aeval d (AArr es) = Some (BArr (map (\<lambda>e. or_null (aeval d e)) es))"
| "aeval d (AObj fs) = Some (BDoc (concat (map (\<lambda>(k, e).
     case aeval d e of None \<Rightarrow> [] | Some v \<Rightarrow> [(k, v)]) fs)))"
| "aeval d (AIfNull e f) = (if or_null (aeval d e) = BNull then aeval d f else aeval d e)"
| "aeval d (AConcat es) = Some (concat_arrays (map (\<lambda>e. or_null (aeval d e)) es))"

definition set_exprs :: "(string \<times> aexpr) list \<Rightarrow> bdoc \<Rightarrow> bdoc" where
  "set_exprs fs d = fold (\<lambda>(k, e) d'. case aeval d e of None \<Rightarrow> d' | Some v \<Rightarrow> upd k v d') fs d"

fun sapply :: "stage \<Rightarrow> bdoc \<Rightarrow> bdoc" where
  "sapply (SSet fs) d = set_exprs fs d"
| "sapply (SUnset ks) d = unset_fields ks d"

fun uapply :: "update \<Rightarrow> bdoc \<Rightarrow> bdoc" where
  "uapply (UpOps us) d = fold uapply_op us d"
| "uapply (UpPipe ss) d = fold sapply ss d"

text \<open>
  An upsert that matches nothing inserts the filter's equalities with the update applied, the
  fields of \<open>$setOnInsert\<close> included.
\<close>

fun filter_eqs :: "bfilter \<Rightarrow> bdoc" where
  "filter_eqs (FField k (CEq v)) = [(k, v)]"
| "filter_eqs (FAnd fs) = concat (map filter_eqs fs)"
| "filter_eqs _ = []"

fun insert_op :: "uop \<Rightarrow> bdoc \<Rightarrow> bdoc" where
  "insert_op (USetOnInsert fs) d = set_fields fs d"
| "insert_op u d = uapply_op u d"

fun upsert_doc :: "bfilter \<Rightarrow> update \<Rightarrow> bdoc" where
  "upsert_doc f (UpOps us) = fold insert_op us (filter_eqs f)"
| "upsert_doc f (UpPipe ss) = fold sapply ss (filter_eqs f)"

section \<open>Sorting\<close>

text \<open>A sort document: fields with their direction, \<open>True\<close> for ascending.\<close>

type_synonym bsort = "(string \<times> bool) list"

fun sort_le :: "bsort \<Rightarrow> bdoc \<Rightarrow> bdoc \<Rightarrow> bool" where
  "sort_le [] d e \<longleftrightarrow> True"
| "sort_le ((k, asc) # ks) d e \<longleftrightarrow>
     (let x = map_of d k; y = map_of e k
      in (if asc then expr_lt x y else expr_lt y x) \<or>
         (\<not> (if asc then expr_lt y x else expr_lt x y) \<and> sort_le ks d e))"

definition project :: "string list \<Rightarrow> bdoc \<Rightarrow> bdoc" where
  "project ks d = (if ks = [] then d else filter (\<lambda>(k, v). k \<in> set (''_id'' # ks)) d)"

section \<open>Facts\<close>

lemma bson_ms_le: "bson_ms t \<le> t"
  by (simp add: bson_ms_def)

lemma bson_ms_idem [simp]: "bson_ms (bson_ms t) = bson_ms t"
  by (simp add: bson_ms_def mod_diff_left_eq [symmetric])

lemma bson_ms_mono: "s \<le> t \<Longrightarrow> bson_ms s \<le> bson_ms t"
  by (simp add: bson_ms_def minus_mod_eq_div_mult zdiv_mono1)

lemma lookup_unset [simp]: "map_of (unset_fields ks d) k = (if k \<in> set ks then None else map_of d k)"
  unfolding unset_fields_def by (induction d) auto

lemma set_fields_simps [simp]:
  "set_fields [] d = d" "set_fields ((k, v) # fs) d = set_fields fs (upd k v d)"
  by (simp_all add: set_fields_def)

lemma lookup_set_fields:
  "distinct (keys fs) \<Longrightarrow> map_of (set_fields fs d) k = (case map_of fs k of None \<Rightarrow> map_of d k | Some v \<Rightarrow> Some v)"
proof (induction fs arbitrary: d)
  case (Cons kv fs)
  obtain q v where kv: "kv = (q, v)" by fastforce
  then have "map_of fs q = None" using Cons.prems by (simp add: map_of_eq_None_iff)
  with Cons kv show ?case by (auto split: option.splits)
qed simp

lemma lookup_inc:
  "map_of d k = Some (BInt m) \<Longrightarrow> map_of (inc_field k n d) j = (if j = k then Some (BInt (m + n)) else map_of d j)"
  by (simp add: inc_field_def)

lemma lookup_inc_other [simp]: "j \<noteq> k \<Longrightarrow> map_of (inc_field k n d) j = map_of d j"
  by (auto simp: inc_field_def split: option.splits bval.splits)

lemma lookup_push_other [simp]: "j \<noteq> k \<Longrightarrow> map_of (push_field k v d) j = map_of d j"
  by (auto simp: push_field_def split: option.splits bval.splits)

text \<open>The sort order is a total preorder, whatever the fields hold.\<close>

lemma vlt_irrefl: "\<not> vlt v v"
  by (cases v) (simp_all add: vlt_def)

lemma vlt_asym: "vlt v w \<Longrightarrow> \<not> vlt w v"
  by (cases v; cases w) (auto simp: vlt_def)

lemma vlt_neg_trans: "vlt u w \<Longrightarrow> vlt u v \<or> vlt v w"
  by (cases u; cases v; cases w) (auto simp: vlt_def)

lemma expr_lt_asym: "expr_lt x y \<Longrightarrow> \<not> expr_lt y x"
  by (cases "(x, y)" rule: expr_lt.cases) (auto dest: vlt_asym)

lemma expr_lt_neg_trans: "expr_lt x z \<Longrightarrow> expr_lt x y \<or> expr_lt y z"
  by (cases x; cases y; cases z) (auto dest: vlt_neg_trans)

lemma sort_le_total: "sort_le ks d e \<or> sort_le ks e d"
  by (induction ks) (auto simp: Let_def split: prod.splits)

lemma sort_le_trans: "sort_le ks c d \<Longrightarrow> sort_le ks d e \<Longrightarrow> sort_le ks c e"
proof (induction ks)
  case (Cons ka ks)
  obtain k asc where ka: "ka = (k, asc)" by fastforce
  let ?lt = "\<lambda>x y. if asc then expr_lt x y else expr_lt y x"
  have neg: "?lt x z \<Longrightarrow> ?lt x y \<or> ?lt y z" and asym: "?lt x y \<Longrightarrow> \<not> ?lt y x" for x y z
    using expr_lt_neg_trans expr_lt_asym by (auto split: if_splits)
  let ?c = "map_of c k" and ?d = "map_of d k" and ?e = "map_of e k"
  have 1: "?lt ?c ?d \<or> \<not> ?lt ?d ?c \<and> sort_le ks c d" and 2: "?lt ?d ?e \<or> \<not> ?lt ?e ?d \<and> sort_le ks d e"
    using Cons.prems by (simp_all add: ka Let_def)
  have "?lt ?c ?e \<or> \<not> ?lt ?e ?c \<and> sort_le ks c e"
    using 1 2 neg [of ?c ?d ?e] neg [of ?d ?e ?c] neg [of ?e ?c ?d] asym Cons.IH by meson
  then show ?case by (simp add: ka Let_def)
qed simp

end
