(* ===== verification/Mongo_Driver.thy ===== *)
theory Mongo_Driver
  imports Mongo_Doc
begin

text \<open>
  The Go driver and the MongoDB server behind it, neither of which is in the repository: a record
  of the calls \<open>stores/mongostore\<close> makes, over an unknown state \<open>'s\<close>, and as a locale the documented
  behaviour the code relies on. Every call may fail with any error, and a failed write may have been
  applied in part; which of several matching documents a single-document write takes, and the order
  of an unsorted read, are left open. The indexes are those the store itself creates.
\<close>

section \<open>The calls\<close>

datatype coll = TasksCol | QueuesCol | MetricsCol

text \<open>
  The errors the code tells apart: \<open>ErrNoDocuments\<close>, a \<open>BulkWriteException\<close> with its write errors
  (index, code, message), a duplicate-key error, a command error with its code, and all others.
\<close>

datatype serr =
    NoDocuments
  | BulkWriteErrors "(nat \<times> int \<times> string) list"
  | DuplicateKey string
  | CommandError int
  | ServerErr string

text \<open>\<open>mongo.IsDuplicateKeyError\<close>.\<close>

fun is_dup_key :: "serr \<Rightarrow> bool" where
  "is_dup_key (DuplicateKey _) \<longleftrightarrow> True"
| "is_dup_key (BulkWriteErrors ws) \<longleftrightarrow> list_ex (\<lambda>(j, code, msg). code = 11000) ws"
| "is_dup_key _ \<longleftrightarrow> False"

text \<open>
  The ids and codecs of the driver (\<open>ObjectID\<close>, \<open>Hex\<close>, \<open>ObjectIDFromHex\<close>, \<open>uuid.NewString\<close>, extended
  JSON to BSON and back), and the collection methods. A read leaves the state alone. A sort of no
  fields is no sort; a projection of no fields is the whole document. \<open>dv_UpdateOne\<close>'s flag is the
  upsert; it and \<open>dv_BulkWrite\<close> return the matched count, \<open>dv_UpdateMany\<close> the modified count.
  \<open>dv_GroupSum\<close> is \<open>$match\<close> then \<open>$group\<close> by one field with sums of others.
\<close>

record 's driver =
  dv_ObjectID :: "'s \<Rightarrow> oid \<times> 's"
  dv_uuid :: "'s \<Rightarrow> string \<times> 's"
  dv_hex :: "oid \<Rightarrow> string"
  dv_unhex :: "string \<Rightarrow> oid option"
  dv_toBSON :: "json \<Rightarrow> string + bdoc"
  dv_toJSON :: "bdoc \<Rightarrow> string + json"
  dv_InsertOne :: "coll \<Rightarrow> bdoc \<Rightarrow> 's \<Rightarrow> serr option \<times> 's"
  dv_InsertMany :: "coll \<Rightarrow> bdoc list \<Rightarrow> 's \<Rightarrow> serr option \<times> 's"
  dv_FindOneAndUpdate :: "coll \<Rightarrow> bfilter \<Rightarrow> update \<Rightarrow> bsort \<Rightarrow> 's \<Rightarrow> (serr + bdoc) \<times> 's"
  dv_UpdateOne :: "coll \<Rightarrow> bfilter \<Rightarrow> update \<Rightarrow> bool \<Rightarrow> 's \<Rightarrow> (serr + int) \<times> 's"
  dv_UpdateMany :: "coll \<Rightarrow> bfilter \<Rightarrow> update \<Rightarrow> 's \<Rightarrow> (serr + int) \<times> 's"
  dv_BulkWrite :: "coll \<Rightarrow> (bfilter \<times> update) list \<Rightarrow> 's \<Rightarrow> (serr + int) \<times> 's"
  dv_DeleteOne :: "coll \<Rightarrow> bfilter \<Rightarrow> 's \<Rightarrow> (serr + int) \<times> 's"
  dv_Find :: "coll \<Rightarrow> bfilter \<Rightarrow> bsort \<Rightarrow> nat option \<Rightarrow> string list \<Rightarrow> 's \<Rightarrow> serr + bdoc list"
  dv_FindOne :: "coll \<Rightarrow> bfilter \<Rightarrow> bsort \<Rightarrow> string list \<Rightarrow> 's \<Rightarrow> serr + bdoc"
  dv_Count :: "coll \<Rightarrow> bfilter \<Rightarrow> 's \<Rightarrow> serr + int"
  dv_GroupSum :: "coll \<Rightarrow> bfilter \<Rightarrow> string \<Rightarrow> string list \<Rightarrow> 's \<Rightarrow> serr + bdoc list"
  dv_CreateMetricsIndexes :: "int \<Rightarrow> 's \<Rightarrow> serr option \<times> 's"
  dv_CollModTTL :: "int \<Rightarrow> 's \<Rightarrow> serr option \<times> 's"

section \<open>What the calls do\<close>

text \<open>
  What can be observed of a state: whether it is sound, the documents of each collection by \<open>_id\<close>,
  and the object ids and uuids handed out so far.
\<close>

type_synonym table = "bval \<rightharpoonup> bdoc"

record 's mview =
  mv_ok :: "'s \<Rightarrow> bool"
  mv_db :: "'s \<Rightarrow> coll \<Rightarrow> table"
  mv_ids :: "'s \<Rightarrow> oid set"
  mv_tokens :: "'s \<Rightarrow> string set"

definition doc_id :: "bdoc \<Rightarrow> bval" where
  "doc_id d = the (map_of d ''_id'')"

definition hits :: "bfilter \<Rightarrow> table \<Rightarrow> bval set" where
  "hits f m = {i. \<exists>d. m i = Some d \<and> fmatch f d}"

text \<open>The unique indexes: two documents that may not both be in the collection.\<close>

fun clash :: "coll \<Rightarrow> bdoc \<Rightarrow> bdoc \<Rightarrow> bool" where
  "clash TasksCol d e \<longleftrightarrow> map_of d ''unique_key'' \<noteq> None \<and> map_of d ''unique_key'' = map_of e ''unique_key''"
| "clash MetricsCol d e \<longleftrightarrow> list_all (\<lambda>k. map_of d k = map_of e k) [''queue'', ''window_start'', ''kind'', ''manager_id'']"
| "clash QueuesCol d e \<longleftrightarrow> False"

definition taken :: "coll \<Rightarrow> bdoc \<Rightarrow> table \<Rightarrow> bool" where
  "taken c d m \<longleftrightarrow> (\<exists>i e. m i = Some e \<and> (map_of d ''_id'' = Some i \<or> clash c d e))"

text \<open>A document is stored as it is, with an \<open>_id\<close> made up for it when it has none.\<close>

definition stored_doc :: "bdoc \<Rightarrow> bdoc \<Rightarrow> bool" where
  "stored_doc d e \<longleftrightarrow> (if map_of d ''_id'' = None then \<exists>v. e = (''_id'', v) # d else e = d)"

definition inserted :: "bdoc list \<Rightarrow> table \<Rightarrow> table \<Rightarrow> bool" where
  "inserted es m m' \<longleftrightarrow> distinct (map doc_id es) \<and> (\<forall>e \<in> set es. m (doc_id e) = None) \<and>
     m' = m ++ map_of (map (\<lambda>e. (doc_id e, e)) es)"

definition update_all :: "bfilter \<Rightarrow> update \<Rightarrow> table \<Rightarrow> table" where
  "update_all f u m = (\<lambda>i. map_option (\<lambda>d. if fmatch f d then uapply u d else d) (m i))"

definition partly_updated :: "bfilter \<Rightarrow> update \<Rightarrow> table \<Rightarrow> table \<Rightarrow> bool" where
  "partly_updated f u m m' \<longleftrightarrow> (\<forall>i. m' i = m i \<or> m' i = update_all f u m i)"

text \<open>Single-document updates one after the other, each of any document it matches.\<close>

inductive update_seq :: "(bfilter \<times> update) list \<Rightarrow> table \<Rightarrow> int \<Rightarrow> table \<Rightarrow> bool" where
  useq_nil [intro!]: "update_seq [] m 0 m"
| useq_hit: "m i = Some d \<Longrightarrow> fmatch f d \<Longrightarrow> update_seq ws (m(i \<mapsto> uapply u d)) n m' \<Longrightarrow>
    update_seq ((f, u) # ws) m (n + 1) m'"
| useq_miss: "hits f m = {} \<Longrightarrow> update_seq ws m n m' \<Longrightarrow> update_seq ((f, u) # ws) m n m'"

inductive_cases useq_NilE: "update_seq [] m n m'"
inductive_cases useq_ConsE: "update_seq ((f, u) # ws) m n m'"

definition listing :: "bfilter \<Rightarrow> bsort \<Rightarrow> table \<Rightarrow> bdoc list \<Rightarrow> bool" where
  "listing f srt m ds \<longleftrightarrow> distinct (map doc_id ds) \<and> set ds = {d. \<exists>i. m i = Some d \<and> fmatch f d} \<and>
     sorted_wrt (sort_le srt) ds"

definition limited :: "nat option \<Rightarrow> 'a list \<Rightarrow> 'a list" where
  "limited n xs = (case n of None \<Rightarrow> xs | Some k \<Rightarrow> take k xs)"

text \<open>A write to one collection: the others stay, and tokens are only minted by \<open>uuid\<close>.\<close>

definition writes_to :: "'s mview \<Rightarrow> coll \<Rightarrow> 's \<Rightarrow> 's \<Rightarrow> bool" where
  "writes_to mv c s s' \<longleftrightarrow> mv_ok mv s' \<and> mv_ids mv s \<subseteq> mv_ids mv s' \<and> mv_tokens mv s' = mv_tokens mv s \<and>
     (\<forall>c'. c' \<noteq> c \<longrightarrow> mv_db mv s' c' = mv_db mv s c')"

definition sum_field :: "string \<Rightarrow> bdoc list \<Rightarrow> int" where
  "sum_field k ds = sum_list (map (\<lambda>d. case map_of d k of Some (BInt n) \<Rightarrow> n | _ \<Rightarrow> 0) ds)"

section \<open>The documented behaviour\<close>

locale mongo =
  fixes dr :: "'s driver" and mv :: "'s mview"
  assumes view: "mv_ok mv s \<Longrightarrow> finite (dom (mv_db mv s c)) \<and>
      (\<forall>i d. mv_db mv s c i = Some d \<longrightarrow> map_of d ''_id'' = Some i)"
    and unique: "mv_ok mv s \<Longrightarrow> mv_db mv s c i = Some d \<Longrightarrow> mv_db mv s c j = Some e \<Longrightarrow>
      clash c d e \<Longrightarrow> i = j"
    and hex: "dv_unhex dr (dv_hex dr oi) = Some oi"
    and object_id: "mv_ok mv s \<Longrightarrow> dv_ObjectID dr s = (oi, s') \<Longrightarrow>
      oi \<noteq> 0 \<and> oi \<notin> mv_ids mv s \<and> mv_ids mv s' = insert oi (mv_ids mv s) \<and> mv_ok mv s' \<and>
      mv_tokens mv s' = mv_tokens mv s \<and> mv_db mv s' = mv_db mv s"
    and uuid: "mv_ok mv s \<Longrightarrow> dv_uuid dr s = (tok, s') \<Longrightarrow>
      tok \<noteq> [] \<and> tok \<notin> mv_tokens mv s \<and> mv_tokens mv s' = insert tok (mv_tokens mv s) \<and> mv_ok mv s' \<and>
      mv_ids mv s' = mv_ids mv s \<and> mv_db mv s' = mv_db mv s"
    and insert_one: "mv_ok mv s \<Longrightarrow> dv_InsertOne dr c d s = (r, s') \<Longrightarrow> writes_to mv c s s' \<and>
      (\<exists>e. stored_doc d e \<and> (inserted [e] (mv_db mv s c) (mv_db mv s' c) \<or>
        r \<noteq> None \<and> mv_db mv s' c = mv_db mv s c)) \<and>
      (\<forall>x. r = Some x \<longrightarrow> is_dup_key x \<longrightarrow> mv_db mv s' c = mv_db mv s c \<and> taken c d (mv_db mv s c))"
    and insert_many: "mv_ok mv s \<Longrightarrow> dv_InsertMany dr c ds s = (r, s') \<Longrightarrow> writes_to mv c s s' \<and>
      (\<exists>es J. list_all2 stored_doc ds es \<and> J \<subseteq> {..<length ds} \<and>
        inserted (nths es J) (mv_db mv s c) (mv_db mv s' c) \<and>
        (r = None \<longrightarrow> J = {..<length ds}) \<and>
        (\<forall>ws. r = Some (BulkWriteErrors ws) \<longrightarrow> ws \<noteq> [] \<longrightarrow> distinct (map fst ws) \<and>
          fst ` set ws = {..<length ds} - J \<and>
          (\<forall>j msg. (j, 11000, msg) \<in> set ws \<longrightarrow> taken c (es ! j) (mv_db mv s' c))))"
    and find_update_ok: "mv_ok mv s \<Longrightarrow> dv_FindOneAndUpdate dr c f u srt s = (Inr d', s') \<Longrightarrow>
      writes_to mv c s s' \<and> (\<exists>i d. mv_db mv s c i = Some d \<and> fmatch f d \<and> d' = uapply u d \<and>
        mv_db mv s' c = (mv_db mv s c)(i \<mapsto> d') \<and>
        (\<forall>j e. mv_db mv s c j = Some e \<longrightarrow> fmatch f e \<longrightarrow> sort_le srt d e))"
    and find_update_none: "mv_ok mv s \<Longrightarrow> dv_FindOneAndUpdate dr c f u srt s = (Inl NoDocuments, s') \<Longrightarrow>
      writes_to mv c s s' \<and> mv_db mv s' c = mv_db mv s c \<and> hits f (mv_db mv s c) = {}"
    and find_update_err: "mv_ok mv s \<Longrightarrow> dv_FindOneAndUpdate dr c f u srt s = (Inl err, s') \<Longrightarrow>
      writes_to mv c s s' \<and> (mv_db mv s' c = mv_db mv s c \<or>
        (\<exists>n. update_seq [(f, u)] (mv_db mv s c) n (mv_db mv s' c)))"
    and update_one: "mv_ok mv s \<Longrightarrow> dv_UpdateOne dr c f u False s = (Inr n, s') \<Longrightarrow>
      writes_to mv c s s' \<and> update_seq [(f, u)] (mv_db mv s c) n (mv_db mv s' c)"
    and update_one_err: "mv_ok mv s \<Longrightarrow> dv_UpdateOne dr c f u False s = (Inl err, s') \<Longrightarrow>
      writes_to mv c s s' \<and> (mv_db mv s' c = mv_db mv s c \<or>
        (\<exists>n. update_seq [(f, u)] (mv_db mv s c) n (mv_db mv s' c)))"
    and upsert: "mv_ok mv s \<Longrightarrow> dv_UpdateOne dr c f u True s = (rn, s') \<Longrightarrow> writes_to mv c s s' \<and>
      (rn = Inr n \<longrightarrow> (if hits f (mv_db mv s c) = {}
         then \<exists>e. stored_doc (upsert_doc f u) e \<and> inserted [e] (mv_db mv s c) (mv_db mv s' c)
         else update_seq [(f, u)] (mv_db mv s c) n (mv_db mv s' c)))"
    and update_many: "mv_ok mv s \<Longrightarrow> dv_UpdateMany dr c f u s = (Inr n, s') \<Longrightarrow> writes_to mv c s s' \<and>
      mv_db mv s' c = update_all f u (mv_db mv s c) \<and>
      n = int (card {i. mv_db mv s' c i \<noteq> mv_db mv s c i})"
    and update_many_err: "mv_ok mv s \<Longrightarrow> dv_UpdateMany dr c f u s = (Inl err, s') \<Longrightarrow> writes_to mv c s s' \<and>
      partly_updated f u (mv_db mv s c) (mv_db mv s' c)"
    and bulk_write: "mv_ok mv s \<Longrightarrow> dv_BulkWrite dr c ws s = (Inr n, s') \<Longrightarrow> writes_to mv c s s' \<and>
      (\<exists>vs. mset vs = mset ws \<and> update_seq vs (mv_db mv s c) n (mv_db mv s' c))"
    and bulk_write_err: "mv_ok mv s \<Longrightarrow> dv_BulkWrite dr c ws s = (Inl err, s') \<Longrightarrow> writes_to mv c s s' \<and>
      (\<exists>vs n. mset vs \<subseteq># mset ws \<and> update_seq vs (mv_db mv s c) n (mv_db mv s' c))"
    and delete_one: "mv_ok mv s \<Longrightarrow> dv_DeleteOne dr c f s = (rn, s') \<Longrightarrow> writes_to mv c s s' \<and>
      (mv_db mv s' c = mv_db mv s c \<and> (\<forall>n. rn = Inr n \<longrightarrow> n = 0 \<and> hits f (mv_db mv s c) = {}) \<or>
        (\<exists>i \<in> hits f (mv_db mv s c). mv_db mv s' c = (mv_db mv s c)(i := None) \<and> (\<forall>n. rn = Inr n \<longrightarrow> n = 1)))"
    and find_docs: "mv_ok mv s \<Longrightarrow> dv_Find dr c f srt lim ps s = Inr ds \<Longrightarrow>
      \<exists>all. listing f srt (mv_db mv s c) all \<and> ds = map (project ps) (limited lim all)"
    and find_one: "mv_ok mv s \<Longrightarrow> dv_FindOne dr c f srt ps s = Inr d \<Longrightarrow>
      \<exists>i e. mv_db mv s c i = Some e \<and> fmatch f e \<and> d = project ps e \<and>
        (\<forall>j e'. mv_db mv s c j = Some e' \<longrightarrow> fmatch f e' \<longrightarrow> sort_le srt e e')"
    and find_one_none: "mv_ok mv s \<Longrightarrow> dv_FindOne dr c f srt ps s = Inl NoDocuments \<Longrightarrow>
      hits f (mv_db mv s c) = {}"
    and count: "mv_ok mv s \<Longrightarrow> dv_Count dr c f s = Inr n \<Longrightarrow> n = int (card (hits f (mv_db mv s c)))"
    and group_sum: "mv_ok mv s \<Longrightarrow> dv_GroupSum dr c f k ks s = Inr ds \<Longrightarrow>
      \<exists>all. listing f [] (mv_db mv s c) all \<and> distinct (map doc_id ds) \<and>
        (\<lambda>d. map_of d ''_id'') ` set ds = (\<lambda>d. Some (or_null (map_of d k))) ` set all \<and>
        (\<forall>d \<in> set ds. \<forall>q \<in> set ks. map_of d q =
           Some (BInt (sum_field q (filter (\<lambda>e. or_null (map_of e k) = doc_id d) all))))"
    and metrics_indexes: "mv_ok mv s \<Longrightarrow> dv_CreateMetricsIndexes dr ttl s = (r, s') \<Longrightarrow>
      mv_ok mv s' \<and> mv_ids mv s' = mv_ids mv s \<and> mv_tokens mv s' = mv_tokens mv s \<and> mv_db mv s' = mv_db mv s"
    and coll_mod: "mv_ok mv s \<Longrightarrow> dv_CollModTTL dr ttl s = (r, s') \<Longrightarrow>
      mv_ok mv s' \<and> mv_ids mv s' = mv_ids mv s \<and> mv_tokens mv s' = mv_tokens mv s \<and> mv_db mv s' = mv_db mv s"

end
