(* ===== verification/Mongostore.thy ===== *)
theory Mongostore
  imports Mongo_Driver "HOL-Library.Monad_Syntax"
begin

text \<open>
  The MongoDB store: \<open>stores/mongostore/mongostore.go\<close>. A method is a function of the driver \<open>dr\<close>
  and the state behind it; the filters and updates it sends are the code's, as data. \<open>time.Now()\<close>
  is the argument \<open>now\<close>. A \<open>nil\<close> \<open>bson.Raw\<close> is \<open>None\<close>.
\<close>

section \<open>Making the store\<close>

record mg_config =
  mg_database :: string
  mg_namespace :: string
  mg_enqueueChunk :: int
  mg_ping :: bool

datatype mg_option = MDatabase string | MNamespace string | MEnqueueChunkSize int | MPing bool

fun mg_apply :: "mg_option \<Rightarrow> mg_config \<Rightarrow> mg_config" where
  "mg_apply (MDatabase n) c = c\<lparr>mg_database := n\<rparr>"
| "mg_apply (MNamespace n) c = c\<lparr>mg_namespace := n\<rparr>"
| "mg_apply (MEnqueueChunkSize n) c = c\<lparr>mg_enqueueChunk := n\<rparr>"
| "mg_apply (MPing b) c = c\<lparr>mg_ping := b\<rparr>"

definition mg_defaults :: "mg_option list \<Rightarrow> mg_config" where
  "mg_defaults opts = fold mg_apply opts
     \<lparr>mg_database = ''gotasks'', mg_namespace = ''gotasks'', mg_enqueueChunk = 1000, mg_ping = True\<rparr>"

record mongostore =
  mg_tasksCol :: "string \<times> string"
  mg_queuesCol :: "string \<times> string"
  mg_metricsCol :: "string \<times> string"
  mg_chunk :: int
  mg_ownsClient :: bool

definition mg_err :: "string \<Rightarrow> gerror" where
  "mg_err s = ErrOther (''mongostore: '' @ s)"

text \<open>The indexes \<open>ensureIndexes\<close> asks for.\<close>

record index_model =
  ix_keys :: "string list"
  ix_unique :: bool
  ix_sparse :: bool
  ix_ttl :: "int option"
  ix_partial :: "bfilter option"

definition task_indexes :: "index_model list" where
  "task_indexes =
     [\<lparr>ix_keys = [''queue'', ''status'', ''run_at'', ''_id''], ix_unique = False, ix_sparse = False,
        ix_ttl = None, ix_partial = None\<rparr>,
      \<lparr>ix_keys = [''status'', ''leased_until''], ix_unique = False, ix_sparse = False,
        ix_ttl = None, ix_partial = None\<rparr>,
      \<lparr>ix_keys = [''expires_at''], ix_unique = False, ix_sparse = True,
        ix_ttl = Some 0, ix_partial = None\<rparr>,
      \<lparr>ix_keys = [''unique_key''], ix_unique = True, ix_sparse = False,
        ix_ttl = None, ix_partial = Some (FField ''unique_key'' CExists)\<rparr>]"

text \<open>\<open>create\<close> is \<open>Indexes().CreateMany\<close> on a collection, given as database and name.\<close>

definition mg_build ::
  "(string \<times> string \<Rightarrow> index_model list \<Rightarrow> serr option) \<Rightarrow> mg_config \<Rightarrow> gerror + mongostore" where
  "mg_build create cfg =
     (if mg_enqueueChunk cfg < 1 \<or> mg_enqueueChunk cfg > 10000
      then Inl (mg_err ''enqueue chunk size must be 1..10000'')
      else let s = \<lparr>mg_tasksCol = (mg_database cfg, mg_namespace cfg @ ''_tasks''),
                    mg_queuesCol = (mg_database cfg, mg_namespace cfg @ ''_queues''),
                    mg_metricsCol = (mg_database cfg, mg_namespace cfg @ ''_metrics''),
                    mg_chunk = mg_enqueueChunk cfg, mg_ownsClient = False\<rparr>
           in case create (mg_tasksCol s) task_indexes of
                Some _ \<Rightarrow> Inl (mg_err ''ensure indexes'')
              | None \<Rightarrow> Inr s)"

definition mg_New ::
  "serr option \<Rightarrow> serr option \<Rightarrow> (string \<times> string \<Rightarrow> index_model list \<Rightarrow> serr option) \<Rightarrow>
    mg_option list \<Rightarrow> gerror + mongostore" where
  "mg_New connect ping create opts =
     (let cfg = mg_defaults opts
      in if connect \<noteq> None then Inl (mg_err ''connect'')
         else if mg_ping cfg \<and> ping \<noteq> None then Inl (mg_err ''ping'')
         else case mg_build create cfg of Inl e \<Rightarrow> Inl e | Inr s \<Rightarrow> Inr (s\<lparr>mg_ownsClient := True\<rparr>))"

definition mg_FromClient ::
  "(string \<times> string \<Rightarrow> index_model list \<Rightarrow> serr option) \<Rightarrow> mg_option list \<Rightarrow> gerror + mongostore" where
  "mg_FromClient create opts = mg_build create (mg_defaults opts)"

section \<open>Task documents\<close>

record task_doc =
  td_ID :: oid
  td_Queue :: string
  td_Type :: string
  td_UniqueKey :: string
  td_Payload :: "bdoc option"
  td_Status :: string
  td_Attempts :: int
  td_MaxAttempts :: int
  td_RunAt :: gtime
  td_LeasedBy :: string
  td_LeasedUntil :: gtime
  td_LeaseToken :: string
  td_Errors :: "task_error list"
  td_Result :: "bdoc option"
  td_ExpiresAt :: "gtime option"
  td_CreatedAt :: gtime
  td_UpdatedAt :: gtime

text \<open>The struct's \<open>bson\<close> tags: the field names, and \<open>omitempty\<close> for zero values.\<close>

definition btime :: "gtime \<Rightarrow> bval" where
  "btime t = BTime (bson_ms t)"

definition opt_field :: "string \<Rightarrow> bval option \<Rightarrow> bdoc" where
  "opt_field k v = (case v of None \<Rightarrow> [] | Some w \<Rightarrow> [(k, w)])"

definition omit_when :: "bool \<Rightarrow> string \<Rightarrow> bval \<Rightarrow> bdoc" where
  "omit_when zero k v = opt_field k (if zero then None else Some v)"

definition omit_str :: "string \<Rightarrow> string \<Rightarrow> bdoc" where
  "omit_str k s = omit_when (s = []) k (BStr s)"

definition omit_raw :: "string \<Rightarrow> bdoc option \<Rightarrow> bdoc" where
  "omit_raw k r = opt_field k (map_option BDoc r)"

definition te_marshal :: "task_error \<Rightarrow> bval" where
  "te_marshal e = BDoc [(''at'', btime (te_At e)), (''attempt'', BInt (te_Attempt e)),
     (''worker'', BStr (te_Worker e)), (''message'', BStr (te_Message e))]"

definition td_marshal :: "task_doc \<Rightarrow> bdoc" where
  "td_marshal d =
     omit_when (td_ID d = 0) ''_id'' (BOid (td_ID d)) @
     [(''queue'', BStr (td_Queue d)), (''type'', BStr (td_Type d))] @
     omit_str ''unique_key'' (td_UniqueKey d) @ omit_raw ''payload'' (td_Payload d) @
     [(''status'', BStr (td_Status d)), (''attempts'', BInt (td_Attempts d)),
      (''max_attempts'', BInt (td_MaxAttempts d)), (''run_at'', btime (td_RunAt d))] @
     omit_str ''leased_by'' (td_LeasedBy d) @
     omit_when (is_zero (td_LeasedUntil d)) ''leased_until'' (btime (td_LeasedUntil d)) @
     omit_str ''lease_token'' (td_LeaseToken d) @
     omit_when (td_Errors d = []) ''errors'' (BArr (map te_marshal (td_Errors d))) @
     omit_raw ''result'' (td_Result d) @
     opt_field ''expires_at'' (map_option btime (td_ExpiresAt d)) @
     [(''created_at'', btime (td_CreatedAt d)), (''updated_at'', btime (td_UpdatedAt d))]"

text \<open>Decoding: a missing field (or a null) leaves the zero value, another type is an error.\<close>

fun as_str :: "bval \<Rightarrow> string option" where
  "as_str BNull = Some []"
| "as_str (BStr s) = Some s"
| "as_str _ = None"

fun as_int :: "bval \<Rightarrow> int option" where
  "as_int BNull = Some 0"
| "as_int (BInt n) = Some n"
| "as_int _ = None"

fun as_time :: "bval \<Rightarrow> gtime option" where
  "as_time BNull = Some 0"
| "as_time (BTime t) = Some t"
| "as_time _ = None"

fun as_time_ptr :: "bval \<Rightarrow> gtime option option" where
  "as_time_ptr BNull = Some None"
| "as_time_ptr (BTime t) = Some (Some t)"
| "as_time_ptr _ = None"

fun as_oid :: "bval \<Rightarrow> oid option" where
  "as_oid BNull = Some 0"
| "as_oid (BOid k) = Some k"
| "as_oid _ = None"

fun as_raw :: "bval \<Rightarrow> bdoc option option" where
  "as_raw BNull = Some None"
| "as_raw (BDoc b) = Some (Some b)"
| "as_raw _ = None"

definition get_field :: "(bval \<Rightarrow> 'a option) \<Rightarrow> string \<Rightarrow> bdoc \<Rightarrow> 'a option" where
  "get_field as k d = as (or_null (map_of d k))"

abbreviation get_str :: "string \<Rightarrow> bdoc \<Rightarrow> string option" where "get_str \<equiv> get_field as_str"
abbreviation get_int :: "string \<Rightarrow> bdoc \<Rightarrow> int option" where "get_int \<equiv> get_field as_int"
abbreviation get_time :: "string \<Rightarrow> bdoc \<Rightarrow> gtime option" where "get_time \<equiv> get_field as_time"
abbreviation get_oid :: "string \<Rightarrow> bdoc \<Rightarrow> oid option" where "get_oid \<equiv> get_field as_oid"
abbreviation get_raw :: "string \<Rightarrow> bdoc \<Rightarrow> bdoc option option" where "get_raw \<equiv> get_field as_raw"

fun te_decode :: "bval \<Rightarrow> task_error option" where
  "te_decode (BDoc d) = do {
     at \<leftarrow> get_time ''at'' d; n \<leftarrow> get_int ''attempt'' d;
     w \<leftarrow> get_str ''worker'' d; msg \<leftarrow> get_str ''message'' d;
     Some \<lparr>te_At = at, te_Attempt = n, te_Worker = w, te_Message = msg\<rparr> }"
| "te_decode _ = None"

fun as_errors :: "bval \<Rightarrow> task_error list option" where
  "as_errors BNull = Some []"
| "as_errors (BArr vs) = those (map te_decode vs)"
| "as_errors _ = None"

definition td_decode :: "bdoc \<Rightarrow> task_doc option" where
  "td_decode d = do {
     oi \<leftarrow> get_oid ''_id'' d; q \<leftarrow> get_str ''queue'' d; ty \<leftarrow> get_str ''type'' d;
     uk \<leftarrow> get_str ''unique_key'' d; pl \<leftarrow> get_raw ''payload'' d; st \<leftarrow> get_str ''status'' d;
     a \<leftarrow> get_int ''attempts'' d; mx \<leftarrow> get_int ''max_attempts'' d; ra \<leftarrow> get_time ''run_at'' d;
     lb \<leftarrow> get_str ''leased_by'' d; lu \<leftarrow> get_time ''leased_until'' d; lt \<leftarrow> get_str ''lease_token'' d;
     es \<leftarrow> get_field as_errors ''errors'' d; rs \<leftarrow> get_raw ''result'' d; ex \<leftarrow> get_field as_time_ptr ''expires_at'' d;
     ca \<leftarrow> get_time ''created_at'' d; ua \<leftarrow> get_time ''updated_at'' d;
     Some \<lparr>td_ID = oi, td_Queue = q, td_Type = ty, td_UniqueKey = uk, td_Payload = pl, td_Status = st,
       td_Attempts = a, td_MaxAttempts = mx, td_RunAt = ra, td_LeasedBy = lb, td_LeasedUntil = lu,
       td_LeaseToken = lt, td_Errors = es, td_Result = rs, td_ExpiresAt = ex, td_CreatedAt = ca,
       td_UpdatedAt = ua\<rparr> }"

fun status_str :: "status \<Rightarrow> string" where
  "status_str StatusPending = ''pending''"
| "status_str StatusRunning = ''running''"
| "status_str StatusDone = ''done''"
| "status_str StatusDead = ''dead''"

text \<open>The code never writes another status; a document with one counts as undecodable.\<close>

definition status_of :: "string \<Rightarrow> status option" where
  "status_of s = find (\<lambda>x. status_str x = s) [StatusPending, StatusRunning, StatusDone, StatusDead]"

section \<open>Payloads and ids\<close>

definition jsonToRaw :: "'s driver \<Rightarrow> json \<Rightarrow> gerror + bdoc option" where
  "jsonToRaw dr j =
     (let t = trim_space j
      in if t = [] \<or> t = ''null'' then Inr None
         else case dv_toBSON dr t of
           Inl _ \<Rightarrow> Inl (mg_err ''payload to BSON'')
         | Inr b \<Rightarrow> Inr (Some b))"

definition rawToJSON :: "'s driver \<Rightarrow> bdoc option \<Rightarrow> gerror + json" where
  "rawToJSON dr r = (case r of
     None \<Rightarrow> Inr []
   | Some b \<Rightarrow> (case dv_toJSON dr b of Inl _ \<Rightarrow> Inl (mg_err ''BSON to JSON'') | Inr j \<Rightarrow> Inr j))"

definition toTask :: "'s driver \<Rightarrow> task_doc \<Rightarrow> gerror + task" where
  "toTask dr d = (case rawToJSON dr (td_Payload d) of
     Inl e \<Rightarrow> Inl e
   | Inr payload \<Rightarrow> (case rawToJSON dr (td_Result d) of
       Inl e \<Rightarrow> Inl e
     | Inr result \<Rightarrow> (case status_of (td_Status d) of
         None \<Rightarrow> Inl (mg_err ''status'')
       | Some st \<Rightarrow> Inr
           \<lparr>t_ID = dv_hex dr (td_ID d), t_Queue = td_Queue d, t_Type = td_Type d,
            t_UniqueKey = td_UniqueKey d, t_Payload = payload, t_Status = st,
            t_Attempts = td_Attempts d, t_MaxAttempts = td_MaxAttempts d, t_RunAt = td_RunAt d,
            t_ExpiresAt = td_ExpiresAt d, t_LeasedBy = td_LeasedBy d, t_LeasedUntil = td_LeasedUntil d,
            t_LeaseToken = td_LeaseToken d, t_Errors = td_Errors d, t_Result = result,
            t_CreatedAt = td_CreatedAt d, t_UpdatedAt = td_UpdatedAt d\<rparr>)))"

definition oid_of :: "'s driver \<Rightarrow> string \<Rightarrow> gerror + oid" where
  "oid_of dr i = (case dv_unhex dr i of None \<Rightarrow> Inl (ErrNotFound (''bad id '' @ i)) | Some k \<Rightarrow> Inr k)"

end
