(* ===== verification/Mongo_Ops.thy ===== *)
theory Mongo_Ops
  imports Mongostore
begin

text \<open>
  The \<open>Store\<close> methods of \<open>stores/mongostore/mongostore.go\<close>, call by call: what each sends to the
  server, in which order, and what it makes of the answers.
\<close>

section \<open>Enqueue\<close>

definition enqueue_doc :: "oid \<Rightarrow> bdoc option \<Rightarrow> task \<Rightarrow> task_doc" where
  "enqueue_doc k payload t =
     \<lparr>td_ID = k, td_Queue = t_Queue t, td_Type = t_Type t, td_UniqueKey = t_UniqueKey t,
      td_Payload = payload, td_Status = status_str (t_Status t), td_Attempts = t_Attempts t,
      td_MaxAttempts = t_MaxAttempts t, td_RunAt = t_RunAt t, td_LeasedBy = [], td_LeasedUntil = 0,
      td_LeaseToken = [], td_Errors = [], td_Result = None, td_ExpiresAt = t_ExpiresAt t,
      td_CreatedAt = t_CreatedAt t, td_UpdatedAt = t_UpdatedAt t\<rparr>"

fun enqueue_docs :: "'s driver \<Rightarrow> task list \<Rightarrow> 's \<Rightarrow> (gerror + (string \<times> bdoc) list) \<times> 's" where
  "enqueue_docs dr [] s = (Inr [], s)"
| "enqueue_docs dr (t # ts) s = (case jsonToRaw dr (t_Payload t) of
     Inl e \<Rightarrow> (Inl e, s)
   | Inr payload \<Rightarrow> (case dv_ObjectID dr s of (k, s1) \<Rightarrow> (case enqueue_docs dr ts s1 of
       (Inl e, s2) \<Rightarrow> (Inl e, s2)
     | (Inr r, s2) \<Rightarrow> (Inr ((dv_hex dr k, td_marshal (enqueue_doc k payload t)) # r), s2))))"

text \<open>The write errors of one chunk: the entry's id is blanked and its failure noted.\<close>

definition write_cause :: "int \<Rightarrow> string \<Rightarrow> gerror" where
  "write_cause code msg = (if code = 11000 then ErrDuplicateTask msg else mg_err (''enqueue: '' @ msg))"

definition blank :: "nat list \<Rightarrow> string list \<Rightarrow> string list" where
  "blank js ids = fold (\<lambda>j ids. ids[j := []]) js ids"

text \<open>
  The loop over chunks of \<open>n\<close> documents, from position \<open>start\<close>. An error that is not one of write
  errors leaves the fate of the chunk unknown: everything from there on is reported and the loop
  stops. (A chunk size of 0 cannot be built; the loop would not end.)
\<close>

function enqueue_chunks ::
  "'s driver \<Rightarrow> nat \<Rightarrow> bdoc list \<Rightarrow> nat \<Rightarrow> string list \<Rightarrow> (nat \<times> gerror) list \<Rightarrow> 's \<Rightarrow>
    (string list \<times> (nat \<times> gerror) list) \<times> 's" where
  "enqueue_chunks dr n docs start ids failures s =
     (if n = 0 \<or> length docs \<le> start then ((ids, failures), s)
      else case dv_InsertMany dr TasksCol (take n (drop start docs)) s of
        (None, s') \<Rightarrow> enqueue_chunks dr n docs (start + n) ids failures s'
      | (Some e, s') \<Rightarrow> (case e of
          BulkWriteErrors ws \<Rightarrow>
            if ws \<noteq> []
            then enqueue_chunks dr n docs (start + n) (blank (map (\<lambda>(j, code, msg). start + j) ws) ids)
                   (failures @ map (\<lambda>(j, code, msg). (start + j, write_cause code msg)) ws) s'
            else ((blank [start..<length docs] ids,
                   failures @ map (\<lambda>j. (j, mg_err ''enqueue'')) [start..<length docs]), s')
        | _ \<Rightarrow> ((blank [start..<length docs] ids,
                   failures @ map (\<lambda>j. (j, mg_err ''enqueue'')) [start..<length docs]), s')))"
  by pat_completeness auto
termination
  by (relation "measure (\<lambda>(dr, n, docs, start, ids, failures, s). length docs - start)") auto

declare enqueue_chunks.simps [simp del]

text \<open>The holder of the first unique key among the tasks, when it can still be found.\<close>

definition duplicateError :: "'s driver \<Rightarrow> task list \<Rightarrow> 's \<Rightarrow> gerror" where
  "duplicateError dr tasks s =
     (let key = (case find (\<lambda>t. t_UniqueKey t \<noteq> []) tasks of None \<Rightarrow> [] | Some t \<Rightarrow> t_UniqueKey t)
      in case dv_FindOne dr TasksCol (FField ''unique_key'' (CEq (BStr key))) [] [] s of
           Inl _ \<Rightarrow> DuplicateTaskError key []
         | Inr d \<Rightarrow> (case td_decode d of
             None \<Rightarrow> DuplicateTaskError key []
           | Some doc \<Rightarrow> DuplicateTaskError key (dv_hex dr (td_ID doc))))"

definition mg_Enqueue :: "'s driver \<Rightarrow> nat \<Rightarrow> task list \<Rightarrow> 's \<Rightarrow> (string list \<times> gerror option) \<times> 's" where
  "mg_Enqueue dr chunk tasks s =
     (if tasks = [] then (([], None), s)
      else case enqueue_docs dr tasks s of
        (Inl e, s1) \<Rightarrow> (([], Some e), s1)
      | (Inr r, s1) \<Rightarrow> (case enqueue_chunks dr chunk (map snd r) 0 (map fst r) [] s1 of
          ((ids, failures), s2) \<Rightarrow>
            if failures = [] then ((ids, None), s2)
            else if length tasks = 1 \<and> is_duplicate (snd (hd failures))
            then (([], Some (duplicateError dr tasks s2)), s2)
            else ((ids, Some (PartialEnqueueError failures)), s2)))"

section \<open>Claim\<close>

definition runnableFilter :: "gtime \<Rightarrow> string list \<Rightarrow> string list \<Rightarrow> bfilter list" where
  "runnableFilter now types queues =
     [FOr [FAnd [FField ''status'' (CEq (BStr ''pending'')), FField ''run_at'' (CLte (btime now))],
           FAnd [FField ''status'' (CEq (BStr ''running'')), FField ''leased_until'' (CLt (btime now)),
                 FExprLt ''attempts'' ''max_attempts'']]] @
     (if types \<noteq> [] then [FField ''type'' (CIn (map BStr types))] else []) @
     (if queues \<noteq> [] then [FField ''queue'' (CIn (map BStr queues))] else [])"

definition claimUpdate :: "gtime \<Rightarrow> string \<Rightarrow> string \<Rightarrow> duration \<Rightarrow> update" where
  "claimUpdate now workerID leaseToken lease = UpOps
     [USet [(''status'', BStr ''running''), (''leased_by'', BStr workerID), (''lease_token'', BStr leaseToken),
            (''leased_until'', btime (add_time now lease)), (''updated_at'', btime now)],
      UInc [(''attempts'', 1)]]"

definition claimSort :: bsort where
  "claimSort = [(''run_at'', True), (''_id'', True)]"

definition fifo_sort :: "claim_options \<Rightarrow> bsort" where
  "fifo_sort opts = (if co_FIFO opts then claimSort else [])"

definition decode_task :: "'s driver \<Rightarrow> string \<Rightarrow> bdoc \<Rightarrow> gerror + task" where
  "decode_task dr what d = (case td_decode d of None \<Rightarrow> Inl (mg_err what) | Some doc \<Rightarrow> toTask dr doc)"

definition mg_Claim :: "'s driver \<Rightarrow> gtime \<Rightarrow> claim_options \<Rightarrow> 's \<Rightarrow> (gerror + task) \<times> 's" where
  "mg_Claim dr now opts s = (case dv_uuid dr s of (tok, s1) \<Rightarrow>
     (case dv_FindOneAndUpdate dr TasksCol (FAnd (runnableFilter now (co_Types opts) (co_Queues opts)))
             (claimUpdate now (co_WorkerID opts) tok (co_Lease opts)) (fifo_sort opts) s1 of
        (Inl e, s2) \<Rightarrow> (Inl (if e = NoDocuments then ErrNoTask else mg_err ''claim''), s2)
      | (Inr d, s2) \<Rightarrow> (decode_task dr ''claim'' d, s2)))"

text \<open>A list of results, or its first error.\<close>

fun all_results :: "('e + 'a) list \<Rightarrow> 'e + 'a list" where
  "all_results [] = Inr []"
| "all_results (Inl e # rs) = Inl e"
| "all_results (Inr x # rs) = (case all_results rs of Inl e \<Rightarrow> Inl e | Inr xs \<Rightarrow> Inr (x # xs))"

text \<open>
  The three round trips of \<open>ClaimBatch\<close>: the candidates, the guarded update, and the winners by
  their token. \<open>env1\<close> and \<open>env2\<close> are what other clients do between them.
\<close>

definition batch_candidates ::
  "'s driver \<Rightarrow> gtime \<Rightarrow> claim_options \<Rightarrow> int \<Rightarrow> 's \<Rightarrow> gerror + bval list" where
  "batch_candidates dr now opts k s =
     (case dv_Find dr TasksCol (FAnd (runnableFilter now (co_Types opts) (co_Queues opts)))
             (fifo_sort opts) (Some (nat k)) [''_id''] s of
        Inl _ \<Rightarrow> Inl (mg_err ''claim batch find'')
      | Inr ds \<Rightarrow> (case those (map (get_oid ''_id'') ds) of
          None \<Rightarrow> Inl (mg_err ''claim batch decode'')
        | Some ids \<Rightarrow> Inr (map BOid ids)))"

definition batch_guard :: "gtime \<Rightarrow> bval list \<Rightarrow> bfilter" where
  "batch_guard now ids = FAnd (runnableFilter now [] [] @ [FField ''_id'' (CIn ids)])"

definition batch_winners :: "bval list \<Rightarrow> string \<Rightarrow> bfilter" where
  "batch_winners ids tok = FAnd [FField ''_id'' (CIn ids), FField ''lease_token'' (CEq (BStr tok))]"

definition mg_ClaimBatch_env ::
  "'s driver \<Rightarrow> ('s \<Rightarrow> 's) \<Rightarrow> ('s \<Rightarrow> 's) \<Rightarrow> gtime \<Rightarrow> claim_options \<Rightarrow> int \<Rightarrow> 's \<Rightarrow> (gerror + task list) \<times> 's" where
  "mg_ClaimBatch_env dr env1 env2 now opts k s =
     (if k < 1 then (Inl (mg_err ''claim batch: k must be >= 1''), s)
      else case batch_candidates dr now opts k s of
        Inl e \<Rightarrow> (Inl e, s)
      | Inr ids \<Rightarrow>
          if ids = [] then (Inl ErrNoTask, s)
          else (case dv_uuid dr (env1 s) of (tok, s1) \<Rightarrow>
            (case dv_UpdateMany dr TasksCol (batch_guard now ids)
                    (claimUpdate now (co_WorkerID opts) tok (co_Lease opts)) s1 of
               (Inl _, s2) \<Rightarrow> (Inl (mg_err ''claim batch update''), s2)
             | (Inr n, s2) \<Rightarrow>
                 if n = 0 then (Inr [], s2)
                 else (case env2 s2 of s3 \<Rightarrow>
                   (case dv_Find dr TasksCol (batch_winners ids tok) [] None [] s3 of
                      Inl _ \<Rightarrow> (Inl (mg_err ''claim batch fetch''), s3)
                    | Inr ds \<Rightarrow> (all_results (map (decode_task dr ''claim batch fetch decode'') ds), s3))))))"

definition mg_ClaimBatch ::
  "'s driver \<Rightarrow> gtime \<Rightarrow> claim_options \<Rightarrow> int \<Rightarrow> 's \<Rightarrow> (gerror + task list) \<times> 's" where
  "mg_ClaimBatch dr = mg_ClaimBatch_env dr (\<lambda>s. s) (\<lambda>s. s)"

section \<open>Finalizing and leases\<close>

definition leaseFilter :: "oid \<Rightarrow> string \<Rightarrow> bfilter" where
  "leaseFilter k leaseToken = FAnd [FField ''_id'' (CEq (BOid k)),
     FField ''lease_token'' (CEq (BStr leaseToken)), FField ''status'' (CEq (BStr ''running''))]"

definition completeWrite ::
  "'s driver \<Rightarrow> task \<Rightarrow> json \<Rightarrow> gtime \<Rightarrow> gerror + bfilter \<times> update" where
  "completeWrite dr t result now = (case oid_of dr (t_ID t) of
     Inl e \<Rightarrow> Inl e
   | Inr k \<Rightarrow> (case jsonToRaw dr result of
       Inl e \<Rightarrow> Inl e
     | Inr raw \<Rightarrow> Inr (leaseFilter k (t_LeaseToken t), UpOps
         [USet ([(''status'', BStr ''done''), (''updated_at'', btime now)] @ omit_raw ''result'' raw),
          UUnset [''leased_by'', ''lease_token'', ''unique_key'']])))"

definition failWrite ::
  "'s driver \<Rightarrow> task \<Rightarrow> task_error \<Rightarrow> gtime \<Rightarrow> bool \<Rightarrow> gtime \<Rightarrow> gerror + bfilter \<times> update" where
  "failWrite dr t taskErr retryAt terminal now = (case oid_of dr (t_ID t) of
     Inl e \<Rightarrow> Inl e
   | Inr k \<Rightarrow> Inr (leaseFilter k (t_LeaseToken t), UpOps
       [USet ((''updated_at'', btime now) #
          (if terminal then [(''status'', BStr ''dead'')]
           else [(''status'', BStr ''pending''), (''run_at'', btime retryAt)])),
        UPush ''errors'' (te_marshal taskErr),
        UUnset ([''leased_by'', ''lease_token''] @ (if terminal then [''unique_key''] else []))]))"

definition send_fenced ::
  "'s driver \<Rightarrow> string \<Rightarrow> bfilter \<times> update \<Rightarrow> 's \<Rightarrow> gerror option \<times> 's" where
  "send_fenced dr what w s = (case dv_UpdateOne dr TasksCol (fst w) (snd w) False s of
     (Inl _, s') \<Rightarrow> (Some (mg_err what), s')
   | (Inr n, s') \<Rightarrow> (if n = 0 then Some ErrLeaseLost else None, s'))"

definition mg_Complete :: "'s driver \<Rightarrow> gtime \<Rightarrow> task \<Rightarrow> json \<Rightarrow> 's \<Rightarrow> gerror option \<times> 's" where
  "mg_Complete dr now t result s = (case completeWrite dr t result now of
     Inl e \<Rightarrow> (Some e, s) | Inr w \<Rightarrow> send_fenced dr ''complete'' w s)"

definition mg_Fail ::
  "'s driver \<Rightarrow> gtime \<Rightarrow> task \<Rightarrow> task_error \<Rightarrow> gtime \<Rightarrow> bool \<Rightarrow> 's \<Rightarrow> gerror option \<times> 's" where
  "mg_Fail dr now t taskErr retryAt terminal s = (case failWrite dr t taskErr retryAt terminal now of
     Inl e \<Rightarrow> (Some e, s) | Inr w \<Rightarrow> send_fenced dr ''fail'' w s)"

definition outcome_write :: "'s driver \<Rightarrow> gtime \<Rightarrow> outcome \<Rightarrow> gerror + bfilter \<times> update" where
  "outcome_write dr now r = (case o_Failure r of
     Some f \<Rightarrow> failWrite dr (o_Task r) f (o_RetryAt r) (o_Terminal r) now
   | None \<Rightarrow> completeWrite dr (o_Task r) (o_Result r) now)"

definition mg_FinalizeBatch ::
  "'s driver \<Rightarrow> gtime \<Rightarrow> outcome list \<Rightarrow> 's \<Rightarrow> (int \<times> gerror option) \<times> 's" where
  "mg_FinalizeBatch dr now outcomes s =
     (if outcomes = [] then ((0, None), s)
      else case all_results (map (outcome_write dr now) outcomes) of
        Inl e \<Rightarrow> ((0, Some e), s)
      | Inr models \<Rightarrow> (case dv_BulkWrite dr TasksCol models s of
          (Inl _, s') \<Rightarrow> ((0, Some (mg_err ''finalize batch'')), s')
        | (Inr n, s') \<Rightarrow> ((int (length outcomes) - n, None), s')))"

definition mg_ExtendLease :: "'s driver \<Rightarrow> gtime \<Rightarrow> task \<Rightarrow> duration \<Rightarrow> 's \<Rightarrow> (gerror + gtime) \<times> 's" where
  "mg_ExtendLease dr now t lease s = (case oid_of dr (t_ID t) of
     Inl e \<Rightarrow> (Inl e, s)
   | Inr k \<Rightarrow> (case send_fenced dr ''extend lease'' (leaseFilter k (t_LeaseToken t), UpOps
         [USet [(''leased_until'', btime (add_time now lease)), (''updated_at'', btime now)]]) s of
       (Some e, s') \<Rightarrow> (Inl e, s')
     | (None, s') \<Rightarrow> (Inr (add_time now lease), s')))"

section \<open>Dead letters\<close>

definition requeueUpdate :: "gtime \<Rightarrow> update" where
  "requeueUpdate now = UpOps
     [USet [(''status'', BStr ''pending''), (''attempts'', BInt 0), (''run_at'', btime now), (''updated_at'', btime now)],
      UUnset [''result'', ''leased_by'', ''leased_until'', ''lease_token'']]"

definition mg_Requeue :: "'s driver \<Rightarrow> gtime \<Rightarrow> string \<Rightarrow> 's \<Rightarrow> gerror option \<times> 's" where
  "mg_Requeue dr now i s = (case oid_of dr i of
     Inl e \<Rightarrow> (Some e, s)
   | Inr k \<Rightarrow> (case dv_UpdateOne dr TasksCol
         (FAnd [FField ''_id'' (CEq (BOid k)), FField ''status'' (CEq (BStr ''dead''))]) (requeueUpdate now) False s of
       (Inl _, s') \<Rightarrow> (Some (mg_err ''requeue''), s')
     | (Inr n, s') \<Rightarrow> (if n = 0 then Some (ErrNotFound (''no dead task with id '' @ i)) else None, s')))"

definition mg_RequeueDead :: "'s driver \<Rightarrow> gtime \<Rightarrow> string \<Rightarrow> 's \<Rightarrow> (gerror + int) \<times> 's" where
  "mg_RequeueDead dr now taskType s =
     (case dv_UpdateMany dr TasksCol (FAnd (FField ''status'' (CEq (BStr ''dead'')) #
             (if taskType \<noteq> [] then [FField ''type'' (CEq (BStr taskType))] else []))) (requeueUpdate now) s of
        (Inl _, s') \<Rightarrow> (Inl (mg_err ''requeue dead''), s')
      | (Inr n, s') \<Rightarrow> (Inr n, s'))"

definition reapFilter :: "gtime \<Rightarrow> bfilter" where
  "reapFilter now = FAnd [FField ''status'' (CEq (BStr ''running'')), FField ''leased_until'' (CLt (btime now)),
     FExprGte ''attempts'' ''max_attempts'']"

definition reapUpdate :: "gtime \<Rightarrow> update" where
  "reapUpdate now = UpPipe
     [SSet [(''status'', ALit (BStr ''dead'')), (''updated_at'', ALit (btime now)),
            (''errors'', AConcat [AIfNull (AField ''errors'') (AArr []),
               AArr [AObj [(''at'', ALit (btime now)), (''attempt'', AField ''attempts''),
                           (''worker'', AField ''leased_by''),
                           (''message'', ALit (BStr ''lease expired before completion; attempts exhausted''))]]])],
      SUnset [''leased_by'', ''lease_token'', ''unique_key'']]"

definition mg_ReapExpired :: "'s driver \<Rightarrow> gtime \<Rightarrow> 's \<Rightarrow> (gerror + int) \<times> 's" where
  "mg_ReapExpired dr now s = (case dv_UpdateMany dr TasksCol (reapFilter now) (reapUpdate now) s of
     (Inl _, s') \<Rightarrow> (Inl (mg_err ''reap''), s')
   | (Inr n, s') \<Rightarrow> (Inr n, s'))"

section \<open>Dropping and closing\<close>

text \<open>\<open>dropCol\<close> is the driver's \<open>Collection.Drop\<close> and \<open>disconnect\<close> its \<open>Client.Disconnect\<close>; their errors are passed on.\<close>

definition mg_DropCollection :: "(coll \<Rightarrow> 's \<Rightarrow> serr option \<times> 's) \<Rightarrow> 's \<Rightarrow> serr option \<times> 's" where
  "mg_DropCollection dropCol s = (case dropCol TasksCol s of
     (Some e, s1) \<Rightarrow> (Some e, s1)
   | (None, s1) \<Rightarrow> (case dropCol QueuesCol s1 of
       (Some e, s2) \<Rightarrow> (Some e, s2)
     | (None, s2) \<Rightarrow> dropCol MetricsCol s2))"

definition mg_Close :: "('s \<Rightarrow> serr option \<times> 's) \<Rightarrow> mongostore \<Rightarrow> 's \<Rightarrow> serr option \<times> 's" where
  "mg_Close disconnect store s = (if mg_ownsClient store then disconnect s else (None, s))"

text \<open>When a drop empties its collection and no other, no error means that all three are empty.\<close>

lemma mg_DropCollection_empties:
  assumes "\<And>c s s'. dropCol c s = (None, s') \<Longrightarrow> tbl c s' = Map.empty \<and> (\<forall>d. d \<noteq> c \<longrightarrow> tbl d s' = tbl d s)"
    and "mg_DropCollection dropCol s = (None, s')"
  shows "tbl c s' = Map.empty"
proof -
  obtain s1 s2 where d: "dropCol TasksCol s = (None, s1)" "dropCol QueuesCol s1 = (None, s2)" "dropCol MetricsCol s2 = (None, s')"
    using assms(2) by (auto simp: mg_DropCollection_def split: prod.splits option.splits)
  show ?thesis using assms(1) [OF d(1)] assms(1) [OF d(2)] assms(1) [OF d(3)] by (cases c) simp_all
qed

text \<open>A store made from a client of the caller's leaves it connected.\<close>

lemma mg_FromClient_Close: "mg_FromClient create opts = Inr store \<Longrightarrow> mg_Close disconnect store s = (None, s)"
  by (auto simp: mg_FromClient_def mg_build_def Let_def mg_Close_def split: if_splits option.splits)

lemma mg_New_Close: "mg_New connect ping create opts = Inr store \<Longrightarrow> mg_Close disconnect store s = disconnect s"
  by (auto simp: mg_New_def Let_def mg_Close_def split: if_splits sum.splits)

end
