(* ===== verification/Mongo_Registry.thy ===== *)
theory Mongo_Registry
  imports Mongo_Ops
begin

text \<open>
  The queues registry of the MongoDB store: \<open>stores/mongostore/registry.go\<close>. One document per
  queue, keyed by its name; TTLs are kept in milliseconds.
\<close>

section \<open>Queue documents\<close>

record queue_doc =
  qd_Name :: string
  qd_TTLMillis :: int
  qd_MaxAttempts :: int
  qd_CreatedAt :: gtime
  qd_UpdatedAt :: gtime

definition toQueueDoc :: "queue_policy \<Rightarrow> gtime \<Rightarrow> queue_doc" where
  "toQueueDoc q now = \<lparr>qd_Name = qp_Name q, qd_TTLMillis = milliseconds (qp_TTL q),
     qd_MaxAttempts = qp_MaxAttempts q, qd_CreatedAt = now, qd_UpdatedAt = now\<rparr>"

definition toPolicy :: "queue_doc \<Rightarrow> queue_policy" where
  "toPolicy d = \<lparr>qp_Name = qd_Name d, qp_TTL = millis (qd_TTLMillis d), qp_MaxAttempts = qd_MaxAttempts d\<rparr>"

definition qd_matches :: "queue_doc \<Rightarrow> queue_policy \<Rightarrow> bool" where
  "qd_matches d q \<longleftrightarrow> qd_TTLMillis d = milliseconds (qp_TTL q) \<and> qd_MaxAttempts d = qp_MaxAttempts q"

definition qd_marshal :: "queue_doc \<Rightarrow> bdoc" where
  "qd_marshal d = [(''_id'', BStr (qd_Name d)), (''ttl_ms'', BInt (qd_TTLMillis d)),
     (''max_attempts'', BInt (qd_MaxAttempts d)), (''created_at'', btime (qd_CreatedAt d)),
     (''updated_at'', btime (qd_UpdatedAt d))]"

definition qd_decode :: "bdoc \<Rightarrow> queue_doc option" where
  "qd_decode d = do {
     n \<leftarrow> get_str ''_id'' d; ttl \<leftarrow> get_int ''ttl_ms'' d; mx \<leftarrow> get_int ''max_attempts'' d;
     ca \<leftarrow> get_time ''created_at'' d; ua \<leftarrow> get_time ''updated_at'' d;
     Some \<lparr>qd_Name = n, qd_TTLMillis = ttl, qd_MaxAttempts = mx, qd_CreatedAt = ca, qd_UpdatedAt = ua\<rparr> }"

section \<open>Operations\<close>

definition queue_filter :: "string \<Rightarrow> bfilter" where
  "queue_filter name = FField ''_id'' (CEq (BStr name))"

definition register_err :: "string \<Rightarrow> gerror" where
  "register_err name = mg_err (''register queue '' @ name)"

text \<open>
  One queue: the document is looked up and inserted when absent; when another manager inserted it
  in between (\<open>env\<close>), it is read again. \<open>None\<close> is that the registry agrees with the declaration.
\<close>

definition check_queue :: "queue_policy \<Rightarrow> bdoc \<Rightarrow> gerror option" where
  "check_queue q d = (case qd_decode d of
     None \<Rightarrow> Some (register_err (qp_Name q))
   | Some e \<Rightarrow> if qd_matches e q then None else Some (ErrQueueConflict (qp_Name q)))"

definition register_one ::
  "'s driver \<Rightarrow> ('s \<Rightarrow> 's) \<Rightarrow> gtime \<Rightarrow> queue_policy \<Rightarrow> 's \<Rightarrow> gerror option \<times> 's" where
  "register_one dr env now q s =
     (case dv_FindOne dr QueuesCol (queue_filter (qp_Name q)) [] [] s of
        Inr d \<Rightarrow> (check_queue q d, s)
      | Inl NoDocuments \<Rightarrow> (case dv_InsertOne dr QueuesCol (qd_marshal (toQueueDoc q now)) (env s) of
          (None, s') \<Rightarrow> (None, s')
        | (Some e, s') \<Rightarrow>
            if is_dup_key e
            then (case dv_FindOne dr QueuesCol (queue_filter (qp_Name q)) [] [] s' of
                    Inr d \<Rightarrow> (check_queue q d, s')
                  | Inl _ \<Rightarrow> (Some (register_err (qp_Name q)), s'))
            else (Some (register_err (qp_Name q)), s'))
      | Inl _ \<Rightarrow> (Some (register_err (qp_Name q)), s))"

fun register_all ::
  "'s driver \<Rightarrow> ('s \<Rightarrow> 's) \<Rightarrow> gtime \<Rightarrow> queue_policy list \<Rightarrow> 's \<Rightarrow> gerror option \<times> 's" where
  "register_all dr env now [] s = (None, s)"
| "register_all dr env now (q # qs) s = (case register_one dr env now q s of
     (Some e, s') \<Rightarrow> (Some e, s')
   | (None, s') \<Rightarrow> register_all dr env now qs s')"

definition mg_RegisterQueues :: "'s driver \<Rightarrow> gtime \<Rightarrow> queue_policy list \<Rightarrow> 's \<Rightarrow> gerror option \<times> 's" where
  "mg_RegisterQueues dr = register_all dr (\<lambda>s. s)"

definition mg_Queues :: "'s driver \<Rightarrow> 's \<Rightarrow> gerror + queue_policy list" where
  "mg_Queues dr s = (case dv_Find dr QueuesCol (FAnd []) [(''_id'', True)] None [] s of
     Inl _ \<Rightarrow> Inl (mg_err ''list queues'')
   | Inr ds \<Rightarrow> (case those (map qd_decode ds) of
       None \<Rightarrow> Inl (mg_err ''list queues'') | Some docs \<Rightarrow> Inr (map toPolicy docs)))"

definition mg_SetQueuePolicy :: "'s driver \<Rightarrow> gtime \<Rightarrow> queue_policy \<Rightarrow> 's \<Rightarrow> gerror option \<times> 's" where
  "mg_SetQueuePolicy dr now q s =
     (if qp_Name q = [] then (Some (mg_err ''queue name must not be empty''), s)
      else case dv_UpdateOne dr QueuesCol (queue_filter (qp_Name q)) (UpOps
          [USet [(''ttl_ms'', BInt (milliseconds (qp_TTL q))), (''max_attempts'', BInt (qp_MaxAttempts q)),
                 (''updated_at'', btime now)],
           USetOnInsert [(''created_at'', btime now)]]) True s of
        (Inl _, s') \<Rightarrow> (Some (mg_err (''set queue policy '' @ qp_Name q)), s')
      | (Inr _, s') \<Rightarrow> (None, s'))"

end
