(* ===== verification/Mongo_Metrics.thy ===== *)
theory Mongo_Metrics
  imports Mongo_Registry
begin

text \<open>
  The metrics of the MongoDB store: \<open>stores/mongostore/metrics.go\<close>. Gauges are one document per
  queue and window, counters one per manager, queue and window; the unique index on queue, window,
  kind and manager makes the first gauge win.
\<close>

section \<open>Metric documents\<close>

record metric_doc =
  md_Queue :: string
  md_WindowStart :: gtime
  md_WindowMS :: int
  md_Kind :: string
  md_ManagerID :: string
  md_Pending :: int
  md_Running :: int
  md_Done :: int
  md_Dead :: int
  md_OldestDueAgeMS :: int
  md_Enqueued :: int
  md_Claimed :: int
  md_CDone :: int
  md_CFailed :: int
  md_CDead :: int

definition omit_int :: "string \<Rightarrow> int \<Rightarrow> bdoc" where
  "omit_int k n = omit_when (n = 0) k (BInt n)"

definition md_marshal :: "metric_doc \<Rightarrow> bdoc" where
  "md_marshal d = [(''queue'', BStr (md_Queue d)), (''window_start'', btime (md_WindowStart d)),
     (''window_ms'', BInt (md_WindowMS d)), (''kind'', BStr (md_Kind d)), (''manager_id'', BStr (md_ManagerID d))] @
     omit_int ''pending'' (md_Pending d) @ omit_int ''running'' (md_Running d) @
     omit_int ''done'' (md_Done d) @ omit_int ''dead'' (md_Dead d) @
     omit_int ''oldest_due_age_ms'' (md_OldestDueAgeMS d) @
     omit_int ''enqueued'' (md_Enqueued d) @ omit_int ''claimed'' (md_Claimed d) @
     omit_int ''c_done'' (md_CDone d) @ omit_int ''c_failed'' (md_CFailed d) @ omit_int ''c_dead'' (md_CDead d)"

definition md_decode :: "bdoc \<Rightarrow> metric_doc option" where
  "md_decode d = do {
     q \<leftarrow> get_str ''queue'' d; w \<leftarrow> get_time ''window_start'' d; ms \<leftarrow> get_int ''window_ms'' d;
     k \<leftarrow> get_str ''kind'' d; mid \<leftarrow> get_str ''manager_id'' d;
     p \<leftarrow> get_int ''pending'' d; r \<leftarrow> get_int ''running'' d; dn \<leftarrow> get_int ''done'' d; dd \<leftarrow> get_int ''dead'' d;
     age \<leftarrow> get_int ''oldest_due_age_ms'' d; en \<leftarrow> get_int ''enqueued'' d; cl \<leftarrow> get_int ''claimed'' d;
     cdn \<leftarrow> get_int ''c_done'' d; cf \<leftarrow> get_int ''c_failed'' d; cdd \<leftarrow> get_int ''c_dead'' d;
     Some \<lparr>md_Queue = q, md_WindowStart = w, md_WindowMS = ms, md_Kind = k, md_ManagerID = mid,
       md_Pending = p, md_Running = r, md_Done = dn, md_Dead = dd, md_OldestDueAgeMS = age,
       md_Enqueued = en, md_Claimed = cl, md_CDone = cdn, md_CFailed = cf, md_CDead = cdd\<rparr> }"

definition blank_metric :: "string \<Rightarrow> gtime \<Rightarrow> duration \<Rightarrow> string \<Rightarrow> string \<Rightarrow> metric_doc" where
  "blank_metric q windowStart window kind managerID =
     \<lparr>md_Queue = q, md_WindowStart = windowStart, md_WindowMS = milliseconds window, md_Kind = kind,
      md_ManagerID = managerID, md_Pending = 0, md_Running = 0, md_Done = 0, md_Dead = 0,
      md_OldestDueAgeMS = 0, md_Enqueued = 0, md_Claimed = 0, md_CDone = 0, md_CFailed = 0, md_CDead = 0\<rparr>"

section \<open>Operations\<close>

text \<open>
  \<open>int32(retention.Seconds())\<close>; a retention beyond 68 years, where the conversion overflows, is out
  of scope.
\<close>

definition retention_secs :: "duration \<Rightarrow> int" where
  "retention_secs d = sint d sdiv 1000000000"

definition mg_EnsureMetrics :: "'s driver \<Rightarrow> duration \<Rightarrow> 's \<Rightarrow> gerror option \<times> 's" where
  "mg_EnsureMetrics dr retention s =
     (case dv_CreateMetricsIndexes dr (retention_secs retention) s of
        (None, s') \<Rightarrow> (None, s')
      | (Some e, s') \<Rightarrow>
          if e = CommandError 85
          then (case dv_CollModTTL dr (retention_secs retention) s' of
                  (None, s'') \<Rightarrow> (None, s'')
                | (Some _, s'') \<Rightarrow> (Some (mg_err ''update metrics retention''), s''))
          else (Some (mg_err ''ensure metrics''), s'))"

definition count_status :: "'s driver \<Rightarrow> string \<Rightarrow> status \<Rightarrow> 's \<Rightarrow> serr + int" where
  "count_status dr q st s = dv_Count dr TasksCol
     (FAnd [FField ''queue'' (CEq (BStr q)), FField ''status'' (CEq (BStr (status_str st)))]) s"

definition due_filter :: "string \<Rightarrow> gtime \<Rightarrow> bfilter" where
  "due_filter q now = FAnd [FField ''queue'' (CEq (BStr q)), FField ''status'' (CEq (BStr ''pending'')),
     FField ''run_at'' (CLte (btime now))]"

text \<open>The age of the oldest due task of a queue in milliseconds, 0 when none is due.\<close>

definition oldest_due_age :: "'s driver \<Rightarrow> string \<Rightarrow> gtime \<Rightarrow> 's \<Rightarrow> serr + int" where
  "oldest_due_age dr q now s =
     (case dv_FindOne dr TasksCol (due_filter q now) [(''run_at'', True)] [''run_at''] s of
        Inr d \<Rightarrow> (case get_time ''run_at'' d of
            None \<Rightarrow> Inl (ServerErr ''decode'') | Some t \<Rightarrow> Inr (milliseconds (sub_time now t)))
      | Inl NoDocuments \<Rightarrow> Inr 0
      | Inl e \<Rightarrow> Inl e)"

definition gauges_doc ::
  "'s driver \<Rightarrow> gtime \<Rightarrow> string \<Rightarrow> gtime \<Rightarrow> duration \<Rightarrow> 's \<Rightarrow> serr + metric_doc" where
  "gauges_doc dr now q windowStart window s =
     (case count_status dr q StatusPending s of Inl e \<Rightarrow> Inl e | Inr np \<Rightarrow>
      case count_status dr q StatusRunning s of Inl e \<Rightarrow> Inl e | Inr nr \<Rightarrow>
      case count_status dr q StatusDone s of Inl e \<Rightarrow> Inl e | Inr nd \<Rightarrow>
      case count_status dr q StatusDead s of Inl e \<Rightarrow> Inl e | Inr nx \<Rightarrow>
      case oldest_due_age dr q now s of Inl e \<Rightarrow> Inl e | Inr age \<Rightarrow>
        Inr ((blank_metric q windowStart window ''gauges'' [])
          \<lparr>md_Pending := np, md_Running := nr, md_Done := nd, md_Dead := nx, md_OldestDueAgeMS := age\<rparr>))"

fun mg_SnapshotMetrics ::
  "'s driver \<Rightarrow> gtime \<Rightarrow> string list \<Rightarrow> gtime \<Rightarrow> duration \<Rightarrow> 's \<Rightarrow> gerror option \<times> 's" where
  "mg_SnapshotMetrics dr now [] windowStart window s = (None, s)"
| "mg_SnapshotMetrics dr now (q # qs) windowStart window s =
     (case gauges_doc dr now q windowStart window s of
        Inl _ \<Rightarrow> (Some (mg_err (''snapshot '' @ q)), s)
      | Inr doc \<Rightarrow> (case dv_InsertOne dr MetricsCol (md_marshal doc) s of
          (Some e, s') \<Rightarrow>
            if is_dup_key e then mg_SnapshotMetrics dr now qs windowStart window s'
            else (Some (mg_err (''snapshot '' @ q)), s')
        | (None, s') \<Rightarrow> mg_SnapshotMetrics dr now qs windowStart window s'))"

definition counters_doc :: "string \<Rightarrow> gtime \<Rightarrow> duration \<Rightarrow> string \<times> queue_counters \<Rightarrow> metric_doc" where
  "counters_doc managerID windowStart window qc = (case qc of (q, c) \<Rightarrow>
     (blank_metric q windowStart window ''counters'' managerID)
       \<lparr>md_Enqueued := qc_Enqueued c, md_Claimed := qc_Claimed c, md_CDone := qc_Done c,
        md_CFailed := qc_Failed c, md_CDead := qc_Dead c\<rparr>)"

definition mg_RecordCounters ::
  "'s driver \<Rightarrow> string \<Rightarrow> gtime \<Rightarrow> duration \<Rightarrow> queue_counters amap \<Rightarrow> 's \<Rightarrow> gerror option \<times> 's" where
  "mg_RecordCounters dr managerID windowStart window counters s =
     (if counters = [] then (None, s)
      else case dv_InsertMany dr MetricsCol (map (md_marshal \<circ> counters_doc managerID windowStart window) counters) s of
        (None, s') \<Rightarrow> (None, s')
      | (Some e, s') \<Rightarrow> (if is_dup_key e then None else Some (mg_err ''record counters''), s'))"

end
