(* ===== verification/Mongo_Introspection.thy ===== *)
theory Mongo_Introspection
  imports Mongo_Metrics
begin

text \<open>
  The read and admin surface: \<open>stores/mongostore/introspection.go\<close>. Listings are paged by a cursor
  (the last id or name of the page); metrics are merged by window.
\<close>

section \<open>Tasks\<close>

record task_query =
  tq_Queue :: string
  tq_Status :: string
  tq_Type :: string
  tq_Limit :: int
  tq_Before :: string

definition clamp_limit :: "int \<Rightarrow> int" where
  "clamp_limit n = (let l = (if n \<le> 0 then 50 else n) in if l > 200 then 200 else l)"

definition query_filter :: "task_query \<Rightarrow> bfilter list" where
  "query_filter q =
     (if tq_Queue q \<noteq> [] then [FField ''queue'' (CEq (BStr (tq_Queue q)))] else []) @
     (if tq_Status q \<noteq> [] then [FField ''status'' (CEq (BStr (tq_Status q)))] else []) @
     (if tq_Type q \<noteq> [] then [FField ''type'' (CEq (BStr (tq_Type q)))] else [])"

definition before_filter :: "'s driver \<Rightarrow> task_query \<Rightarrow> gerror + bfilter list" where
  "before_filter dr q =
     (if tq_Before q = [] then Inr []
      else case oid_of dr (tq_Before q) of Inl e \<Rightarrow> Inl e | Inr k \<Rightarrow> Inr [FField ''_id'' (CLt (BOid k))])"

definition mg_ListTasks :: "'s driver \<Rightarrow> task_query \<Rightarrow> 's \<Rightarrow> gerror + task list \<times> int" where
  "mg_ListTasks dr q s =
     (case dv_Count dr TasksCol (FAnd (query_filter q)) s of
        Inl _ \<Rightarrow> Inl (mg_err ''list tasks'')
      | Inr cnt \<Rightarrow> (case before_filter dr q of
          Inl e \<Rightarrow> Inl e
        | Inr cursor \<Rightarrow>
            (case dv_Find dr TasksCol (FAnd (query_filter q @ cursor)) [(''_id'', False)]
                    (Some (nat (clamp_limit (tq_Limit q)))) [] s of
               Inl _ \<Rightarrow> Inl (mg_err ''list tasks'')
             | Inr ds \<Rightarrow> (case all_results (map (decode_task dr ''list tasks'') ds) of
                 Inl e \<Rightarrow> Inl e | Inr ts \<Rightarrow> Inr (ts, cnt)))))"

definition id_filter :: "oid \<Rightarrow> bfilter" where
  "id_filter k = FField ''_id'' (CEq (BOid k))"

definition mg_GetTask :: "'s driver \<Rightarrow> string \<Rightarrow> 's \<Rightarrow> gerror + task" where
  "mg_GetTask dr i s = (case oid_of dr i of
     Inl e \<Rightarrow> Inl e
   | Inr k \<Rightarrow> (case dv_FindOne dr TasksCol (id_filter k) [] [] s of
       Inr d \<Rightarrow> decode_task dr ''get task'' d
     | Inl NoDocuments \<Rightarrow> Inl (ErrNotFound i)
     | Inl _ \<Rightarrow> Inl (mg_err ''get task'')))"

definition mg_DeleteTask :: "'s driver \<Rightarrow> string \<Rightarrow> 's \<Rightarrow> gerror option \<times> 's" where
  "mg_DeleteTask dr i s = (case oid_of dr i of
     Inl e \<Rightarrow> (Some e, s)
   | Inr k \<Rightarrow> (case dv_DeleteOne dr TasksCol (id_filter k) s of
       (Inl _, s') \<Rightarrow> (Some (mg_err ''delete task''), s')
     | (Inr n, s') \<Rightarrow> (if n = 0 then Some (ErrNotFound i) else None, s')))"

definition mg_RequeueDeadByQueue :: "'s driver \<Rightarrow> gtime \<Rightarrow> string \<Rightarrow> 's \<Rightarrow> (gerror + int) \<times> 's" where
  "mg_RequeueDeadByQueue dr now q s =
     (case dv_UpdateMany dr TasksCol
             (FAnd [FField ''status'' (CEq (BStr ''dead'')), FField ''queue'' (CEq (BStr q))]) (requeueUpdate now) s of
        (Inl _, s') \<Rightarrow> (Inl (mg_err ''requeue dead by queue''), s')
      | (Inr n, s') \<Rightarrow> (Inr n, s'))"

section \<open>Queues\<close>

record queue_overview =
  qo_Name :: string
  qo_TTL :: duration
  qo_MaxAttempts :: int
  qo_Pending :: int
  qo_Running :: int
  qo_Done :: int
  qo_Dead :: int
  qo_OldestDueAgeMS :: int

text \<open>The four counts are a \<open>range\<close> loop over a map; their order does not matter to the result.\<close>

definition overviewRow :: "'s driver \<Rightarrow> gtime \<Rightarrow> queue_policy \<Rightarrow> 's \<Rightarrow> gerror + queue_overview" where
  "overviewRow dr now p s = (let e = mg_err (''overview '' @ qp_Name p) in
     case count_status dr (qp_Name p) StatusPending s of Inl _ \<Rightarrow> Inl e | Inr np \<Rightarrow>
     case count_status dr (qp_Name p) StatusRunning s of Inl _ \<Rightarrow> Inl e | Inr nr \<Rightarrow>
     case count_status dr (qp_Name p) StatusDone s of Inl _ \<Rightarrow> Inl e | Inr nd \<Rightarrow>
     case count_status dr (qp_Name p) StatusDead s of Inl _ \<Rightarrow> Inl e | Inr nx \<Rightarrow>
     case oldest_due_age dr (qp_Name p) now s of Inl _ \<Rightarrow> Inl e | Inr age \<Rightarrow>
       Inr \<lparr>qo_Name = qp_Name p, qo_TTL = qp_TTL p, qo_MaxAttempts = qp_MaxAttempts p, qo_Pending = np,
            qo_Running = nr, qo_Done = nd, qo_Dead = nx, qo_OldestDueAgeMS = age\<rparr>)"

definition overview_page :: "'s driver \<Rightarrow> string \<Rightarrow> int \<Rightarrow> 's \<Rightarrow> gerror + queue_doc list" where
  "overview_page dr after limit s =
     (case dv_Find dr QueuesCol (FAnd (if after \<noteq> [] then [FField ''_id'' (CGt (BStr after))] else []))
             [(''_id'', True)] (Some (nat limit)) [] s of
        Inl _ \<Rightarrow> Inl (mg_err ''overview'')
      | Inr ds \<Rightarrow> (case those (map qd_decode ds) of
          None \<Rightarrow> Inl (mg_err ''overview'') | Some docs \<Rightarrow> Inr docs))"

definition next_page :: "queue_doc list \<Rightarrow> int \<Rightarrow> string" where
  "next_page docs limit = (if int (length docs) = limit then qd_Name (last docs) else [])"

definition mg_Overview ::
  "'s driver \<Rightarrow> gtime \<Rightarrow> string \<Rightarrow> int \<Rightarrow> 's \<Rightarrow> gerror + queue_overview list \<times> string \<times> int" where
  "mg_Overview dr now after limit0 s =
     (let limit = clamp_limit limit0
      in case dv_Count dr QueuesCol (FAnd []) s of
           Inl _ \<Rightarrow> Inl (mg_err ''overview'')
         | Inr cnt \<Rightarrow> (case overview_page dr after limit s of
             Inl e \<Rightarrow> Inl e
           | Inr docs \<Rightarrow> (case all_results (map (\<lambda>d. overviewRow dr now (toPolicy d) s) docs) of
               Inl e \<Rightarrow> Inl e
             | Inr rows \<Rightarrow> Inr (rows, next_page docs limit, cnt))))"

definition mg_QueueDetail :: "'s driver \<Rightarrow> gtime \<Rightarrow> string \<Rightarrow> 's \<Rightarrow> gerror + queue_overview" where
  "mg_QueueDetail dr now name s =
     (case dv_FindOne dr QueuesCol (queue_filter name) [] [] s of
        Inr d \<Rightarrow> (case qd_decode d of
            None \<Rightarrow> Inl (mg_err ''queue detail'') | Some doc \<Rightarrow> overviewRow dr now (toPolicy doc) s)
      | Inl NoDocuments \<Rightarrow> Inl (ErrNotFound (''queue '' @ name))
      | Inl _ \<Rightarrow> Inl (mg_err ''queue detail''))"

section \<open>Metric series\<close>

record metric_point =
  mp_WindowStart :: gtime
  mp_Pending :: int
  mp_Running :: int
  mp_Done :: int
  mp_Dead :: int
  mp_OldestDueAgeMS :: int
  mp_Enqueued :: int
  mp_Claimed :: int
  mp_CDone :: int
  mp_CFailed :: int
  mp_CDead :: int

definition new_point :: "gtime \<Rightarrow> metric_point" where
  "new_point w = \<lparr>mp_WindowStart = w, mp_Pending = 0, mp_Running = 0, mp_Done = 0, mp_Dead = 0,
     mp_OldestDueAgeMS = 0, mp_Enqueued = 0, mp_Claimed = 0, mp_CDone = 0, mp_CFailed = 0, mp_CDead = 0\<rparr>"

text \<open>
  \<open>byWindow\<close> is a map from window starts to points; \<open>point\<close> finds or adds one, which the caller
  then writes.
\<close>

type_synonym by_window = "(gtime \<times> metric_point) list"

definition at_point :: "gtime \<Rightarrow> (metric_point \<Rightarrow> metric_point) \<Rightarrow> by_window \<Rightarrow> by_window" where
  "at_point w f m = AList.update w (f (case map_of m w of Some p \<Rightarrow> p | None \<Rightarrow> new_point w)) m"

definition put_gauges :: "metric_doc \<Rightarrow> by_window \<Rightarrow> by_window" where
  "put_gauges g = at_point (md_WindowStart g) (\<lambda>p. p\<lparr>mp_Pending := md_Pending g, mp_Running := md_Running g,
     mp_Done := md_Done g, mp_Dead := md_Dead g, mp_OldestDueAgeMS := md_OldestDueAgeMS g\<rparr>)"

text \<open>The rows of the aggregation: the window is the group's \<open>_id\<close>, the sums keep their names.\<close>

record counter_sums =
  cs_Window :: gtime
  cs_Enqueued :: int
  cs_Claimed :: int
  cs_CDone :: int
  cs_CFailed :: int
  cs_CDead :: int

definition cs_decode :: "bdoc \<Rightarrow> counter_sums option" where
  "cs_decode d = do {
     w \<leftarrow> get_time ''_id'' d; en \<leftarrow> get_int ''enqueued'' d; cl \<leftarrow> get_int ''claimed'' d;
     cdn \<leftarrow> get_int ''c_done'' d; cf \<leftarrow> get_int ''c_failed'' d; cdd \<leftarrow> get_int ''c_dead'' d;
     Some \<lparr>cs_Window = w, cs_Enqueued = en, cs_Claimed = cl, cs_CDone = cdn, cs_CFailed = cf, cs_CDead = cdd\<rparr> }"

definition put_sums :: "counter_sums \<Rightarrow> by_window \<Rightarrow> by_window" where
  "put_sums c = at_point (cs_Window c) (\<lambda>p. p\<lparr>mp_Enqueued := cs_Enqueued c, mp_Claimed := cs_Claimed c,
     mp_CDone := cs_CDone c, mp_CFailed := cs_CFailed c, mp_CDead := cs_CDead c\<rparr>)"

text \<open>
  The insertion sort of the points: the inner loop moves \<open>ps[i]\<close> left while it is before its left
  neighbour. The sorted prefix is kept reversed, so that loop is a recursion from its head.
\<close>

fun sink :: "metric_point \<Rightarrow> metric_point list \<Rightarrow> metric_point list" where
  "sink p [] = [p]"
| "sink p (q # rs) = (if mp_WindowStart p < mp_WindowStart q then q # sink p rs else p # q # rs)"

definition sortMetricPoints :: "metric_point list \<Rightarrow> metric_point list" where
  "sortMetricPoints ps = rev (fold sink ps [])"

definition series_filter :: "string \<Rightarrow> string \<Rightarrow> gtime \<Rightarrow> bfilter" where
  "series_filter queue kind start = FAnd [FField ''queue'' (CEq (BStr queue)), FField ''kind'' (CEq (BStr kind)),
     FField ''window_start'' (CGte (btime start))]"

definition mg_MetricsSeries :: "'s driver \<Rightarrow> string \<Rightarrow> gtime \<Rightarrow> 's \<Rightarrow> gerror + metric_point list" where
  "mg_MetricsSeries dr queue start s = (let e = mg_err ''metrics series'' in
     case dv_Find dr MetricsCol (series_filter queue ''gauges'' start) [] None [] s of
       Inl _ \<Rightarrow> Inl e
     | Inr ds \<Rightarrow> (case those (map md_decode ds) of
         None \<Rightarrow> Inl e
       | Some gauges \<Rightarrow>
           (case dv_GroupSum dr MetricsCol (series_filter queue ''counters'' start) ''window_start''
                   [''enqueued'', ''claimed'', ''c_done'', ''c_failed'', ''c_dead''] s of
              Inl _ \<Rightarrow> Inl e
            | Inr gs \<Rightarrow> (case those (map cs_decode gs) of
                None \<Rightarrow> Inl e
              | Some sums \<Rightarrow> Inr (sortMetricPoints (map snd (fold put_sums sums (fold put_gauges gauges []))))))))"

end
