(* ===== verification/Dashboard.thy ===== *)
theory Dashboard
  imports Mongo_Introspection
begin

text \<open>
  The dashboard's HTTP interface: \<open>dashboard/dashboard.go\<close>. A request is its method, the segments of
  its path (cleaned and unescaped by \<open>net/http\<close>) and its query; a response is its status and the value
  the body encodes. The handlers work on the MongoDB store directly.
\<close>

section \<open>Requests and responses\<close>

text \<open>\<open>rq_Query\<close> is \<open>URL.Query().Get\<close>: the empty string for a parameter that is not there.\<close>

record http_request =
  rq_Method :: string
  rq_Path :: "string list"
  rq_Query :: "string \<Rightarrow> string"

datatype http_body =
    IndexPage
  | PlainText string
  | ErrorBody gerror
  | OverviewBody "queue_overview list" string int
  | QueueBody queue_overview
  | TasksBody "task list" string int
  | TaskBody task
  | OkBody
  | RequeuedBody int
  | PointsBody "metric_point list"

type_synonym response = "int \<times> http_body"

definition writeErr :: "gerror \<Rightarrow> response" where
  "writeErr e = (case e of ErrNotFound _ \<Rightarrow> (404, ErrorBody e) | _ \<Rightarrow> (500, ErrorBody e))"

text \<open>
  The value of \<open>strconv.Atoi\<close> whose error is dropped: 0 for what is no number, the nearest 64-bit
  integer for one out of range. \<open>uint_loop\<close> saturates at the first digit that leaves 64 bits.
\<close>

fun uint_loop :: "string \<Rightarrow> int \<Rightarrow> int option" where
  "uint_loop [] n = Some n"
| "uint_loop (c # cs) n =
     (let d = of_char c - 48
      in if d < 0 \<or> 9 < d then None
         else if 2 ^ 64 \<le> 10 * n + d then Some (2 ^ 64 - 1)
         else uint_loop cs (10 * n + d))"

definition atoi :: "string \<Rightarrow> int" where
  "atoi s =
     (let neg = (take 1 s = ''-''); t = (if take 1 s = ''-'' \<or> take 1 s = ''+'' then drop 1 s else s)
      in if t = [] then 0
         else case uint_loop t 0 of
           None \<Rightarrow> 0
         | Some u \<Rightarrow>
             if \<not> neg \<and> 2 ^ 63 \<le> u then 2 ^ 63 - 1
             else if neg \<and> 2 ^ 63 < u then - (2 ^ 63)
             else if neg then - u else u)"

section \<open>Handlers\<close>

definition overview :: "'s driver \<Rightarrow> gtime \<Rightarrow> http_request \<Rightarrow> 's \<Rightarrow> response" where
  "overview dr now r s = (case mg_Overview dr now (rq_Query r ''after'') (atoi (rq_Query r ''limit'')) s of
     Inl e \<Rightarrow> writeErr e
   | Inr (rows, next, n) \<Rightarrow> (200, OverviewBody rows next n))"

definition queueDetail :: "'s driver \<Rightarrow> gtime \<Rightarrow> string \<Rightarrow> 's \<Rightarrow> response" where
  "queueDetail dr now name s = (case mg_QueueDetail dr now name s of
     Inl e \<Rightarrow> writeErr e | Inr row \<Rightarrow> (200, QueueBody row))"

definition request_query :: "http_request \<Rightarrow> task_query" where
  "request_query r = \<lparr>tq_Queue = rq_Query r ''queue'', tq_Status = rq_Query r ''status'',
     tq_Type = rq_Query r ''type'', tq_Limit = atoi (rq_Query r ''limit''), tq_Before = rq_Query r ''before''\<rparr>"

definition next_before :: "task list \<Rightarrow> string" where
  "next_before ts = (if ts = [] then [] else t_ID (last ts))"

definition listTasks :: "'s driver \<Rightarrow> http_request \<Rightarrow> 's \<Rightarrow> response" where
  "listTasks dr r s = (case mg_ListTasks dr (request_query r) s of
     Inl e \<Rightarrow> writeErr e
   | Inr (tasks, n) \<Rightarrow> (200, TasksBody tasks (next_before tasks) n))"

definition getTask :: "'s driver \<Rightarrow> string \<Rightarrow> 's \<Rightarrow> response" where
  "getTask dr i s = (case mg_GetTask dr i s of Inl e \<Rightarrow> writeErr e | Inr t \<Rightarrow> (200, TaskBody t))"

definition requeueTask :: "'s driver \<Rightarrow> gtime \<Rightarrow> string \<Rightarrow> 's \<Rightarrow> response \<times> 's" where
  "requeueTask dr now i s = (case mg_Requeue dr now i s of
     (Some e, s') \<Rightarrow> (writeErr e, s') | (None, s') \<Rightarrow> ((200, OkBody), s'))"

definition deleteTask :: "'s driver \<Rightarrow> string \<Rightarrow> 's \<Rightarrow> response \<times> 's" where
  "deleteTask dr i s = (case mg_DeleteTask dr i s of
     (Some e, s') \<Rightarrow> (writeErr e, s') | (None, s') \<Rightarrow> ((200, OkBody), s'))"

definition requeueDead :: "'s driver \<Rightarrow> gtime \<Rightarrow> string \<Rightarrow> 's \<Rightarrow> response \<times> 's" where
  "requeueDead dr now name s = (case mg_RequeueDeadByQueue dr now name s of
     (Inl e, s') \<Rightarrow> (writeErr e, s') | (Inr n, s') \<Rightarrow> ((200, RequeuedBody n), s'))"

text \<open>
  \<open>dur\<close> is \<open>time.ParseDuration\<close>, \<open>None\<close> its error; a value out of range, or none, means one hour.
\<close>

definition metrics_since :: "(string \<Rightarrow> duration option) \<Rightarrow> string \<Rightarrow> duration" where
  "metrics_since dur v =
     (if v = [] then hours 1
      else case dur v of
        Some d \<Rightarrow> (if 0 < sint d \<and> sint d \<le> sint (hours (30 * 24)) then d else hours 1)
      | None \<Rightarrow> hours 1)"

definition metrics :: "'s driver \<Rightarrow> (string \<Rightarrow> duration option) \<Rightarrow> gtime \<Rightarrow> http_request \<Rightarrow> 's \<Rightarrow> response" where
  "metrics dr dur now r s =
     (if rq_Query r ''queue'' = [] then (400, ErrorBody (ErrOther ''queue parameter required''))
      else case mg_MetricsSeries dr (rq_Query r ''queue'')
                  (add_time now (- metrics_since dur (rq_Query r ''since''))) s of
        Inl e \<Rightarrow> writeErr e
      | Inr points \<Rightarrow> (200, PointsBody points))"

section \<open>Routes\<close>

datatype endpoint =
    Index | Overview | QueueDetail | ListTasks | GetTask | RequeueTask | DeleteTask | RequeueDeadTasks | Metrics

datatype segment = Lit string | Wild

definition routes :: "(string \<times> segment list \<times> endpoint) list" where
  "routes =
     [(''GET'', [], Index),
      (''GET'', [Lit ''api'', Lit ''overview''], Overview),
      (''GET'', [Lit ''api'', Lit ''queues'', Wild], QueueDetail),
      (''GET'', [Lit ''api'', Lit ''tasks''], ListTasks),
      (''GET'', [Lit ''api'', Lit ''tasks'', Wild], GetTask),
      (''POST'', [Lit ''api'', Lit ''tasks'', Wild, Lit ''requeue''], RequeueTask),
      (''DELETE'', [Lit ''api'', Lit ''tasks'', Wild], DeleteTask),
      (''POST'', [Lit ''api'', Lit ''queues'', Wild, Lit ''requeue-dead''], RequeueDeadTasks),
      (''GET'', [Lit ''api'', Lit ''metrics''], Metrics)]"

text \<open>The value of a path's wildcard, the empty string when the pattern has none.\<close>

fun path_match :: "segment list \<Rightarrow> string list \<Rightarrow> string \<Rightarrow> string option" where
  "path_match [] [] v = Some v"
| "path_match (Lit a # ps) (b # bs) v = (if a = b then path_match ps bs v else None)"
| "path_match (Wild # ps) (b # bs) v = path_match ps bs b"
| "path_match _ _ v = None"

text \<open>The multiplexer: a \<open>GET\<close> pattern serves \<open>HEAD\<close> too.\<close>

definition method_match :: "string \<Rightarrow> string \<Rightarrow> bool" where
  "method_match pattern m \<longleftrightarrow> m = pattern \<or> pattern = ''GET'' \<and> m = ''HEAD''"

definition find_route :: "http_request \<Rightarrow> (endpoint \<times> string) option" where
  "find_route r = (case filter (\<lambda>(m, p, e). method_match m (rq_Method r) \<and> path_match p (rq_Path r) [] \<noteq> None) routes of
     [] \<Rightarrow> None
   | (m, p, e) # _ \<Rightarrow> Some (e, the (path_match p (rq_Path r) [])))"

definition no_route :: "http_request \<Rightarrow> response" where
  "no_route r = (if \<exists>(m, p, e) \<in> set routes. path_match p (rq_Path r) [] \<noteq> None
     then (405, PlainText ''Method Not Allowed'') else (404, PlainText ''404 page not found''))"

definition serve ::
  "'s driver \<Rightarrow> (string \<Rightarrow> duration option) \<Rightarrow> gtime \<Rightarrow> http_request \<Rightarrow> 's \<Rightarrow> response \<times> 's" where
  "serve dr dur now r s = (case find_route r of
     None \<Rightarrow> (no_route r, s)
   | Some (Index, _) \<Rightarrow> ((200, IndexPage), s)
   | Some (Overview, _) \<Rightarrow> (overview dr now r s, s)
   | Some (QueueDetail, v) \<Rightarrow> (queueDetail dr now v s, s)
   | Some (ListTasks, _) \<Rightarrow> (listTasks dr r s, s)
   | Some (GetTask, v) \<Rightarrow> (getTask dr v s, s)
   | Some (RequeueTask, v) \<Rightarrow> requeueTask dr now v s
   | Some (DeleteTask, v) \<Rightarrow> deleteTask dr v s
   | Some (RequeueDeadTasks, v) \<Rightarrow> requeueDead dr now v s
   | Some (Metrics, _) \<Rightarrow> (metrics dr dur now r s, s))"

end
