(* ===== verification/Chaos_Worker.thy ===== *)
theory Chaos_Worker
  imports Config_Props Mongo_Ops Dashboard
begin

text \<open>
  The worker process of the chaos tests (\<open>internal/chaosworker/main.go\<close>): the settings it reads from
  its environment, the options it makes of them, its handler and its start. \<open>lookup\<close> is \<open>os.Getenv\<close>
  and \<open>parse\<close> is \<open>time.ParseDuration\<close>.
\<close>

section \<open>The environment\<close>

definition env_or :: "(string \<Rightarrow> string) \<Rightarrow> string \<Rightarrow> string \<Rightarrow> string" where
  "env_or lookup key def = (if lookup key \<noteq> [] then lookup key else def)"

definition env_dur :: "(string \<Rightarrow> string) \<Rightarrow> (string \<Rightarrow> duration option) \<Rightarrow> string \<Rightarrow> duration \<Rightarrow> duration" where
  "env_dur lookup parse key def = (case parse (lookup key) of
     Some d \<Rightarrow> if 0 < sint d then d else def
   | None \<Rightarrow> def)"

text \<open>\<open>strconv.Atoi\<close> where the caller reads its error: no number, or none that fits 64 bits, is \<open>None\<close>.\<close>

definition Atoi :: "string \<Rightarrow> int option" where
  "Atoi s =
     (let neg = (take 1 s = ''-''); t = (if take 1 s = ''-'' \<or> take 1 s = ''+'' then drop 1 s else s)
      in if t = [] then None
         else case uint_loop t 0 of
           None \<Rightarrow> None
         | Some u \<Rightarrow> if \<not> neg \<and> 2 ^ 63 \<le> u \<or> neg \<and> 2 ^ 63 < u then None else Some (if neg then - u else u))"

lemma Atoi_atoi: "Atoi s = Some n \<Longrightarrow> atoi s = n"
  by (auto simp: Atoi_def atoi_def Let_def split: if_splits option.splits)

record chaos_env =
  ce_lease :: duration
  ce_qlease :: duration
  ce_reap :: duration
  ce_finalize :: duration
  ce_poll :: duration
  ce_batch :: int

definition chaos_settings :: "(string \<Rightarrow> string) \<Rightarrow> (string \<Rightarrow> duration option) \<Rightarrow> chaos_env" where
  "chaos_settings lookup parse =
     (let lease = env_dur lookup parse ''GOTASKS_CHAOS_LEASE'' (seconds 60)
      in \<lparr>ce_lease = lease,
          ce_qlease = env_dur lookup parse ''GOTASKS_CHAOS_QLEASE'' lease,
          ce_reap = env_dur lookup parse ''GOTASKS_CHAOS_REAP'' (seconds 60),
          ce_finalize = env_dur lookup parse ''GOTASKS_CHAOS_FINALIZE'' (millis 300),
          ce_poll = env_dur lookup parse ''GOTASKS_CHAOS_POLL'' (seconds 2),
          ce_batch = (case Atoi (lookup ''GOTASKS_CHAOS_BATCH'') of
             Some v \<Rightarrow> if 0 < v then v else 0 | None \<Rightarrow> 0)\<rparr>)"

section \<open>The options\<close>

definition chaos_options :: "string \<Rightarrow> chaos_env \<Rightarrow> heap \<Rightarrow> goption list \<times> heap" where
  "chaos_options name e h =
     (let opts = [OQueues [\<lparr>qp_Name = ''jobs'', qp_TTL = 0, qp_MaxAttempts = 5\<rparr>,
                           \<lparr>qp_Name = ''once'', qp_TTL = 0, qp_MaxAttempts = 1\<rparr>],
                  OWorkers 4, OManagerName name, OPollInterval (ce_poll e), OLeaseTime (ce_lease e),
                  OBackoff (Some (fixed_backoff (millis 100))),
                  OJanitor \<lparr>jc_ReapInterval = ce_reap e, jc_NoReap = False, jc_Metrics = None\<rparr>]
      in if ce_batch e > 0
         then case WithPipelineMode \<lparr>pc_ClaimBatch = ce_batch e, pc_QueueLease = ce_qlease e, pc_FinalizeBatch = 0,
                  pc_FinalizeInterval = ce_finalize e, pc_NoFinalize = False\<rparr> h of
             (opt, h') \<Rightarrow> (opts @ [opt], h')
         else (opts, h))"

section \<open>The handler and the start\<close>

text \<open>
  The ledger entry comes first: \<open>ledger\<close> is the error of its insert, which fails the attempt. The
  sleep that follows has no effect. The result is the payload's number as JSON.
\<close>

definition chaos_result :: "int \<Rightarrow> json" where
  "chaos_result n = CHR ''{'' # CHR 0x22 # CHR ''n'' # CHR 0x22 # CHR '':'' #
     (if n < 0 then CHR ''-'' # digits (nat (- n)) else digits (nat n)) @ ''}''"

definition chaos_work :: "(task \<Rightarrow> string option) \<Rightarrow> gtime option \<Rightarrow> task \<Rightarrow> int \<Rightarrow> hret" where
  "chaos_work ledger ctx t n = (case ledger t of
     Some e \<Rightarrow> Returned None (Some e)
   | None \<Rightarrow> Returned (Some (Inr (chaos_result n))) None)"

text \<open>
  \<open>main\<close> up to the point where the process waits to be killed. \<open>Inl\<close> is \<open>log.Fatal\<close>. \<open>connect\<close> is the
  error of \<open>mongo.Connect\<close>, \<open>create\<close> what \<open>FromClient\<close> asks of the server, \<open>store\<close> the store it makes.
\<close>

definition chaos_main ::
  "(string \<Rightarrow> string) \<Rightarrow> (string \<Rightarrow> duration option) \<Rightarrow> gerror option \<Rightarrow>
    (string \<times> string \<Rightarrow> index_model list \<Rightarrow> serr option) \<Rightarrow> (mongostore \<Rightarrow> 's store) \<Rightarrow> gerror + nat list \<Rightarrow>
    (json \<Rightarrow> string + int) \<Rightarrow> (task \<Rightarrow> string option) \<Rightarrow> bool \<Rightarrow> heap \<Rightarrow> 's \<Rightarrow> (gerror + manager) \<times> 's" where
  "chaos_main lookup parse connect create store rnd dec ledger watch h s =
     (let db = env_or lookup ''GOTASKS_CHAOS_DB'' ''gotasks_test'';
          ns = lookup ''GOTASKS_CHAOS_NS'';
          name = env_or lookup ''GOTASKS_CHAOS_NAME'' ''chaos''
      in if ns = [] then (Inl (ErrOther ''GOTASKS_CHAOS_NS required''), s)
         else case connect of Some e \<Rightarrow> (Inl e, s) | None \<Rightarrow>
           (case mg_FromClient create [MDatabase db, MNamespace ns] of Inl e \<Rightarrow> (Inl e, s) | Inr st \<Rightarrow>
           (case chaos_options name (chaos_settings lookup parse) h of (opts, h1) \<Rightarrow>
           (case New opts rnd h1 of (Inl e, _) \<Rightarrow> (Inl e, s) | (Inr m, _) \<Rightarrow>
           (case RegisterHandler ''work'' dec 0 (Some (chaos_work ledger)) [] m of (Some e, _) \<Rightarrow> (Inl e, s) | (None, m1) \<Rightarrow>
           (case Start (store st) watch m1 s of
              (Some e, _, s1) \<Rightarrow> (Inl e, s1)
            | (None, m2, s1) \<Rightarrow> (Inr m2, s1)))))))"

section \<open>It starts\<close>

lemma env_dur_pos: "0 < sint def \<Longrightarrow> 0 < sint (env_dur lookup parse key def)"
  by (simp add: env_dur_def split: option.split)

lemma chaos_settings_pos:
  "0 < sint (ce_lease (chaos_settings lookup parse))" "0 < sint (ce_qlease (chaos_settings lookup parse))"
  "0 < sint (ce_reap (chaos_settings lookup parse))" "0 < sint (ce_finalize (chaos_settings lookup parse))"
  "0 < sint (ce_poll (chaos_settings lookup parse))" "0 \<le> ce_batch (chaos_settings lookup parse)"
proof -
  have c: "0 < sint (seconds 60)" "0 < sint (seconds 2)" "0 < sint (millis 300)" by (simp_all add: sint_seconds sint_millis)
  show "0 < sint (ce_lease (chaos_settings lookup parse))" "0 < sint (ce_qlease (chaos_settings lookup parse))"
    "0 < sint (ce_reap (chaos_settings lookup parse))" "0 < sint (ce_finalize (chaos_settings lookup parse))"
    "0 < sint (ce_poll (chaos_settings lookup parse))"
    by (simp_all add: chaos_settings_def Let_def env_dur_pos c)
  show "0 \<le> ce_batch (chaos_settings lookup parse)" by (simp add: chaos_settings_def Let_def split: option.split)
qed

text \<open>
  Whatever the environment holds, \<open>New\<close> takes the options made of it, unless the claim batch is above
  the limit of 100.
\<close>

lemma chaos_new:
  assumes "chaos_options name (chaos_settings lookup parse) h = (opts, h1)"
  shows "(\<exists>m. fst (New opts (Inr sfx) h1) = Inr m) \<longleftrightarrow> ce_batch (chaos_settings lookup parse) \<le> 100"
proof -
  note pos = chaos_settings_pos [of lookup parse]
  have "acceptable (build_config opts) h1 \<longleftrightarrow> ce_batch (chaos_settings lookup parse) \<le> 100"
    using assms pos
    by (auto simp: chaos_options_def Let_def WithPipelineMode_def build_config_def default_config_def acceptable_def
        valid_scalars_def acceptable_pipeline_def sint_seconds split: if_splits)
  then show ?thesis by (simp add: New_acceptable)
qed

text \<open>
  So a process whose name space is set and whose server answers fails to start only when the batch is too
  large or the store refuses its queues.
\<close>

lemma chaos_starts:
  assumes "lookup ''GOTASKS_CHAOS_NS'' \<noteq> []" "ce_batch (chaos_settings lookup parse) \<le> 100"
    and "\<And>st qs s. fst (st_RegisterQueues (store st) qs s) = None"
  shows "\<exists>m s'. chaos_main lookup parse None (\<lambda>_ _. None) store (Inr sfx) dec ledger watch h s = (Inr m, s') \<and>
    m_started m \<and> m_types m = [''work'']"
proof -
  let ?name = "env_or lookup ''GOTASKS_CHAOS_NAME'' ''chaos''" and ?db = "env_or lookup ''GOTASKS_CHAOS_DB'' ''gotasks_test''"
  obtain st where st: "mg_FromClient (\<lambda>_ _. None) [MDatabase ?db, MNamespace (lookup ''GOTASKS_CHAOS_NS'')] = Inr st"
    by (simp add: mg_FromClient_def mg_build_def mg_defaults_def Let_def)
  obtain opts h1 where o: "chaos_options ?name (chaos_settings lookup parse) h = (opts, h1)" by fastforce
  obtain m h2 where m: "New opts (Inr sfx) h1 = (Inr m, h2)"
    using chaos_new [OF o] assms(2) by (metis prod.collapse)
  then have fresh: "m_handlers m = []" "\<not> m_started m" "\<not> m_registered m" by (auto simp: New_def split: prod.splits sum.splits)
  obtain m1 where m1: "RegisterHandler ''work'' dec 0 (Some (chaos_work ledger)) [] m = (None, m1)"
      "keys (m_handlers m1) = [''work'']" "\<not> m_started m1" "\<not> m_registered m1"
    using fresh by (simp add: RegisterHandler_def Let_def)
  obtain s2 where r: "st_RegisterQueues (store st) (c_Queues (m_cfg m1)) s = (None, s2)"
    using assms(3) by (metis prod.collapse)
  obtain m2 where m2: "Start (store st) watch m1 s = (None, m2, s2)" "m_started m2" "m_types m2 = [''work'']"
    using m1(2-4) by (simp add: Start_def ensureRegistered_def r Let_def split: option.split)
  show ?thesis using assms(1) st o m m1(1) m2 by (simp add: chaos_main_def)
qed

end
