(* ===== verification/Manager_Enqueue.thy ===== *)
theory Manager_Enqueue
  imports Config_Props Memstore_Claims
begin

text \<open>
  Enqueueing through a manager (\<open>EnqueueMany\<close> in \<open>manager.go\<close>): what reaches the store, and what the
  hooks and counters say of it.
\<close>

section \<open>The tasks a call plans\<close>

definition due_at :: "task_policy \<Rightarrow> gtime \<Rightarrow> gtime" where
  "due_at p now = (if is_zero (tp_RunAt p) then add_time now (tp_Delay p) else tp_RunAt p)"

text \<open>
  What the documentation of \<open>TaskPolicy\<close> and \<open>QueuePolicy\<close> promises of the tasks: one per payload, in
  order, pending and unleased, due by the policy, with the inherited attempts budget and the queue's
  lifetime counted from the run time; a unique key only on a single task.
\<close>

definition planned ::
  "config \<Rightarrow> queue_policy \<Rightarrow> gtime \<Rightarrow> string \<Rightarrow> string \<Rightarrow> anyval list \<Rightarrow> task_policy list \<Rightarrow> task list \<Rightarrow> bool" where
  "planned cfg qp now queue ty pls pol ts \<longleftrightarrow> (\<exists>p. (pol = [] \<and> p = zero_policy \<or> pol = [p]) \<and>
     1 \<le> resolve_attempts cfg qp p \<and> (tp_UniqueKey p = [] \<or> length pls = 1) \<and>
     list_all2 (\<lambda>pl t. marshalPayload pl = Inr (t_Payload t) \<and>
       t = new_task queue ty p (resolve_attempts cfg qp p) (due_at p now) (expiry qp (due_at p now)) now (t_Payload t)) pls ts)"

lemma build_tasks_all2:
  "build_tasks mk pls = Inr ts \<Longrightarrow> list_all2 (\<lambda>pl t. \<exists>raw. marshalPayload pl = Inr raw \<and> t = mk raw) pls ts"
  by (induction pls arbitrary: ts) (auto split: sum.splits)

lemma plan_tasks_planned:
  assumes "plan_tasks cfg qp now queue ty pls pol = Inr ts" "pls \<noteq> []"
  shows "planned cfg qp now queue ty pls pol ts"
proof -
  define p where "p = (if length pol = 1 then hd pol else zero_policy)"
  have pol: "pol = [] \<and> p = zero_policy \<or> pol = [p]"
    using assms by (cases pol) (auto simp: plan_tasks_def p_def split: if_splits)
  let ?mk = "new_task queue ty p (resolve_attempts cfg qp p) (due_at p now) (expiry qp (due_at p now)) now"
  have r: "1 \<le> resolve_attempts cfg qp p" "tp_UniqueKey p = [] \<or> length pls = 1" "build_tasks ?mk pls = Inr ts"
    using assms by (auto simp: plan_tasks_def Let_def p_def due_at_def le_Suc_eq not_less split: if_splits)
  have "list_all2 (\<lambda>pl t. marshalPayload pl = Inr (t_Payload t) \<and> t = ?mk (t_Payload t)) pls ts"
    by (rule list_all2_mono [OF build_tasks_all2 [OF r(3)]]) (auto simp: new_task_def)
  with pol r show ?thesis unfolding planned_def by blast
qed

section \<open>Hooks and counters\<close>

definition landed :: "string list \<Rightarrow> task list \<Rightarrow> (string \<times> task) list" where
  "landed ids ts = filter (\<lambda>(i, t). i \<noteq> []) (zip ids ts)"

definition fired_events :: "manager \<Rightarrow> (string \<times> task) list \<Rightarrow> hook_event list" where
  "fired_events m its = (if hk_OnEnqueue (c_Hooks (m_cfg m)) then map (\<lambda>(i, t). OnEnqueue (t\<lparr>t_ID := i\<rparr>)) its else [])"

lemma note_inserted_spec:
  "note_inserted ids ts n m = (n + int (length (landed ids ts)), m\<lparr>m_log := m_log m @ fired_events m (landed ids ts)\<rparr>)"
  by (induction ids ts n m rule: note_inserted.induct)
    (auto simp: landed_def fireHook_def fired_events_def)

lemma count_sel [simp]: "m_log (count q f m) = m_log m" "m_cfg (count q f m) = m_cfg m" "m_queues (count q f m) = m_queues m"
  by (simp_all add: count_def split: option.split)

lemma counters_count:
  "m_counters (count q f m) = map_option (\<lambda>cs. case map_of cs q of None \<Rightarrow> cs | Some c \<Rightarrow> upd q (f c) cs) (m_counters m)"
  by (simp add: count_def split: option.split)

lemma ensureRegistered_spec:
  assumes "ensureRegistered st m s = (e, m1, s1)"
  shows "m1 = m\<lparr>m_registered := m_registered m1\<rparr> \<and> (e = None \<longrightarrow> m_registered m1) \<and>
    (s1 = s \<or> s1 = snd (st_RegisterQueues st (c_Queues (m_cfg m)) s))"
  using assms by (auto simp: ensureRegistered_def split: if_splits prod.splits option.splits)

text \<open>
  C17: enqueueing through a manager is exact. When \<open>EnqueueMany\<close> calls the store at all, it does so
  once, after the queues are registered, with exactly the tasks the policies promise, and answers what
  the store answers; the hook fires and the counter rises once for every task the store gave an id,
  in order. Otherwise it returns no ids, counts nothing, and an error unless there was no payload.
\<close>

theorem manager_enqueue_exact:
  assumes "EnqueueMany st now queue ty pls pol m s = ((ids, e), m', s')"
  shows "(ids = [] \<and> (e \<noteq> None \<or> pls = []) \<and> m_log m' = m_log m \<and> m_counters m' = m_counters m \<and>
      (s' = s \<or> s' = snd (st_RegisterQueues st (c_Queues (m_cfg m)) s))) \<or>
    (\<exists>qp ts s1. pls \<noteq> [] \<and> map_of (m_queues m) queue = Some qp \<and> planned (m_cfg m) qp now queue ty pls pol ts \<and>
      (s1 = s \<or> s1 = snd (st_RegisterQueues st (c_Queues (m_cfg m)) s)) \<and> m_registered m' \<and>
      st_Enqueue st ts s1 = ((ids, e), s') \<and> m_log m' = m_log m @ fired_events m (landed ids ts) \<and>
      m_counters m' = map_option (\<lambda>cs. case map_of cs queue of None \<Rightarrow> cs
        | Some c \<Rightarrow> upd queue (add_enqueued (int (length (landed ids ts))) c) cs) (m_counters m))"
proof (cases "ty = [] \<or> map_of (m_queues m) queue = None")
  case True
  with assms show ?thesis by (auto simp: EnqueueMany_def split: if_splits)
next
  case False
  then obtain qp where qp: "map_of (m_queues m) queue = Some qp" by auto
  obtain r m1 s1 where reg: "ensureRegistered st m s = (r, m1, s1)" by (metis prod_cases3)
  note er = ensureRegistered_spec [OF reg]
  obtain m_reg where m1: "m1 = m\<lparr>m_registered := m_reg\<rparr>" using er by blast
  show ?thesis
  proof (cases "r \<noteq> None \<or> isl (plan_tasks (m_cfg m1) qp now queue ty pls pol) \<or> pls = []")
    case True
    then have "ids = [] \<and> (e \<noteq> None \<or> pls = []) \<and> m' = m1 \<and> s' = s1"
      using assms False qp reg
      by (auto simp: EnqueueMany_def plan_tasks_def split: option.splits sum.splits)
    with er m1 show ?thesis by auto
  next
    case False': False
    then obtain ts where ts: "plan_tasks (m_cfg m1) qp now queue ty pls pol = Inr ts" "pls \<noteq> []" "r = None"
      by (metis isl_def not_None_eq old.sum.exhaust)
    have pl: "planned (m_cfg m) qp now queue ty pls pol ts" using plan_tasks_planned [OF ts(1,2)] by (simp add: m1)
    then have "ts \<noteq> []" using ts(2) by (auto simp: planned_def)
    then obtain s2 where st: "st_Enqueue st ts s1 = ((ids, e), s')"
        "m' = count queue (add_enqueued (int (length (landed ids ts)))) (m1\<lparr>m_log := m_log m1 @ fired_events m1 (landed ids ts)\<rparr>)"
      using assms False qp reg ts
      by (auto simp: EnqueueMany_def note_inserted_spec split: prod.splits)
    have "fired_events m1 = fired_events m" by (simp add: m1 fired_events_def fun_eq_iff)
    then show ?thesis using pl qp st er ts(2,3) m1 by (auto simp: counters_count count_def split: option.splits)
  qed
qed

definition demo_call :: "(string list \<times> gerror option) \<times> manager \<times> memstore" where
  "demo_call = EnqueueMany (memstore_ops (\<lambda>_. [])) 1 ''q'' ''a'' [Inr ''{}'', Inr ''{}''] [] (demo_manager []) ms_New"

lemma demo_call_ids: "length (fst (fst demo_call)) = 2 \<and> snd (fst demo_call) = None"
  by code_simp

lemma manager_enqueue_exact_witness:
  "\<exists>qp ts. planned (m_cfg (demo_manager [])) qp 1 ''q'' ''a'' [Inr ''{}'', Inr ''{}''] [] ts \<and> length ts = 2 \<and>
    m_log (fst (snd demo_call)) = m_log (demo_manager []) @ fired_events (demo_manager []) (landed (fst (fst demo_call)) ts)"
proof -
  have call: "EnqueueMany (memstore_ops (\<lambda>_. [])) 1 ''q'' ''a'' [Inr ''{}'', Inr ''{}''] [] (demo_manager []) ms_New =
      ((fst (fst demo_call), snd (fst demo_call)), fst (snd demo_call), snd (snd demo_call))"
    by (simp add: demo_call_def)
  have "fst (fst demo_call) \<noteq> []" using demo_call_ids by auto
  then obtain qp ts where
    "planned (m_cfg (demo_manager [])) qp 1 ''q'' ''a'' [Inr ''{}'', Inr ''{}''] [] ts"
    "m_log (fst (snd demo_call)) = m_log (demo_manager []) @ fired_events (demo_manager []) (landed (fst (fst demo_call)) ts)"
    using manager_enqueue_exact [OF call] by blast
  moreover from this(1) have "length ts = 2" by (auto simp: planned_def dest: list_all2_lengthD)
  ultimately show ?thesis by blast
qed

end
