(* ===== verification/Memstore_Functional.thy ===== *)
theory Memstore_Functional
  imports Memstore_Claims
begin

text \<open>
  What each operation of \<open>memstore\<close> computes, branch by branch: which tasks a claim and a batch
  take, what an enqueue, a batch of outcomes, a requeue and a sweep of expired leases leave in the
  store, the queue registry's drift guard and the metrics. The hypothesis \<open>ms_wf\<close> holds of every
  store a program reaches (\<open>mem_run_wf\<close>).
\<close>

lemma demo_wf: "ms_wf demo_store"
  unfolding demo_store_def by (rule mem_run_wf [OF demo_ok])

section \<open>Claim\<close>

text \<open>
  C16: \<open>Claim\<close> takes the oldest task it may take, by run time and then id, of the types and queues
  asked for, pending and due or running past its lease with attempts left; it changes nothing else,
  and reports \<open>ErrNoTask\<close> exactly when there is none.
\<close>

theorem memstore_claim_oldest:
  assumes "ms_wf s"
  shows "case ms_Claim now opts s of
      (Inl e, s') \<Rightarrow> e = ErrNoTask \<and> s' = s \<and>
        (\<forall>i t. map_of (ms_tasks s) i = Some t \<longrightarrow> \<not> (accepts opts t \<and> runnable now t))
    | (Inr t, s') \<Rightarrow> \<exists>b. least_eligible opts now s b \<and>
        t = claim_task opts now (lease_token (Suc (ms_seq s))) b \<and>
        map_of (ms_tasks s') = (map_of (ms_tasks s))(t_ID b \<mapsto> t)"
proof (cases "claimOneLocked opts now s")
  case (Pair r s')
  show ?thesis
  proof (cases r)
    case None
    with Pair claimOneLocked_None [OF assms, of opts now s'] show ?thesis
      by (simp add: ms_Claim_def eligible_def)
  next
    case (Some t)
    with Pair obtain b where "least_eligible opts now s b"
        "t = claim_task opts now (lease_token (Suc (ms_seq s))) b"
        "s' = s\<lparr>ms_seq := Suc (ms_seq s), ms_tasks := upd (t_ID b) t (ms_tasks s)\<rparr>"
      using claimOneLocked_SomeD [OF assms] by metis
    with Pair Some show ?thesis by (auto simp: ms_Claim_def)
  qed
qed

lemma memstore_claim_oldest_witness:
  "\<exists>b. least_eligible demo_opts 5 demo_store b \<and>
     demo_claimed = claim_task demo_opts 5 (lease_token (Suc (ms_seq demo_store))) b"
  using memstore_claim_oldest [OF demo_wf, of demo_opts 5] by (auto simp: demo_claim)

lemma memstore_claim_total:
  assumes "ms_wf s" "map_of (ms_tasks s) i = Some t" "accepts opts t" "runnable now t"
  shows "\<exists>v s'. ms_Claim now opts s = (Inr v, s')"
proof (cases "claimOneLocked opts now s")
  case (Pair r s')
  with claimOneLocked_None [OF assms(1), of opts now s'] assms(2-4) show ?thesis
    by (cases r) (auto simp: ms_Claim_def eligible_def)
qed

section \<open>ClaimBatch\<close>

text \<open>The claimable tasks in claim order.\<close>

definition backlog :: "claim_options \<Rightarrow> gtime \<Rightarrow> memstore \<Rightarrow> task list" where
  "backlog opts now s = sort_key rank (filter (\<lambda>t. accepts opts t \<and> runnable now t) (ms_Tasks s))"

lemma backlog_set: "set (backlog opts now s) = {t. t \<in> set (ms_Tasks s) \<and> eligible opts now t}"
  by (auto simp: backlog_def eligible_def)

lemma tasks_mem:
  assumes wf: "ms_wf s"
  shows "t \<in> set (ms_Tasks s) \<longleftrightarrow> map_of (ms_tasks s) (t_ID t) = Some t"
proof
  assume "t \<in> set (ms_Tasks s)"
  with wf obtain i where i: "map_of (ms_tasks s) i = Some t"
    by (auto simp: ms_Tasks_def ms_wf_entry)
  show "map_of (ms_tasks s) (t_ID t) = Some t" unfolding ms_wf_ID [OF wf i] by (rule i)
next
  assume "map_of (ms_tasks s) (t_ID t) = Some t"
  then show "t \<in> set (ms_Tasks s)" unfolding ms_Tasks_def by (force dest: map_of_SomeD)
qed

lemma tasks_inj:
  assumes wf: "ms_wf s"
  shows "inj_on rank (set (ms_Tasks s))"
proof (rule inj_onI)
  fix t u
  assume t: "t \<in> set (ms_Tasks s)" "u \<in> set (ms_Tasks s)" "rank t = rank u"
  from t(3) have "t_ID t = t_ID u" by (simp add: rank_def)
  with t(1,2) [unfolded tasks_mem [OF wf]] show "t = u" by (metis option.inject)
qed

lemma backlog_mem: "t \<in> set (backlog opts now s) \<longleftrightarrow> t \<in> set (ms_Tasks s) \<and> eligible opts now t"
  by (simp add: backlog_set)

lemma backlog_sorted: "sorted (map rank (backlog opts now s))"
  unfolding backlog_def by (rule sorted_sort_key)

lemma backlog_head:
  assumes wf: "ms_wf s" and bl: "backlog opts now s = b # bs"
  shows "least_eligible opts now s b"
proof -
  have b: "b \<in> set (ms_Tasks s)" "eligible opts now b"
    using backlog_mem [of b opts now s] by (simp_all add: bl)
  have "rank b \<le> rank t" if t: "map_of (ms_tasks s) i = Some t" "eligible opts now t" for i t
  proof -
    have "t \<in> set (ms_Tasks s)" using map_of_SomeD [OF t(1)] unfolding ms_Tasks_def set_map by (rule image_eqI [rotated]) simp
    with t(2) have "t \<in> set (b # bs)" unfolding bl [symmetric] backlog_mem by blast
    moreover have "\<forall>x \<in> set bs. rank b \<le> rank x"
      using backlog_sorted [of opts now s] unfolding bl by simp
    ultimately show ?thesis by (metis order_refl set_ConsD)
  qed
  moreover have "map_of (ms_tasks s) (t_ID b) = Some b" using b(1) unfolding tasks_mem [OF wf] .
  ultimately show ?thesis using b(2) unfolding least_eligible_def by (intro conjI allI impI) assumption+
qed

lemma backlog_Nil:
  assumes "ms_wf s"
  shows "backlog opts now s = [] \<longleftrightarrow> claimOneLocked opts now s = (None, s)"
proof -
  have "backlog opts now s = [] \<longleftrightarrow> set (backlog opts now s) = {}" by simp
  also have "\<dots> \<longleftrightarrow> (\<forall>t \<in> set (ms_Tasks s). \<not> eligible opts now t)"
    unfolding backlog_set by blast
  also have "\<dots> \<longleftrightarrow> (\<forall>i t. map_of (ms_tasks s) i = Some t \<longrightarrow> \<not> eligible opts now t)"
    using assms by (fastforce simp: ms_Tasks_def ms_wf_entry [symmetric])
  finally show ?thesis by (simp add: claimOneLocked_None [OF assms])
qed

lemma mset_tasks_upd:
  "map_of m i = Some b \<Longrightarrow> distinct (keys m) \<Longrightarrow>
    mset (map snd (upd i t m)) = mset (map snd m) - {#b#} + {#t#}"
proof (induction m)
  case (Cons p m)
  show ?case
  proof (cases "fst p = i")
    case True
    with Cons.prems show ?thesis by (cases p) auto
  next
    case False
    with Cons have "b \<in># mset (map snd m)" "mset (map snd (upd i t m)) = mset (map snd m) - {#b#} + {#t#}"
      by (cases p, force dest: map_of_SomeD)+
    with False show ?thesis by (cases p) (simp add: add_mset_commute)
  qed
qed simp

lemma backlog_claim:
  assumes wf: "ms_wf s" and bl: "backlog opts now s = b # bs" and lease: "0 \<le> sint (co_Lease opts)"
    and t: "t = claim_task opts now (lease_token (Suc (ms_seq s))) b"
    and s': "s' = s\<lparr>ms_seq := Suc (ms_seq s), ms_tasks := upd (t_ID b) t (ms_tasks s)\<rparr>"
  shows "claimOneLocked opts now s = (Some t, s')" "ms_wf s'" "backlog opts now s' = bs"
proof -
  note least = backlog_head [OF wf bl]
  show one: "claimOneLocked opts now s = (Some t, s')"
    unfolding t s' by (rule claimOneLocked_least [OF wf least])
  show wf': "ms_wf s'" by (rule claimOneLocked_wf [OF wf one])
  let ?P = "\<lambda>t. accepts opts t \<and> runnable now t"
  have b: "map_of (ms_tasks s) (t_ID b) = Some b" "?P b"
    using least by (simp_all add: least_eligible_def eligible_def)
  have nt: "\<not> ?P t" using claimed_not_runnable [OF lease] by (simp add: t)
  have "distinct (keys (ms_tasks s))" using wf unfolding ms_wf_def by blast
  with b(1) have "mset (ms_Tasks s') = mset (ms_Tasks s) - {#b#} + {#t#}"
    unfolding ms_Tasks_def s' by (simp add: mset_tasks_upd del: mset_map)
  with nt b(2) have "mset (filter ?P (ms_Tasks s')) = mset (filter ?P (ms_Tasks s)) - {#b#}"
    by (simp add: mset_filter)
  then have "mset (filter ?P (ms_Tasks s')) = mset bs"
    using bl unfolding backlog_def by (metis add_mset_remove_trivial mset.simps(2) mset_sort)
  moreover have "inj_on rank (set (filter ?P (ms_Tasks s')))"
    using tasks_inj [OF wf'] by (rule inj_on_subset) auto
  moreover have "sorted (map rank bs)"
    using bl unfolding backlog_def by (metis sorted_sort_key list.simps(9) sorted_simps(2))
  ultimately show "backlog opts now s' = bs"
    unfolding backlog_def by (metis sort_key_inj_key_eq)
qed

text \<open>The tasks a batch returns: the head of the backlog, each under a token of its own.\<close>

definition stamp :: "claim_options \<Rightarrow> gtime \<Rightarrow> nat \<Rightarrow> task list \<Rightarrow> task list" where
  "stamp opts now q bs = map (\<lambda>(n, b). claim_task opts now (lease_token n) b) (enumerate (Suc q) bs)"

lemma stamp_simps [simp]:
  "stamp opts now q [] = []"
  "stamp opts now q (b # bs) = claim_task opts now (lease_token (Suc q)) b # stamp opts now (Suc q) bs"
  by (simp_all add: stamp_def)

lemma length_stamp [simp]: "length (stamp opts now q bs) = length bs"
  by (simp add: stamp_def)

lemma stamp_ID: "map t_ID (stamp opts now q bs) = map t_ID bs"
  by (induction bs arbitrary: q) auto

lemma claim_batch_take:
  assumes "ms_wf s" "0 \<le> sint (co_Lease opts)"
  shows "fst (claim_batch_loop now opts k out s) =
    out @ stamp opts now (ms_seq s) (take (nat (k - int (length out))) (backlog opts now s))"
  using assms
proof (induction now opts k out s rule: claim_batch_loop.induct)
  case (1 now opts k out s)
  show ?case
  proof (cases "int (length out) < k")
    case False
    then show ?thesis by (simp add: claim_batch_loop.simps [of now opts k out s])
  next
    case more: True
    show ?thesis
    proof (cases "backlog opts now s")
      case Nil
      with backlog_Nil [OF 1(2)] have "claimOneLocked opts now s = (None, s)" by blast
      with more Nil show ?thesis by (simp add: claim_batch_loop.simps [of now opts k out s])
    next
      case (Cons b bs)
      let ?t = "claim_task opts now (lease_token (Suc (ms_seq s))) b"
      let ?s = "s\<lparr>ms_seq := Suc (ms_seq s), ms_tasks := upd (t_ID b) ?t (ms_tasks s)\<rparr>"
      note c = backlog_claim [OF 1(2) Cons 1(3) refl refl]
      have "nat (k - int (length out)) = Suc (nat (k - int (length (out @ [?t]))))" using more by simp
      moreover have "fst (claim_batch_loop now opts k (out @ [?t]) ?s) =
          (out @ [?t]) @ stamp opts now (ms_seq ?s) (take (nat (k - int (length (out @ [?t])))) bs)"
        using 1(1) [OF more c(1) [symmetric] refl c(2) 1(3)] c(3) by simp
      ultimately show ?thesis
        using more c(1) by (simp add: claim_batch_loop.simps [of now opts k out s] Cons)
    qed
  qed
qed

text \<open>
  C23: \<open>ClaimBatch\<close> is the backlog's head. With a lease that is not negative it claims the \<open>k\<close>
  oldest claimable tasks, in claim order, no task twice, each under its own fresh token, and fewer
  than \<open>k\<close> only when no more are claimable; with none, or \<open>k\<close> not positive, it is \<open>ErrNoTask\<close>.
\<close>

theorem memstore_batch_takes_oldest:
  assumes "ms_wf s" "0 \<le> sint (co_Lease opts)"
  shows "fst (ms_ClaimBatch now opts k s) =
    (let ts = stamp opts now (ms_seq s) (take (nat k) (backlog opts now s))
     in if ts = [] then Inl ErrNoTask else Inr ts) \<and>
    distinct (map t_ID (backlog opts now s))"
proof
  have "fst (claim_batch_loop now opts k [] s) = stamp opts now (ms_seq s) (take (nat k) (backlog opts now s))"
    using claim_batch_take [OF assms, of now k "[]"] by simp
  then show "fst (ms_ClaimBatch now opts k s) =
    (let ts = stamp opts now (ms_seq s) (take (nat k) (backlog opts now s))
     in if ts = [] then Inl ErrNoTask else Inr ts)"
    by (auto simp: ms_ClaimBatch_def Let_def split: prod.splits)
  have inj: "inj_on t_ID (set (ms_Tasks s))"
    by (rule inj_onI) (metis tasks_mem [OF assms(1)] option.inject)
  have "distinct (ms_Tasks s)"
  proof -
    have "keys (ms_tasks s) = map t_ID (ms_Tasks s)"
      using assms(1) by (auto simp: ms_Tasks_def ms_wf_entry dest: ms_wf_ID [OF assms(1), symmetric])
    moreover have "distinct (keys (ms_tasks s))" using assms(1) unfolding ms_wf_def by blast
    ultimately show ?thesis by (simp add: distinct_map)
  qed
  then show "distinct (map t_ID (backlog opts now s))"
    using inj_on_subset [OF inj] by (auto simp: distinct_map backlog_def)
qed

lemma memstore_batch_takes_oldest_witness:
  "fst (ms_ClaimBatch 5 demo_opts 1 demo_store) = Inr [demo_claimed]"
proof -
  have lease: "0 \<le> sint (co_Lease demo_opts)" by code_simp
  have "stamp demo_opts 5 (ms_seq demo_store) (take (nat 1) (backlog demo_opts 5 demo_store)) = [demo_claimed]"
    by code_simp
  with memstore_batch_takes_oldest [OF demo_wf lease, of 5 1] show ?thesis by simp
qed

end
