(* ===== verification/Memstore_Writes.thy ===== *)
theory Memstore_Writes
  imports Memstore_Functional
begin

text \<open>
  The writing operations of \<open>memstore\<close>, branch by branch: what an enqueue, a batch of outcomes, a
  requeue and a sweep of expired leases leave in the store.
\<close>

section \<open>Enqueue\<close>

lemma ms_wf_insert:
  assumes "ms_wf s"
  shows "ms_wf (s\<lparr>ms_seq := Suc (ms_seq s),
    ms_tasks := upd (task_id (Suc (ms_seq s))) (t\<lparr>t_ID := task_id (Suc (ms_seq s))\<rparr>) (ms_tasks s)\<rparr>)"
proof -
  let ?i = "task_id (Suc (ms_seq s))"
  let ?m = "upd ?i (t\<lparr>t_ID := ?i\<rparr>) (ms_tasks s)"
  have "distinct (keys (ms_tasks s))" "set (keys (ms_tasks s)) \<subseteq> task_id ` {..ms_seq s}"
    using assms unfolding ms_wf_def by blast+
  then have "distinct (keys ?m)" "set (keys ?m) \<subseteq> task_id ` {..Suc (ms_seq s)}"
    by (auto simp: keys_upd)
  moreover have "t_ID u = j" if "map_of ?m j = Some u" for j u
    using that ms_wf_ID [OF assms, of j u] by (auto split: if_splits)
  ultimately show ?thesis unfolding ms_wf_def by simp
qed

lemma holder_None:
  "ms_wf s \<Longrightarrow> activeKeyHolder k (ms_tasks s) = None \<longleftrightarrow>
    (\<forall>i t. map_of (ms_tasks s) i = Some t \<longrightarrow> \<not> (t_UniqueKey t = k \<and> active t))"
  by (auto simp: activeKeyHolder_def find_None_iff ms_wf_entry)

lemma holder_insert:
  assumes "ms_wf s" "t_Status t = StatusPending"
  shows "activeKeyHolder k (upd (task_id (Suc (ms_seq s))) (t\<lparr>t_ID := i\<rparr>) (ms_tasks s)) = None \<longleftrightarrow>
    activeKeyHolder k (ms_tasks s) = None \<and> t_UniqueKey t \<noteq> k"
proof -
  let ?m = "upd (task_id (Suc (ms_seq s))) (t\<lparr>t_ID := i\<rparr>) (ms_tasks s)"
  have "?m = ms_tasks s @ [(task_id (Suc (ms_seq s)), t\<lparr>t_ID := i\<rparr>)]"
    using ms_wf_fresh [OF assms(1)] by (simp add: upd_fresh map_of_eq_None_iff)
  then show ?thesis
    using assms(2) by (simp add: activeKeyHolder_def find_None_ball active_def) blast
qed

text \<open>The keys of a batch are free: none is held in the store, none occurs twice.\<close>

definition keys_free :: "task list \<Rightarrow> memstore \<Rightarrow> bool" where
  "keys_free ts s \<longleftrightarrow> distinct (filter (\<lambda>k. k \<noteq> []) (map t_UniqueKey ts)) \<and>
     (\<forall>t \<in> set ts. t_UniqueKey t \<noteq> [] \<longrightarrow> activeKeyHolder (t_UniqueKey t) (ms_tasks s) = None)"

text \<open>One round of the loop.\<close>

definition insert_next :: "task \<Rightarrow> memstore \<Rightarrow> memstore" where
  "insert_next t s = (let i = task_id (Suc (ms_seq s)) in
     s\<lparr>ms_seq := Suc (ms_seq s), ms_tasks := upd i (t\<lparr>t_ID := i\<rparr>) (ms_tasks s)\<rparr>)"

lemma insert_next_sel [simp]:
  "ms_seq (insert_next t s) = Suc (ms_seq s)"
  "map_of (ms_tasks (insert_next t s)) = (map_of (ms_tasks s))
     (task_id (Suc (ms_seq s)) \<mapsto> t\<lparr>t_ID := task_id (Suc (ms_seq s))\<rparr>)"
  by (simp_all add: insert_next_def Let_def)

lemma insert_next_wf: "ms_wf s \<Longrightarrow> ms_wf (insert_next t s)"
  unfolding insert_next_def Let_def by (rule ms_wf_insert)

definition key_taken :: "task \<Rightarrow> memstore \<Rightarrow> bool" where
  "key_taken t s \<longleftrightarrow> t_UniqueKey t \<noteq> [] \<and> activeKeyHolder (t_UniqueKey t) (ms_tasks s) \<noteq> None"

lemma enqueue_loop_taken:
  "key_taken t s \<Longrightarrow> enqueue_loop (t # ts) ids s =
    (Inl (DuplicateTaskError (t_UniqueKey t) (t_ID (the (activeKeyHolder (t_UniqueKey t) (ms_tasks s))))), s)"
  by (auto simp: key_taken_def)

lemma enqueue_loop_free:
  "\<not> key_taken t s \<Longrightarrow> enqueue_loop (t # ts) ids s =
    enqueue_loop ts (ids @ [task_id (Suc (ms_seq s))]) (insert_next t s)"
  by (cases "t_UniqueKey t = []") (auto simp: key_taken_def insert_next_def Let_def)

lemma key_taken_insert:
  "ms_wf s \<Longrightarrow> t_Status t = StatusPending \<Longrightarrow>
    key_taken u (insert_next t s) \<longleftrightarrow> key_taken u s \<or> (t_UniqueKey u \<noteq> [] \<and> t_UniqueKey u = t_UniqueKey t)"
  using holder_insert [of s t "t_UniqueKey u"]
  by (auto simp: key_taken_def insert_next_def Let_def simp del: not_None_eq)

lemma keys_free_Nil [simp]: "keys_free [] s"
  by (simp add: keys_free_def)

lemma keys_free_Cons:
  assumes "ms_wf s" "t_Status t = StatusPending"
  shows "keys_free (t # ts) s \<longleftrightarrow> \<not> key_taken t s \<and> keys_free ts (insert_next t s)"
proof -
  have alt: "keys_free us s' \<longleftrightarrow> distinct (filter (\<lambda>k. k \<noteq> []) (map t_UniqueKey us)) \<and>
      (\<forall>u \<in> set us. \<not> key_taken u s')" for us s'
    by (auto simp: keys_free_def key_taken_def)
  show ?thesis unfolding alt by (auto simp: key_taken_insert [OF assms]) (metis imageI)+
qed

lemma enqueue_loop_ok:
  assumes "ms_wf s" "\<forall>t \<in> set ts. t_Status t = StatusPending" "keys_free ts s"
  shows "\<exists>s'. enqueue_loop ts ids s = (Inr (ids @ map task_id [Suc (ms_seq s) ..< Suc (ms_seq s + length ts)]), s') \<and>
    ms_wf s' \<and> map_of (ms_tasks s') = (map_of (ms_tasks s))
      (map task_id [Suc (ms_seq s) ..< Suc (ms_seq s + length ts)] [\<mapsto>]
       map2 (\<lambda>i t. t\<lparr>t_ID := i\<rparr>) (map task_id [Suc (ms_seq s) ..< Suc (ms_seq s + length ts)]) ts)"
  using assms
proof (induction ts arbitrary: ids s)
  case Nil
  then show ?case by simp
next
  case (Cons t ts)
  have kf: "\<not> key_taken t s" "keys_free ts (insert_next t s)"
    using Cons.prems keys_free_Cons [of s t ts] by simp_all
  have new: "[Suc (ms_seq s) ..< Suc (ms_seq s + length (t # ts))] =
      Suc (ms_seq s) # [Suc (ms_seq (insert_next t s)) ..< Suc (ms_seq (insert_next t s) + length ts)]"
    by (simp add: upt_conv_Cons del: upt_Suc)
  from Cons.IH [OF insert_next_wf [OF Cons.prems(1)] _ kf(2), of "ids @ [task_id (Suc (ms_seq s))]"]
    Cons.prems(2)
  show ?case unfolding new enqueue_loop_free [OF kf(1)] by (simp add: fun_upd_def del: upt_Suc)
qed

lemma enqueue_loop_conflict:
  assumes "ms_wf s" "\<forall>t \<in> set ts. t_Status t = StatusPending" "\<not> keys_free ts s"
  shows "\<exists>j h s'. j < length ts \<and> keys_free (take j ts) s \<and>
    fst (enqueue_loop (take j ts) ids s) = Inr (ids @ map task_id [Suc (ms_seq s) ..< Suc (ms_seq s + j)]) \<and>
    s' = snd (enqueue_loop (take j ts) ids s) \<and>
    t_UniqueKey (ts ! j) \<noteq> [] \<and> activeKeyHolder (t_UniqueKey (ts ! j)) (ms_tasks s') = Some h \<and>
    enqueue_loop ts ids s = (Inl (DuplicateTaskError (t_UniqueKey (ts ! j)) (t_ID h)), s')"
  using assms
proof (induction ts arbitrary: ids s)
  case Nil
  then show ?case by simp
next
  case (Cons t ts)
  show ?case
  proof (cases "key_taken t s")
    case True
    then obtain h where "t_UniqueKey t \<noteq> []" "activeKeyHolder (t_UniqueKey t) (ms_tasks s) = Some h"
      by (auto simp: key_taken_def)
    with enqueue_loop_taken [OF True, of ts ids] show ?thesis by (intro exI [of _ 0] exI [of _ h]) simp
  next
    case False
    let ?s = "insert_next t s" and ?ids = "ids @ [task_id (Suc (ms_seq s))]"
    have "\<not> keys_free ts ?s" using Cons.prems False keys_free_Cons [of s t ts] by simp
    from Cons.IH [OF insert_next_wf [OF Cons.prems(1)] _ this, of ?ids] Cons.prems(2)
    obtain j h s' where j: "j < length ts" "keys_free (take j ts) ?s"
      "fst (enqueue_loop (take j ts) ?ids ?s) = Inr (?ids @ map task_id [Suc (ms_seq ?s) ..< Suc (ms_seq ?s + j)])"
      "s' = snd (enqueue_loop (take j ts) ?ids ?s)" "t_UniqueKey (ts ! j) \<noteq> []"
      "activeKeyHolder (t_UniqueKey (ts ! j)) (ms_tasks s') = Some h"
      "enqueue_loop ts ?ids ?s = (Inl (DuplicateTaskError (t_UniqueKey (ts ! j)) (t_ID h)), s')"
      by auto
    have new: "[Suc (ms_seq s) ..< Suc (ms_seq s + Suc j)] =
        Suc (ms_seq s) # [Suc (ms_seq ?s) ..< Suc (ms_seq ?s + j)]"
      by (simp add: upt_conv_Cons del: upt_Suc)
    have "keys_free (t # take j ts) s"
      using j(2) False keys_free_Cons [of s t "take j ts"] Cons.prems by simp
    with j show ?thesis
      by (intro exI [of _ "Suc j"] exI [of _ h] exI [of _ s'])
        (simp only: take_Suc_Cons nth_Cons_Suc enqueue_loop_free [OF False] new list.map append.assoc
          append_Cons append_Nil length_Cons Suc_less_eq, simp del: upt_Suc)
  qed
qed

text \<open>
  C26: \<open>Enqueue\<close> is all or nothing only when the keys are free. A batch whose unique keys are
  free, in the store and among themselves, is inserted whole, in order, under fresh ids, and
  nothing else changes. Otherwise it stops at the first task whose key an active task holds and
  names key and holder; the tasks before it stay inserted, and their ids are not returned.
\<close>

theorem memstore_enqueue:
  assumes "ms_wf s" "\<forall>t \<in> set ts. t_Status t = StatusPending"
  shows "if keys_free ts s
    then (let new = map task_id [Suc (ms_seq s) ..< Suc (ms_seq s + length ts)] in
      fst (ms_Enqueue ts s) = (new, None) \<and> set new \<inter> dom (map_of (ms_tasks s)) = {} \<and>
      map_of (ms_tasks (snd (ms_Enqueue ts s))) =
        (map_of (ms_tasks s))(new [\<mapsto>] map2 (\<lambda>i t. t\<lparr>t_ID := i\<rparr>) new ts))
    else (\<exists>j h. j < length ts \<and> keys_free (take j ts) s \<and>
      ms_Enqueue ts s = (([], Some (DuplicateTaskError (t_UniqueKey (ts ! j)) (t_ID h))),
        snd (ms_Enqueue (take j ts) s)) \<and>
      activeKeyHolder (t_UniqueKey (ts ! j)) (ms_tasks (snd (ms_Enqueue (take j ts) s))) = Some h)"
proof (cases "keys_free ts s")
  case True
  let ?new = "map task_id [Suc (ms_seq s) ..< Suc (ms_seq s + length ts)]"
  have "dom (map_of (ms_tasks s)) \<subseteq> task_id ` {..ms_seq s}"
    using assms(1) unfolding ms_wf_def by (simp add: dom_map_of_conv_image_fst)
  then have "set ?new \<inter> dom (map_of (ms_tasks s)) = {}" by (force simp del: upt_Suc)
  with enqueue_loop_ok [OF assms True, of "[]"] True show ?thesis
    by (auto simp: ms_Enqueue_def Let_def simp del: upt_Suc)
next
  case False
  from enqueue_loop_conflict [OF assms False, of "[]"] obtain j h s' where j:
    "j < length ts" "keys_free (take j ts) s"
    "fst (enqueue_loop (take j ts) [] s) = Inr (map task_id [Suc (ms_seq s) ..< Suc (ms_seq s + j)])"
    "s' = snd (enqueue_loop (take j ts) [] s)"
    "activeKeyHolder (t_UniqueKey (ts ! j)) (ms_tasks s') = Some h"
    "enqueue_loop ts [] s = (Inl (DuplicateTaskError (t_UniqueKey (ts ! j)) (t_ID h)), s')"
    by auto
  have s': "snd (ms_Enqueue (take j ts) s) = s'"
    using j(3,4) by (cases "enqueue_loop (take j ts) [] s") (simp add: ms_Enqueue_def)
  have "ms_Enqueue ts s = (([], Some (DuplicateTaskError (t_UniqueKey (ts ! j)) (t_ID h))), s')"
    using j(6) by (simp add: ms_Enqueue_def)
  then show ?thesis
    unfolding if_not_P [OF False] using j(1,2,5) s' by blast
qed

definition demo_batch :: "task list" where
  "demo_batch = [demo_task ''c'' [] 1, demo_task ''d'' ''k'' 1]"

lemma memstore_enqueue_witness:
  "\<exists>j h. j < length demo_batch \<and> keys_free (take j demo_batch) demo_store \<and>
    ms_Enqueue demo_batch demo_store =
      (([], Some (DuplicateTaskError (t_UniqueKey (demo_batch ! j)) (t_ID h))),
        snd (ms_Enqueue (take j demo_batch) demo_store)) \<and>
    activeKeyHolder (t_UniqueKey (demo_batch ! j))
      (ms_tasks (snd (ms_Enqueue (take j demo_batch) demo_store))) = Some h"
proof -
  have p: "\<forall>t \<in> set demo_batch. t_Status t = StatusPending" by code_simp
  have n: "\<not> keys_free demo_batch demo_store" by code_simp
  show ?thesis by (rule memstore_enqueue [OF demo_wf p, unfolded if_not_P [OF n]])
qed

section \<open>FinalizeBatch\<close>

text \<open>What one outcome does to the task it holds.\<close>

definition finalize_task :: "gtime \<Rightarrow> outcome \<Rightarrow> task \<Rightarrow> task" where
  "finalize_task now r t = (case o_Failure r of
     None \<Rightarrow> complete_task now (o_Result r) t
   | Some f \<Rightarrow> fail_task now f (o_RetryAt r) (o_Terminal r) t)"

abbreviation holds :: "memstore \<Rightarrow> outcome \<Rightarrow> task option" where
  "holds s r \<equiv> held (t_ID (o_Task r)) (t_LeaseToken (o_Task r)) s"

abbreviation oid :: "outcome \<Rightarrow> string" where
  "oid r \<equiv> t_ID (o_Task r)"

definition finalize_put :: "gtime \<Rightarrow> outcome \<Rightarrow> memstore \<Rightarrow> memstore" where
  "finalize_put now r s = (case holds s r of
     None \<Rightarrow> s
   | Some t \<Rightarrow> s\<lparr>ms_tasks := upd (oid r) (finalize_task now r t) (ms_tasks s)\<rparr>)"

lemma finalize_loop_Cons:
  "finalize_loop clock (r # os) n lost s =
    finalize_loop clock os (Suc n) (lost + (if holds s r = None then 1 else 0)) (finalize_put (clock n) r s)"
  by (auto simp: ms_Fail_def ms_Complete_def finalize_put_def finalize_task_def
      split: option.splits)

lemma finalize_put_other:
  "i \<noteq> oid r \<Longrightarrow> map_of (ms_tasks (finalize_put now r s)) i = map_of (ms_tasks s) i"
  by (simp add: finalize_put_def split: option.splits)

lemma finalize_put_same:
  "map_of (ms_tasks (finalize_put now r s)) (oid r) =
    (case holds s r of None \<Rightarrow> map_of (ms_tasks s) (oid r) | Some t \<Rightarrow> Some (finalize_task now r t))"
  by (simp add: finalize_put_def split: option.splits)

lemma held_cong: "map_of (ms_tasks s') i = map_of (ms_tasks s) i \<Longrightarrow> held i tok s' = held i tok s"
  by (simp add: held_def)

lemma finalize_loop_spec:
  assumes "distinct (map oid os)"
  shows "\<exists>s'. finalize_loop clock os n lost s =
      ((lost + int (length (filter (\<lambda>r. holds s r = None) os)), None), s') \<and>
    (\<forall>i. i \<notin> oid ` set os \<longrightarrow> map_of (ms_tasks s') i = map_of (ms_tasks s) i) \<and>
    (\<forall>j < length os. map_of (ms_tasks s') (oid (os ! j)) = (case holds s (os ! j) of
       None \<Rightarrow> map_of (ms_tasks s) (oid (os ! j))
     | Some t \<Rightarrow> Some (finalize_task (clock (n + j)) (os ! j) t)))"
  using assms
proof (induction os arbitrary: n lost s)
  case Nil
  then show ?case by simp
next
  case (Cons r os)
  let ?s = "finalize_put (clock n) r s"
  have other: "holds ?s u = holds s u" if "u \<in> set os" for u
    using that Cons.prems by (intro held_cong finalize_put_other) (auto simp: image_iff)
  from Cons.IH [of "Suc n" "lost + (if holds s r = None then 1 else 0)" ?s] Cons.prems
  obtain s' where s': "finalize_loop clock os (Suc n) (lost + (if holds s r = None then 1 else 0)) ?s =
      ((lost + (if holds s r = None then 1 else 0) + int (length (filter (\<lambda>r. holds ?s r = None) os)), None), s')"
    "\<forall>i. i \<notin> oid ` set os \<longrightarrow> map_of (ms_tasks s') i = map_of (ms_tasks ?s) i"
    "\<forall>j < length os. map_of (ms_tasks s') (oid (os ! j)) = (case holds ?s (os ! j) of
       None \<Rightarrow> map_of (ms_tasks ?s) (oid (os ! j))
     | Some t \<Rightarrow> Some (finalize_task (clock (Suc n + j)) (os ! j) t))"
    by auto
  have cnt: "filter (\<lambda>r. holds ?s r = None) os = filter (\<lambda>r. holds s r = None) os"
    by (rule filter_cong [OF refl]) (simp add: other)
  show ?case
  proof (intro exI [of _ s'] conjI allI impI)
    show "finalize_loop clock (r # os) n lost s =
        ((lost + int (length (filter (\<lambda>r. holds s r = None) (r # os))), None), s')"
      by (simp add: finalize_loop_Cons s'(1) cnt del: finalize_loop.simps)
  next
    fix i assume "i \<notin> oid ` set (r # os)"
    with s'(2) show "map_of (ms_tasks s') i = map_of (ms_tasks s) i" by (simp add: finalize_put_other)
  next
    fix j assume j: "j < length (r # os)"
    show "map_of (ms_tasks s') (oid ((r # os) ! j)) = (case holds s ((r # os) ! j) of
         None \<Rightarrow> map_of (ms_tasks s) (oid ((r # os) ! j))
       | Some t \<Rightarrow> Some (finalize_task (clock (n + j)) ((r # os) ! j) t))"
    proof (cases j)
      case 0
      from s'(2) Cons.prems show ?thesis unfolding 0 nth_Cons_0 add_0_right by (simp add: finalize_put_same)
    next
      case (Suc k)
      with j have k: "os ! k \<in> set os" "k < length os" by simp_all
      moreover have "oid (os ! k) \<noteq> oid r" using k(1) Cons.prems by (auto simp: image_iff)
      ultimately show ?thesis
        using s'(3) unfolding Suc nth_Cons_Suc add_Suc_right
        by (simp add: other finalize_put_other split: option.split)
    qed
  qed
qed

text \<open>
  C24: \<open>FinalizeBatch\<close> writes each outcome independently. For outcomes of distinct tasks it never
  fails, counts exactly the entries whose lease was lost, leaves those tasks and all others as they
  are, and gives every other entry the effect of its own \<open>Complete\<close> or \<open>Fail\<close>.
\<close>

theorem memstore_finalize_batch:
  assumes "distinct (map oid os)"
  shows "\<exists>s'. ms_FinalizeBatch clock os s =
      ((int (length (filter (\<lambda>r. holds s r = None) os)), None), s') \<and>
    (\<forall>i. i \<notin> oid ` set os \<longrightarrow> map_of (ms_tasks s') i = map_of (ms_tasks s) i) \<and>
    (\<forall>j < length os. map_of (ms_tasks s') (oid (os ! j)) = (case holds s (os ! j) of
       None \<Rightarrow> map_of (ms_tasks s) (oid (os ! j))
     | Some t \<Rightarrow> Some (finalize_task (clock j) (os ! j) t)))"
  using finalize_loop_spec [OF assms, of clock 0 0 s] unfolding ms_FinalizeBatch_def add_0 .

definition demo_outcomes :: "outcome list" where
  "demo_outcomes = [\<lparr>o_Task = demo_claimed, o_Result = ''1'', o_Failure = None, o_RetryAt = 0, o_Terminal = False\<rparr>,
     \<lparr>o_Task = demo_claimed\<lparr>t_ID := ''task-2''\<rparr>, o_Result = ''1'', o_Failure = None, o_RetryAt = 0, o_Terminal = False\<rparr>]"

lemma memstore_finalize_batch_witness:
  "fst (ms_FinalizeBatch (\<lambda>_. 9) demo_outcomes demo_store1) = (1, None)"
proof -
  have "distinct (map oid demo_outcomes)" by code_simp
  from memstore_finalize_batch [OF this, of "\<lambda>_. 9" demo_store1]
  obtain s' where "ms_FinalizeBatch (\<lambda>_. 9) demo_outcomes demo_store1 =
      ((int (length (filter (\<lambda>r. holds demo_store1 r = None) demo_outcomes)), None), s')" by blast
  moreover have "length (filter (\<lambda>r. holds demo_store1 r = None) demo_outcomes) = 1" by code_simp
  ultimately show ?thesis by simp
qed

section \<open>Dead letters\<close>





end
