(* ===== verification/Memstore_History.thy ===== *)
theory Memstore_History
  imports Memstore_Writes
begin

text \<open>
  What no program of calls can undo: tasks are never dropped, their identity and policy never
  change, their error history only grows and a done task is final; active unique keys are unique;
  and the two side tables, the queue registry with its drift guard and the metrics.
\<close>

section \<open>Tasks only evolve\<close>

definition evolves :: "task \<Rightarrow> task \<Rightarrow> bool" where
  "evolves t u \<longleftrightarrow> t_ID u = t_ID t \<and> t_Queue u = t_Queue t \<and> t_Type u = t_Type t \<and>
     t_Payload u = t_Payload t \<and> t_MaxAttempts u = t_MaxAttempts t \<and> t_CreatedAt u = t_CreatedAt t \<and>
     t_ExpiresAt u = t_ExpiresAt t \<and> prefix (t_Errors t) (t_Errors u) \<and>
     (t_Status t = StatusDone \<longrightarrow> u = t)"

definition tasks_evolve :: "memstore \<Rightarrow> memstore \<Rightarrow> bool" where
  "tasks_evolve s s' \<longleftrightarrow> (\<forall>i t. map_of (ms_tasks s) i = Some t \<longrightarrow>
     (\<exists>u. map_of (ms_tasks s') i = Some u \<and> evolves t u))"

lemma evolves_refl [simp]: "evolves t t"
  by (simp add: evolves_def)

lemma evolves_trans: "evolves t u \<Longrightarrow> evolves u v \<Longrightarrow> evolves t v"
  by (auto simp: evolves_def intro: prefix_order.trans)

lemma tasks_evolve_refl [simp]: "tasks_evolve s s"
  by (auto simp: tasks_evolve_def)

lemma tasks_evolve_trans: "tasks_evolve s s' \<Longrightarrow> tasks_evolve s' s'' \<Longrightarrow> tasks_evolve s s''"
  unfolding tasks_evolve_def by (meson evolves_trans)

lemma tasks_evolve_same: "ms_tasks s' = ms_tasks s \<Longrightarrow> tasks_evolve s s'"
  by (simp add: tasks_evolve_def)

lemma tasks_evolve_upd:
  "ms_tasks s' = upd i u (ms_tasks s) \<Longrightarrow>
    (\<And>t. map_of (ms_tasks s) i = Some t \<Longrightarrow> evolves t u) \<Longrightarrow> tasks_evolve s s'"
  by (auto simp: tasks_evolve_def)

lemma evolves_steps:
  "t_Status t \<noteq> StatusDone \<Longrightarrow> evolves t (claim_task opts now tok t)"
  "t_Status t \<noteq> StatusDone \<Longrightarrow> evolves t (complete_task now r t)"
  "t_Status t \<noteq> StatusDone \<Longrightarrow> evolves t (fail_task now f ra b t)"
  "t_Status t \<noteq> StatusDone \<Longrightarrow> evolves t (t\<lparr>t_LeasedUntil := u\<rparr>)"
  "t_Status t \<noteq> StatusDone \<Longrightarrow> evolves t (requeue_task now t)"
  "t_Status t \<noteq> StatusDone \<Longrightarrow> evolves t (reap_task now t)"
  by (simp_all add: evolves_def claim_task_def complete_task_def fail_task_def requeue_task_def
      reap_task_def Let_def)

lemma runnable_not_done: "runnable now t \<Longrightarrow> t_Status t \<noteq> StatusDone"
  by (auto simp: runnable_def)

lemma claimOne_evolves:
  assumes "ms_wf s" "claimOneLocked opts now s = (r, s')"
  shows "tasks_evolve s s'"
proof (cases r)
  case None
  with assms claimOneLocked_None [OF assms(1), of opts now s'] show ?thesis by simp
next
  case (Some t)
  with assms(2) obtain b where b: "least_eligible opts now s b"
      "t = claim_task opts now (lease_token (Suc (ms_seq s))) b"
      "s' = s\<lparr>ms_seq := Suc (ms_seq s), ms_tasks := upd (t_ID b) t (ms_tasks s)\<rparr>"
    using claimOneLocked_SomeD [OF assms(1)] by metis
  have "evolves u t" if "map_of (ms_tasks s) (t_ID b) = Some u" for u
  proof -
    have "u = b" "runnable now b" using b(1) that by (auto simp: least_eligible_def eligible_def)
    then show ?thesis using b(2) evolves_steps(1) runnable_not_done by blast
  qed
  then show ?thesis using b(3) by (intro tasks_evolve_upd) auto
qed

lemma batch_loop_evolves:
  "ms_wf s \<Longrightarrow> tasks_evolve s (snd (claim_batch_loop now opts k out s))"
proof (induction now opts k out s rule: claim_batch_loop.induct)
  case (1 now opts k out s)
  show ?case
  proof (cases "int (length out) < k")
    case False
    then show ?thesis by (simp add: claim_batch_loop.simps [of now opts k out s])
  next
    case more: True
    obtain r s' where one: "claimOneLocked opts now s = (r, s')" by fastforce
    note ev = claimOne_evolves [OF 1(2) one]
    show ?thesis
    proof (cases r)
      case None
      with more one ev show ?thesis by (simp add: claim_batch_loop.simps [of now opts k out s])
    next
      case (Some t)
      with one have "tasks_evolve s' (snd (claim_batch_loop now opts k (out @ [t]) s'))"
        by (intro 1(1) [OF more _ _ claimOneLocked_wf [OF 1(2) one]]) auto
      with more one Some ev show ?thesis
        by (simp add: claim_batch_loop.simps [of now opts k out s] tasks_evolve_trans)
    qed
  qed
qed

lemma held_not_done: "held i tok s = Some h \<Longrightarrow> map_of (ms_tasks s) i = Some h \<and> t_Status h \<noteq> StatusDone"
  by (simp add: held_Some)

lemma held_evolves:
  assumes "held i tok s = Some h" "\<And>t. t_Status t \<noteq> StatusDone \<Longrightarrow> evolves t (f t)"
  shows "tasks_evolve s (s\<lparr>ms_tasks := upd i (f h) (ms_tasks s)\<rparr>)"
  using assms(2) [of h] held_not_done [OF assms(1)] by (intro tasks_evolve_upd) auto

lemma complete_evolves: "tasks_evolve s (snd (ms_Complete now t r s))"
  using held_evolves [where f = "complete_task now r", OF _ evolves_steps(2)]
  by (simp add: ms_Complete_def split: option.split)

lemma fail_evolves: "tasks_evolve s (snd (ms_Fail now t f ra b s))"
  using held_evolves [where f = "fail_task now f ra b", OF _ evolves_steps(3)]
  by (simp add: ms_Fail_def split: option.split)

lemma extend_evolves: "tasks_evolve s (snd (ms_ExtendLease now t l s))"
  using held_evolves [where f = "t_LeasedUntil_update (\<lambda>_. add_time now l)", OF _ evolves_steps(4)]
  by (simp add: ms_ExtendLease_def Let_def split: option.split)

lemma finalize_evolves: "tasks_evolve s (snd (finalize_loop clock os n lost s))"
proof (induction os arbitrary: n lost s)
  case Nil
  then show ?case by simp
next
  case (Cons r os)
  have "tasks_evolve s (finalize_put (clock n) r s)"
    using held_evolves [of "oid r" "t_LeaseToken (o_Task r)" s _ "finalize_task (clock n) r"]
    by (auto simp: finalize_put_def finalize_task_def evolves_steps split: option.split)
  then show ?case
    unfolding finalize_loop_Cons using Cons.IH tasks_evolve_trans by blast
qed

lemma sweep_evolves:
  "(\<And>t. p t \<Longrightarrow> evolves t (f t)) \<Longrightarrow> tasks_evolve s (s\<lparr>ms_tasks := fst (sweep p f (ms_tasks s))\<rparr>)"
  by (auto simp: tasks_evolve_def lookup_sweep)

lemma enqueue_loop_evolves: "ms_wf s \<Longrightarrow> tasks_evolve s (snd (enqueue_loop ts ids s))"
proof (induction ts arbitrary: ids s)
  case Nil
  then show ?case by simp
next
  case (Cons t ts)
  show ?case
  proof (cases "key_taken t s")
    case True
    then show ?thesis by (simp only: enqueue_loop_taken snd_conv tasks_evolve_refl)
  next
    case False
    have "tasks_evolve s (insert_next t s)"
      using ms_wf_fresh [OF Cons.prems] by (auto simp: tasks_evolve_def)
    with Cons.IH [OF insert_next_wf [OF Cons.prems]] show ?thesis
      unfolding enqueue_loop_free [OF False] using tasks_evolve_trans by blast
  qed
qed

lemma apply_evolves: "ms_wf s \<Longrightarrow> tasks_evolve s (apply_call (memstore_ops tstr) (now, k) s)"
proof (cases k)
  case (CEnqueue ts)
  assume "ms_wf s"
  from enqueue_loop_evolves [OF this, of ts "[]"] CEnqueue show ?thesis
    by (auto simp: ms_Enqueue_def split: prod.splits sum.splits)
next
  case (CClaim opts)
  assume "ms_wf s"
  from claimOne_evolves [OF this] CClaim show ?thesis
    by (auto simp: ms_Claim_def split: prod.splits option.splits)
next
  case (CClaimBatch opts n)
  assume "ms_wf s"
  from batch_loop_evolves [OF this, of now opts n "[]"] CClaimBatch show ?thesis
    by (auto simp: ms_ClaimBatch_def split: prod.splits)
next
  case (CFinalizeBatch clock os)
  then show ?thesis by (simp add: ms_FinalizeBatch_def finalize_evolves)
next
  case (CRequeue i)
  then show ?thesis
    by (auto simp: ms_Requeue_def intro!: tasks_evolve_upd evolves_steps split: option.split)
next
  case (CRequeueDead ty)
  then show ?thesis
    using sweep_evolves [of "\<lambda>t. t_Status t = StatusDead \<and> (ty = [] \<or> t_Type t = ty)" "requeue_task now" s]
    by (auto simp: memstore_ops_def ms_RequeueDead_def evolves_steps split: prod.splits)
next
  case CReapExpired
  then show ?thesis
    using sweep_evolves [of "expired_exhausted now" "reap_task now" s]
    by (auto simp: memstore_ops_def ms_ReapExpired_def evolves_steps expired_exhausted_def split: prod.splits)
next
  case (CRegisterQueues qs)
  then show ?thesis
    by (auto simp: memstore_ops_def ms_RegisterQueues_def intro: tasks_evolve_same split: prod.splits)
next
  case (CSnapshotMetrics qs w iv)
  then show ?thesis
    by (auto simp: memstore_ops_def ms_SnapshotMetrics_def intro: tasks_evolve_same split: prod.splits)
next
  case (CRecordCounters m w iv cs)
  then show ?thesis
    by (auto simp: memstore_ops_def ms_RecordCounters_def intro: tasks_evolve_same)
qed (simp_all add: complete_evolves fail_evolves extend_evolves)

lemma apply_wf:
  assumes "sim s c" "call_ok k"
  shows "\<exists>d. sim (apply_call (memstore_ops tstr) (now, k) s) d"
  using mem.apply_sim [OF assms, of now tstr] by (auto simp: may_advance_def advances_def)

lemma run_evolves: "sim s c \<Longrightarrow> calls_ok ks \<Longrightarrow> tasks_evolve s (run_calls (memstore_ops tstr) ks s)"
proof (induction ks arbitrary: s c)
  case Nil
  then show ?case by simp
next
  case (Cons a ks)
  obtain now k where a: "a = (now, k)" by fastforce
  obtain d where "sim (apply_call (memstore_ops tstr) (now, k) s) d"
    using apply_wf [OF Cons.prems(1)] Cons.prems(2) a by fastforce
  from Cons.IH [OF this] Cons.prems(2) have
    "tasks_evolve (apply_call (memstore_ops tstr) (now, k) s)
       (run_calls (memstore_ops tstr) ks (apply_call (memstore_ops tstr) (now, k) s))" by simp
  with apply_evolves [OF sim_wf [OF Cons.prems(1)]] show ?case
    unfolding a run_calls_simps by (rule tasks_evolve_trans)
qed



section \<open>Unique keys\<close>

text \<open>
  C14: unique keys are unique. In every store a program reaches, a task that still carries a unique
  key is pending or running, and no two tasks carry the same one.
\<close>

theorem memstore_unique_keys:
  assumes "calls_ok ks" "map_of (ms_tasks (mem_run tstr ks)) i = Some t" "t_UniqueKey t \<noteq> []"
  shows "active t \<and> (\<forall>j u. map_of (ms_tasks (mem_run tstr ks)) j = Some u \<longrightarrow>
    t_UniqueKey u = t_UniqueKey t \<longrightarrow> j = i)"
proof -
  obtain d where d: "sim (mem_run tstr ks) d" "key_inv d"
    using mem.run_keys [OF sim_init assms(1) key_init, of tstr] by (auto simp: mem_run_def)
  have look: "c_tasks d j = Some (abs_task u)" if "map_of (ms_tasks (mem_run tstr ks)) j = Some u" for j u
    using sim_lookup [OF d(1)] that by simp
  have "active t" using d(2) look [OF assms(2)] assms(3) unfolding key_inv_def by fastforce
  moreover have "j = i" if "map_of (ms_tasks (mem_run tstr ks)) j = Some u" "t_UniqueKey u = t_UniqueKey t" for j u
    using d(2) look [OF assms(2)] look [OF that(1)] that(2) assms(3) unfolding key_inv_def by (metis abs_task_sel(3))
  ultimately show ?thesis by blast
qed

lemma memstore_unique_keys_witness:
  "active ((demo_task ''a'' ''k'' 1)\<lparr>t_ID := ''task-1''\<rparr>) \<and>
   \<not> (\<exists>j u. map_of (ms_tasks (mem_run (\<lambda>_. []) demo_calls)) j = Some u \<and> t_UniqueKey u = ''k'' \<and> j \<noteq> ''task-1'')"
proof -
  have 1: "map_of (ms_tasks (mem_run (\<lambda>_. []) demo_calls)) ''task-1'' =
      Some ((demo_task ''a'' ''k'' 1)\<lparr>t_ID := ''task-1''\<rparr>)" by code_simp
  have 2: "t_UniqueKey ((demo_task ''a'' ''k'' 1)\<lparr>t_ID := ''task-1''\<rparr>) \<noteq> []" by code_simp
  have 3: "t_UniqueKey ((demo_task ''a'' ''k'' 1)\<lparr>t_ID := ''task-1''\<rparr>) = ''k''" by code_simp
  from memstore_unique_keys [OF demo_ok 1 2] show ?thesis unfolding 3 by blast
qed

end
