(* ===== verification/Memstore_Tables.thy ===== *)
theory Memstore_Tables
  imports Memstore_History
begin

text \<open>
  The side tables of \<open>memstore\<close>: the queue registry with its guard against policy drift, the
  counters of the metrics and the gauges that one manager per window records.
\<close>

section \<open>The queue registry\<close>

definition agrees :: "queue_policy \<Rightarrow> queue_policy \<Rightarrow> bool" where
  "agrees p q \<longleftrightarrow> qp_TTL p = qp_TTL q \<and> qp_MaxAttempts p = qp_MaxAttempts q"

lemma register_loop_keeps:
  "map_of reg n = Some p \<Longrightarrow> map_of (snd (register_loop qs reg)) n = Some p"
proof (induction qs reg rule: register_loop.induct)
  case (2 q qs reg)
  then show ?case by (cases "n = qp_Name q") (auto split: option.split)
qed simp

lemma register_loop_spec:
  "case register_loop qs reg of
      (None, reg') \<Rightarrow> (\<forall>q \<in> set qs. \<exists>p. map_of reg' (qp_Name q) = Some p \<and> agrees p q)
    | (Some e, reg') \<Rightarrow> \<exists>q \<in> set qs. e = ErrQueueConflict (qp_Name q) \<and>
        (\<exists>p. map_of reg' (qp_Name q) = Some p \<and> \<not> agrees p q)"
proof (induction qs reg rule: register_loop.induct)
  case (1 reg)
  then show ?case by simp
next
  case (2 q qs reg)
  show ?case
  proof (cases "map_of reg (qp_Name q)")
    case None
    from register_loop_keeps [of "upd (qp_Name q) q reg" "qp_Name q" q qs]
    have "map_of (snd (register_loop qs (upd (qp_Name q) q reg))) (qp_Name q) = Some q" by simp
    with 2(1) [OF None] None show ?thesis by (auto simp: agrees_def split: prod.splits option.splits)
  next
    case (Some p)
    show ?thesis
    proof (cases "agrees p q")
      case False
      with Some show ?thesis by (auto simp: agrees_def)
    next
      case True
      with 2(2) [OF Some] Some register_loop_keeps [OF Some, of qs] show ?thesis
        by (auto simp: agrees_def split: prod.splits option.splits)
    qed
  qed
qed

text \<open>
  The registry guards against drift. \<open>RegisterQueues\<close> never changes a stored policy; when it
  succeeds every queue it was given is stored with the policy it was given; when it fails it names
  a queue whose stored policy differs from the given one.
\<close>

lemma memstore_registry_guard:
  "(\<forall>n p. map_of (ms_registry s) n = Some p \<longrightarrow>
      map_of (ms_registry (snd (ms_RegisterQueues qs s))) n = Some p) \<and>
   (case ms_RegisterQueues qs s of
      (None, s') \<Rightarrow> (\<forall>q \<in> set qs. \<exists>p. map_of (ms_registry s') (qp_Name q) = Some p \<and> agrees p q)
    | (Some e, s') \<Rightarrow> \<exists>q \<in> set qs. e = ErrQueueConflict (qp_Name q) \<and>
        (\<exists>p. map_of (ms_registry s') (qp_Name q) = Some p \<and> \<not> agrees p q))"
  using register_loop_spec [of qs "ms_registry s"] register_loop_keeps [of "ms_registry s" _ _ qs]
  by (auto simp: ms_RegisterQueues_def split: prod.splits option.splits)

section \<open>Metrics\<close>

lemma counter_totals_append:
  "counter_totals q acc (xs @ ys) = counter_totals q (counter_totals q acc xs) ys"
  by (induction q acc xs rule: counter_totals.induct) simp_all

lemma counter_totals_skip:
  "(\<And>m. m \<in> set ms \<Longrightarrow> mt_managerID m = [] \<or> mt_queue m \<noteq> q) \<Longrightarrow> counter_totals q acc ms = acc"
  by (induction q acc ms rule: counter_totals.induct) auto

definition counter_rows :: "string \<Rightarrow> gtime \<Rightarrow> queue_counters amap \<Rightarrow> metric list" where
  "counter_rows mid w cs = map (\<lambda>(q, c). \<lparr>mt_queue = q, mt_windowStart = w, mt_managerID = mid,
     mt_counters = c\<rparr>) cs"

lemma counter_totals_rows:
  assumes "mid \<noteq> []" "distinct (keys cs)"
  shows "counter_totals q acc (counter_rows mid w cs) =
    add_counters acc (case map_of cs q of None \<Rightarrow> zero_counters | Some c \<Rightarrow> c)"
  using assms(2)
proof (induction cs arbitrary: acc)
  case Nil
  then show ?case by (simp add: counter_rows_def)
next
  case (Cons p cs)
  obtain k c where p: "p = (k, c)" by fastforce
  show ?case
  proof (cases "k = q")
    case True
    with Cons.prems p have "map_of cs q = None" by (simp add: map_of_eq_None_iff)
    with Cons p True assms(1) show ?thesis by (simp add: counter_rows_def)
  next
    case False
    with Cons p show ?thesis by (simp add: counter_rows_def)
  qed
qed

lemma snapshot_rows:
  "\<exists>new. snd (snapshot_loop tstr w qs gk mts) = mts @ new \<and> (\<forall>m \<in> set new. mt_managerID m = [])"
proof (induction tstr w qs gk mts rule: snapshot_loop.induct)
  case (2 tstr w q qs gk mts)
  then show ?case by (cases "map_of gk (q @ ''|'' @ tstr w) = Some True") (auto simp: Let_def)
qed simp

text \<open>
  Counters add up. Recording a manager's counters for a window adds exactly the map's entry of
  a queue to that queue's total, and gauge snapshots never change a total.
\<close>

lemma memstore_counters_add_up:
  assumes "mid \<noteq> []" "distinct (keys cs)"
  shows "ms_CounterTotals q (ms_RecordCounters mid w cs s) =
      add_counters (ms_CounterTotals q s) (case map_of cs q of None \<Rightarrow> zero_counters | Some c \<Rightarrow> c) \<and>
    ms_CounterTotals q (ms_SnapshotMetrics tstr qs w s) = ms_CounterTotals q s"
proof
  show "ms_CounterTotals q (ms_RecordCounters mid w cs s) =
      add_counters (ms_CounterTotals q s) (case map_of cs q of None \<Rightarrow> zero_counters | Some c \<Rightarrow> c)"
    using counter_totals_rows [OF assms, of q _ w]
    by (simp add: ms_CounterTotals_def ms_RecordCounters_def counter_totals_append counter_rows_def)
  obtain new where "snd (snapshot_loop tstr w qs (ms_gaugeKeys s) (ms_metrics s)) = ms_metrics s @ new"
      "\<forall>m \<in> set new. mt_managerID m = []"
    using snapshot_rows by blast
  then show "ms_CounterTotals q (ms_SnapshotMetrics tstr qs w s) = ms_CounterTotals q s"
    by (auto simp: ms_CounterTotals_def ms_SnapshotMetrics_def counter_totals_append
        counter_totals_skip split: prod.splits)
qed

lemma snapshot_keys_mono:
  "map_of gk k = Some True \<Longrightarrow> map_of (fst (snapshot_loop tstr w qs gk mts)) k = Some True"
  by (induction tstr w qs gk mts rule: snapshot_loop.induct) (auto simp: Let_def)

lemma snapshot_keys:
  "q \<in> set qs \<Longrightarrow> map_of (fst (snapshot_loop tstr w qs gk mts)) (q @ ''|'' @ tstr w) = Some True"
proof (induction tstr w qs gk mts rule: snapshot_loop.induct)
  case (2 tstr w q' qs gk mts)
  show ?case
  proof (cases "q = q'")
    case True
    then show ?thesis
      using snapshot_keys_mono [of gk "q @ ''|'' @ tstr w"]
        snapshot_keys_mono [of "upd (q @ ''|'' @ tstr w) True gk" "q @ ''|'' @ tstr w"]
      by (simp add: Let_def)
  next
    case False
    with 2 show ?thesis by (simp add: Let_def)
  qed
qed simp

lemma snapshot_done:
  "(\<And>q. q \<in> set qs \<Longrightarrow> map_of gk (q @ ''|'' @ tstr w) = Some True) \<Longrightarrow>
    snapshot_loop tstr w qs gk mts = (gk, mts)"
  by (induction tstr w qs gk mts rule: snapshot_loop.induct) (auto simp: Let_def)

text \<open>
  One gauge per queue and window. Once a window's gauges of some queues are recorded, any
  manager's snapshot of those queues for the same window adds nothing.
\<close>

lemma memstore_gauge_once:
  assumes "set qs' \<subseteq> set qs"
  shows "ms_SnapshotMetrics tstr qs' w (ms_SnapshotMetrics tstr qs w s) = ms_SnapshotMetrics tstr qs w s"
proof -
  obtain gk mts where l: "snapshot_loop tstr w qs (ms_gaugeKeys s) (ms_metrics s) = (gk, mts)" by fastforce
  have "map_of gk (q @ ''|'' @ tstr w) = Some True" if "q \<in> set qs'" for q
    using snapshot_keys [of q qs tstr w "ms_gaugeKeys s" "ms_metrics s"] assms that l by auto
  then have "snapshot_loop tstr w qs' gk mts = (gk, mts)" by (rule snapshot_done)
  then show ?thesis by (simp add: ms_SnapshotMetrics_def l)
qed

end
