(* ===== verification/Manager_Counters.thy ===== *)
theory Manager_Counters
  imports Memstore_Tables Config_Props Worker
begin

text \<open>
  The counters of a manager (\<open>worker.go\<close>, \<open>manager.go\<close>) over the memory store: between the manager's
  own counters and what the janitor has written, nothing is lost or counted twice.
\<close>

definition counter_of :: "string \<Rightarrow> manager \<Rightarrow> queue_counters" where
  "counter_of q m = (case m_counters m of None \<Rightarrow> zero_counters
     | Some cs \<Rightarrow> (case map_of cs q of None \<Rightarrow> zero_counters | Some c \<Rightarrow> c))"

definition tallied :: "string \<Rightarrow> manager \<Rightarrow> memstore \<Rightarrow> queue_counters" where
  "tallied q m s = add_counters (ms_CounterTotals q s) (counter_of q m)"

definition counting :: "manager \<Rightarrow> bool" where
  "counting m \<longleftrightarrow> m_managerID m \<noteq> [] \<and> pred_option (distinct \<circ> keys) (m_counters m)"

lemma lookup_flush:
  "distinct (keys cs) \<Longrightarrow> map_of (flush_counters cs) q = (case map_of cs q of None \<Rightarrow> None | Some c \<Rightarrow> if c = zero_counters then None else Some c)"
  by (induction cs) (auto simp: flush_counters_def map_of_eq_None_iff split: option.splits if_splits)

lemma distinct_flush: "distinct (keys cs) \<Longrightarrow> distinct (keys (flush_counters cs))"
  by (auto simp: flush_counters_def distinct_map_filter)

lemma flushMetrics_conserves:
  assumes "counting m" "flushMetrics (memstore_ops tstr) w drain mc m s = (e, m', s')"
  shows "ms_CounterTotals q s' = tallied q m s" "counter_of q m' = zero_counters" "counting m'"
proof -
  let ?cs = "case m_counters m of None \<Rightarrow> [] | Some cs \<Rightarrow> cs"
  let ?s = "if drain then s else ms_SnapshotMetrics tstr (m_queueNames m) w s"
  have d: "distinct (keys ?cs)" using assms(1) by (auto simp: counting_def split: option.splits)
  have m': "m' = m\<lparr>m_counters := map_option (map_vals (\<lambda>_. zero_counters)) (m_counters m)\<rparr>"
    and s': "s' = (if flush_counters ?cs = [] then ?s else ms_RecordCounters (m_managerID m) w (flush_counters ?cs) ?s)"
    using assms(2) by (auto simp: flushMetrics_def memstore_ops_def Let_def split: if_splits)
  show "counting m'" using assms(1) by (simp add: counting_def m' pred_option_def option.set_map)
  show "counter_of q m' = zero_counters" by (simp add: counter_of_def m' split: option.splits)
  have id: "m_managerID m \<noteq> []" using assms(1) by (simp add: counting_def)
  have snap: "ms_CounterTotals q ?s = ms_CounterTotals q s" using memstore_counters_add_up [OF id d] by simp
  have c: "counter_of q m = (case map_of (flush_counters ?cs) q of None \<Rightarrow> zero_counters | Some c \<Rightarrow> c)"
    unfolding lookup_flush [OF d] by (simp add: counter_of_def split: option.splits)
  show "ms_CounterTotals q s' = tallied q m s"
  proof (cases "flush_counters ?cs = []")
    case True
    with c snap show ?thesis by (simp add: s' tallied_def)
  next
    case False
    with c snap memstore_counters_add_up [OF id distinct_flush [OF d], of q w ?s] show ?thesis by (simp add: s' tallied_def)
  qed
qed

lemma reap_totals: "ms_CounterTotals q (reap (memstore_ops tstr) now s) = ms_CounterTotals q s"
  by (simp add: reap_def memstore_ops_def ms_ReapExpired_def ms_CounterTotals_def split: prod.splits)

text \<open>
  C22: counters are conserved. Whatever rounds a manager's janitor makes, what the store has recorded for
  a queue and what the manager still holds add up to the same counts; after a flush, at a window's end or at
  shutdown, the store has all of them and the manager none.
\<close>

theorem janitor_conserves_counters:
  assumes "counting m"
    and "(j', m', s') = janitor_round (memstore_ops tstr) n0 n1 n2 n3 j m s \<or>
      (m', s') = janitor_drain (memstore_ops tstr) j m s"
  shows "tallied q m' s' = tallied q m s \<and> counting m' \<and>
    (m' = m \<or> counter_of q m' = zero_counters \<and> ms_CounterTotals q s' = tallied q m s)"
proof -
  consider "m' = m" "ms_CounterTotals q s' = ms_CounterTotals q s"
    | w mc b e t where "flushMetrics (memstore_ops tstr) w b mc m t = (e, m', s')" "ms_CounterTotals q t = ms_CounterTotals q s"
    using assms(2)
  proof
    assume r: "(j', m', s') = janitor_round (memstore_ops tstr) n0 n1 n2 n3 j m s"
    obtain j1 s1 where j1: "janitor_reap (memstore_ops tstr) n0 n1 n2 j m s = (j1, s1)" by fastforce
    then have "ms_CounterTotals q s1 = ms_CounterTotals q s"
      by (auto simp: janitor_reap_def reap_totals split: if_splits)
    with r j1 show thesis
      by (auto simp: janitor_round_def janitor_metrics_def intro: that split: option.splits if_splits prod.splits)
  next
    assume "(m', s') = janitor_drain (memstore_ops tstr) j m s"
    then show thesis
      by (auto simp: janitor_drain_def intro: that split: option.splits if_splits prod.splits)
  qed
  then show ?thesis
  proof cases
    case 1
    with assms(1) show ?thesis by (simp add: tallied_def)
  next
    case 2
    from flushMetrics_conserves(1,2) [OF assms(1) 2(1), of q] flushMetrics_conserves(3) [OF assms(1) 2(1)] 2(2) show ?thesis by (simp add: tallied_def)
  qed
qed

definition demo_counting :: manager where
  "demo_counting = (demo_manager [])\<lparr>m_metrics := Some \<lparr>mc_Interval = seconds 10, mc_Retention = hours 1\<rparr>,
     m_counters := Some [(''q'', zero_counters\<lparr>qc_Enqueued := 3\<rparr>)]\<rparr>"

definition demo_drained :: "manager \<times> memstore" where
  "demo_drained = janitor_drain (memstore_ops (\<lambda>_. [])) \<lparr>jn_nextReap = 0, jn_nextMetrics = 10000000000, jn_metricsOn = True\<rparr>
     demo_counting ms_New"

lemma demo_drained_zero: "m_managerID demo_counting \<noteq> [] \<and> m_counters (fst demo_drained) = Some [(''q'', zero_counters)]"
  by code_simp

lemma janitor_conserves_counters_witness:
  "ms_CounterTotals ''q'' (snd demo_drained) = zero_counters\<lparr>qc_Enqueued := 3\<rparr>"
proof -
  have "counting demo_counting" using demo_drained_zero by (simp add: counting_def demo_counting_def)
  moreover have "(fst demo_drained, snd demo_drained) = janitor_drain (memstore_ops (\<lambda>_. []))
      \<lparr>jn_nextReap = 0, jn_nextMetrics = 10000000000, jn_metricsOn = True\<rparr> demo_counting ms_New"
    by (simp add: demo_drained_def)
  ultimately have "tallied ''q'' (fst demo_drained) (snd demo_drained) = tallied ''q'' demo_counting ms_New"
    using janitor_conserves_counters by blast
  then show ?thesis using demo_drained_zero
    by (simp add: tallied_def counter_of_def demo_counting_def ms_CounterTotals_def ms_New_def)
qed

end
