(* ===== verification/Mongo_Codec.thy ===== *)
theory Mongo_Codec
  imports Mongo_Introspection
begin

text \<open>
  How task documents decode: what \<open>td_marshal\<close> writes reads back as itself with its times rounded
  down to milliseconds, and each update the store sends acts on the decoded document as the Go code
  intends.
\<close>

section \<open>Decoding\<close>

lemma td_decode_iff:
  "td_decode d = Some t \<longleftrightarrow>
     get_oid ''_id'' d = Some (td_ID t) \<and> get_str ''queue'' d = Some (td_Queue t) \<and>
     get_str ''type'' d = Some (td_Type t) \<and> get_str ''unique_key'' d = Some (td_UniqueKey t) \<and>
     get_raw ''payload'' d = Some (td_Payload t) \<and> get_str ''status'' d = Some (td_Status t) \<and>
     get_int ''attempts'' d = Some (td_Attempts t) \<and> get_int ''max_attempts'' d = Some (td_MaxAttempts t) \<and>
     get_time ''run_at'' d = Some (td_RunAt t) \<and> get_str ''leased_by'' d = Some (td_LeasedBy t) \<and>
     get_time ''leased_until'' d = Some (td_LeasedUntil t) \<and> get_str ''lease_token'' d = Some (td_LeaseToken t) \<and>
     get_field as_errors ''errors'' d = Some (td_Errors t) \<and> get_raw ''result'' d = Some (td_Result t) \<and>
     get_field as_time_ptr ''expires_at'' d = Some (td_ExpiresAt t) \<and> get_time ''created_at'' d = Some (td_CreatedAt t) \<and>
     get_time ''updated_at'' d = Some (td_UpdatedAt t)"
  by (cases t) (auto simp: td_decode_def Option.bind_eq_Some_conv)

text \<open>What a reader sees after an update.\<close>

lemma or_null_simps [simp]: "or_null None = BNull" "or_null (Some v) = v"
  by (simp_all add: or_null_def)

lemma get_upd [simp]: "get_field as k (upd j v d) = (if k = j then as v else get_field as k d)"
  by (simp add: get_field_def)

lemma get_unset [simp]: "get_field as k (unset_fields ks d) = (if k \<in> set ks then as BNull else get_field as k d)"
  by (simp add: get_field_def)

lemma get_inc [simp]: "j \<noteq> k \<Longrightarrow> get_field as k (inc_field j n d) = get_field as k d"
  by (simp add: get_field_def)

lemma get_push [simp]: "j \<noteq> k \<Longrightarrow> get_field as k (push_field j v d) = get_field as k d"
  by (simp add: get_field_def)

lemma get_int_inc:
  "get_int k d = Some m \<Longrightarrow> map_of d k \<noteq> Some BNull \<Longrightarrow> get_int k (inc_field k n d) = Some (m + n)"
  by (auto simp: get_field_def inc_field_def split: option.splits bval.splits)

lemma those_append: "those (xs @ ys) = (case those xs of None \<Rightarrow> None | Some us \<Rightarrow> map_option ((@) us) (those ys))"
  by (cases "those ys"; induction xs) (auto split: option.splits)

lemma get_errors_push:
  assumes "get_field as_errors k d = Some es" "map_of d k \<noteq> Some BNull" "te_decode v = Some e"
  shows "get_field as_errors k (push_field k v d) = Some (es @ [e])"
  using assms by (auto simp: get_field_def push_field_def those_append split: option.splits bval.splits)

section \<open>Round trip\<close>

definition te_rounded :: "task_error \<Rightarrow> task_error" where
  "te_rounded e = e\<lparr>te_At := bson_ms (te_At e)\<rparr>"

definition td_rounded :: "task_doc \<Rightarrow> task_doc" where
  "td_rounded t = t\<lparr>td_RunAt := bson_ms (td_RunAt t), td_LeasedUntil := bson_ms (td_LeasedUntil t),
     td_Errors := map te_rounded (td_Errors t), td_ExpiresAt := map_option bson_ms (td_ExpiresAt t),
     td_CreatedAt := bson_ms (td_CreatedAt t), td_UpdatedAt := bson_ms (td_UpdatedAt t)\<rparr>"

lemma te_decode_marshal: "te_decode (te_marshal e) = Some (te_rounded e)"
  by (simp add: te_marshal_def te_rounded_def get_field_def btime_def)

lemma those_decode_marshal: "those (map te_decode (map te_marshal es)) = Some (map te_rounded es)"
  by (induction es) (simp_all add: te_decode_marshal)

lemma bson_ms_zero [simp]: "bson_ms 0 = 0"
  by (simp add: bson_ms_def)

lemma lookup_opt_field [simp]: "map_of (opt_field k v) j = (if j = k then v else None)"
  by (cases v) (simp_all add: opt_field_def)

lemma lookup_omit [simp]:
  "map_of (omit_when b k v) j = (if j = k \<and> \<not> b then Some v else None)"
  "map_of (omit_str k s) j = (if j = k \<and> s \<noteq> [] then Some (BStr s) else None)"
  "map_of (omit_raw k r) j = (if j = k then map_option BDoc r else None)"
  "map_of (omit_int k n) j = (if j = k \<and> n \<noteq> 0 then Some (BInt n) else None)"
  by (simp_all add: omit_when_def omit_str_def omit_raw_def omit_int_def)

lemma td_marshal_lookups:
  "map_of (td_marshal t) ''_id'' = (if td_ID t = 0 then None else Some (BOid (td_ID t)))"
  "map_of (td_marshal t) ''queue'' = Some (BStr (td_Queue t))"
  "map_of (td_marshal t) ''type'' = Some (BStr (td_Type t))"
  "map_of (td_marshal t) ''unique_key'' = (if td_UniqueKey t = [] then None else Some (BStr (td_UniqueKey t)))"
  "map_of (td_marshal t) ''payload'' = map_option BDoc (td_Payload t)"
  "map_of (td_marshal t) ''status'' = Some (BStr (td_Status t))"
  "map_of (td_marshal t) ''attempts'' = Some (BInt (td_Attempts t))"
  "map_of (td_marshal t) ''max_attempts'' = Some (BInt (td_MaxAttempts t))"
  "map_of (td_marshal t) ''run_at'' = Some (btime (td_RunAt t))"
  "map_of (td_marshal t) ''leased_by'' = (if td_LeasedBy t = [] then None else Some (BStr (td_LeasedBy t)))"
  "map_of (td_marshal t) ''leased_until'' = (if is_zero (td_LeasedUntil t) then None else Some (btime (td_LeasedUntil t)))"
  "map_of (td_marshal t) ''lease_token'' = (if td_LeaseToken t = [] then None else Some (BStr (td_LeaseToken t)))"
  "map_of (td_marshal t) ''errors'' = (if td_Errors t = [] then None else Some (BArr (map te_marshal (td_Errors t))))"
  "map_of (td_marshal t) ''result'' = map_option BDoc (td_Result t)"
  "map_of (td_marshal t) ''expires_at'' = map_option btime (td_ExpiresAt t)"
  "map_of (td_marshal t) ''created_at'' = Some (btime (td_CreatedAt t))"
  "map_of (td_marshal t) ''updated_at'' = Some (btime (td_UpdatedAt t))"
  by (simp_all add: td_marshal_def map_add_def split: option.split)

lemma btime_as: "as_time (btime x) = Some (bson_ms x)"
  by (simp add: btime_def)

lemma as_option [simp]:
  "as_raw (or_null (map_option BDoc r)) = Some r"
  "as_time_ptr (or_null (map_option btime x)) = Some (map_option bson_ms x)"
  by (cases r; simp) (cases x; simp add: btime_def)

lemma td_decode_marshal: "td_decode (td_marshal t) = Some (td_rounded t)"
  unfolding td_decode_iff
  by (intro conjI; simp add: get_field_def td_marshal_lookups td_rounded_def those_decode_marshal btime_as
      del: map_map)

section \<open>The updates\<close>

text \<open>The fields the store writes: none is null, and the two attempts counters are there.\<close>

definition statuses :: "string set" where
  "statuses = range status_str"

text \<open>The fields every task document has.\<close>

definition required :: "string list" where
  "required = [''attempts'', ''max_attempts'', ''run_at'', ''queue'', ''type'']"

lemma all_required [simp]: "list_all P required \<longleftrightarrow> P ''attempts'' \<and> P ''max_attempts'' \<and> P ''run_at'' \<and> P ''queue'' \<and> P ''type''"
  by (simp add: required_def)

definition null_free :: "bdoc \<Rightarrow> bool" where
  "null_free d \<longleftrightarrow> (\<forall>k. map_of d k \<noteq> Some BNull) \<and> (\<forall>k \<in> set required. map_of d k \<noteq> None)"

lemma null_free_present: "null_free d \<Longrightarrow> k \<in> set required \<Longrightarrow> map_of d k \<noteq> None"
  by (simp add: null_free_def)

lemma null_free_upd [simp]: "null_free d \<Longrightarrow> v \<noteq> BNull \<Longrightarrow> null_free (upd k v d)"
  by (simp add: null_free_def)

lemma null_free_unset [simp]:
  "null_free d \<Longrightarrow> list_all (\<lambda>k. k \<notin> set ks) required \<Longrightarrow> null_free (unset_fields ks d)"
  by (simp add: null_free_def list_all_iff)

lemma null_free_inc [simp]: "null_free d \<Longrightarrow> null_free (inc_field k n d)"
  by (auto simp: null_free_def inc_field_def split: option.splits bval.splits)

lemma null_free_push [simp]: "null_free d \<Longrightarrow> null_free (push_field k v d)"
  by (auto simp: null_free_def push_field_def split: option.splits bval.splits)

lemma null_free_marshal: "null_free (td_marshal t)"
proof -
  have "map_of (td_marshal t) k \<noteq> Some BNull" for k
    by (auto simp: td_marshal_def map_add_Some_iff btime_def split: if_splits)
  moreover have "list_all (\<lambda>k. map_of (td_marshal t) k \<noteq> None) required" by (simp add: td_marshal_lookups)
  ultimately show ?thesis by (simp add: null_free_def list_all_iff)
qed

definition claimed_doc :: "gtime \<Rightarrow> string \<Rightarrow> string \<Rightarrow> duration \<Rightarrow> task_doc \<Rightarrow> task_doc" where
  "claimed_doc now w tok lease t = t\<lparr>td_Status := ''running'', td_LeasedBy := w, td_LeaseToken := tok,
     td_LeasedUntil := bson_ms (add_time now lease), td_UpdatedAt := bson_ms now,
     td_Attempts := td_Attempts t + 1\<rparr>"

lemma claim_decode:
  assumes "td_decode d = Some t" "null_free d"
  shows "td_decode (uapply (claimUpdate now w tok lease) d) = Some (claimed_doc now w tok lease t)"
    "null_free (uapply (claimUpdate now w tok lease) d)"
proof -
  have "get_int ''attempts'' (inc_field ''attempts'' 1 (upd j v d)) = Some (td_Attempts t + 1)"
    if "j \<noteq> ''attempts''" for j v
    using assms that by (intro get_int_inc) (simp_all add: td_decode_iff null_free_def)
  then show "td_decode (uapply (claimUpdate now w tok lease) d) = Some (claimed_doc now w tok lease t)"
    using assms unfolding td_decode_iff claimed_doc_def
    by (simp add: claimUpdate_def btime_def get_int_inc null_free_def)
  show "null_free (uapply (claimUpdate now w tok lease) d)"
    using assms by (simp add: claimUpdate_def btime_def)
qed

definition completed_doc :: "gtime \<Rightarrow> bdoc option \<Rightarrow> task_doc \<Rightarrow> task_doc" where
  "completed_doc now raw t = t\<lparr>td_Status := ''done'', td_UpdatedAt := bson_ms now,
     td_Result := (case raw of None \<Rightarrow> td_Result t | Some b \<Rightarrow> Some b),
     td_LeasedBy := [], td_LeaseToken := [], td_UniqueKey := []\<rparr>"

lemma complete_decode:
  assumes "completeWrite dr tk r now = Inr (f, u)" "td_decode d = Some t" "null_free d"
  shows "\<exists>raw. td_decode (uapply u d) = Some (completed_doc now raw t)" "null_free (uapply u d)"
proof -
  obtain raw where u: "u = UpOps [USet ([(''status'', BStr ''done''), (''updated_at'', btime now)] @ omit_raw ''result'' raw),
      UUnset [''leased_by'', ''lease_token'', ''unique_key'']]"
    using assms(1) by (auto simp: completeWrite_def split: sum.splits)
  have "td_decode (uapply u d) = Some (completed_doc now raw t)"
    using assms(2) unfolding td_decode_iff completed_doc_def u
    by (cases raw) (simp_all add: omit_raw_def opt_field_def btime_as)
  then show "\<exists>raw. td_decode (uapply u d) = Some (completed_doc now raw t)" ..
  show "null_free (uapply u d)"
    using assms(3) unfolding u by (cases raw) (simp_all add: omit_raw_def opt_field_def btime_def)
qed

definition failed_doc :: "gtime \<Rightarrow> task_error \<Rightarrow> gtime \<Rightarrow> bool \<Rightarrow> task_doc \<Rightarrow> task_doc" where
  "failed_doc now e retryAt terminal t = t\<lparr>td_UpdatedAt := bson_ms now,
     td_Status := (if terminal then ''dead'' else ''pending''),
     td_RunAt := (if terminal then td_RunAt t else bson_ms retryAt),
     td_Errors := td_Errors t @ [te_rounded e], td_LeasedBy := [], td_LeaseToken := [],
     td_UniqueKey := (if terminal then [] else td_UniqueKey t)\<rparr>"

lemma fail_decode:
  assumes "failWrite dr tk e ra terminal now = Inr (f, u)" "td_decode d = Some t" "null_free d"
  shows "td_decode (uapply u d) = Some (failed_doc now e ra terminal t)" "null_free (uapply u d)"
proof -
  have u: "u = UpOps [USet ((''updated_at'', btime now) #
          (if terminal then [(''status'', BStr ''dead'')]
           else [(''status'', BStr ''pending''), (''run_at'', btime ra)])),
        UPush ''errors'' (te_marshal e),
        UUnset ([''leased_by'', ''lease_token''] @ (if terminal then [''unique_key''] else []))]"
    using assms(1) by (auto simp: failWrite_def split: sum.splits)
  have push: "get_field as_errors ''errors'' (push_field ''errors'' (te_marshal e) d') = Some (td_Errors t @ [te_rounded e])"
    if "get_field as_errors ''errors'' d' = Some (td_Errors t)" "map_of d' ''errors'' \<noteq> Some BNull" for d'
    using that by (intro get_errors_push te_decode_marshal)
  show "td_decode (uapply u d) = Some (failed_doc now e ra terminal t)"
    using assms(2,3) unfolding td_decode_iff failed_doc_def u null_free_def
    by (cases terminal) (simp_all add: btime_as push)
  show "null_free (uapply u d)"
    using assms(3) unfolding u by (cases terminal) (simp_all add: btime_def)
qed

definition extended_doc :: "gtime \<Rightarrow> gtime \<Rightarrow> task_doc \<Rightarrow> task_doc" where
  "extended_doc now until t = t\<lparr>td_LeasedUntil := bson_ms until, td_UpdatedAt := bson_ms now\<rparr>"

lemma extend_decode:
  assumes "td_decode d = Some t" "null_free d"
    and u: "u = UpOps [USet [(''leased_until'', btime until), (''updated_at'', btime now)]]"
  shows "td_decode (uapply u d) = Some (extended_doc now until t)" "null_free (uapply u d)"
  using assms(1,2) unfolding td_decode_iff extended_doc_def u by (simp_all add: btime_as btime_def)

definition requeued_doc :: "gtime \<Rightarrow> task_doc \<Rightarrow> task_doc" where
  "requeued_doc now t = t\<lparr>td_Status := ''pending'', td_Attempts := 0, td_RunAt := bson_ms now,
     td_UpdatedAt := bson_ms now, td_Result := None, td_LeasedBy := [], td_LeasedUntil := 0, td_LeaseToken := []\<rparr>"

lemma requeue_decode:
  assumes "td_decode d = Some t" "null_free d"
  shows "td_decode (uapply (requeueUpdate now) d) = Some (requeued_doc now t)"
    "null_free (uapply (requeueUpdate now) d)"
  using assms unfolding td_decode_iff requeued_doc_def requeueUpdate_def by (simp_all add: btime_as btime_def)

definition reaped_doc :: "gtime \<Rightarrow> task_doc \<Rightarrow> task_doc" where
  "reaped_doc now t = t\<lparr>td_Status := ''dead'', td_UpdatedAt := bson_ms now,
     td_Errors := td_Errors t @ [\<lparr>te_At = bson_ms now, te_Attempt = td_Attempts t, te_Worker = td_LeasedBy t,
       te_Message = ''lease expired before completion; attempts exhausted''\<rparr>],
     td_LeasedBy := [], td_LeaseToken := [], td_UniqueKey := []\<rparr>"

lemma present_cases:
  assumes "get_field as k d = Some x" "null_free d"
  obtains "map_of d k = None" "as BNull = Some x" | v where "map_of d k = Some v" "v \<noteq> BNull" "as v = Some x"
  using assms by (cases "map_of d k") (auto simp: get_field_def null_free_def)

lemma reap_entry:
  assumes "td_decode d = Some t" "null_free d"
  shows "\<exists>b. aeval d (AObj [(''at'', ALit (btime now)), (''attempt'', AField ''attempts''),
         (''worker'', AField ''leased_by''), (''message'', ALit (BStr msg))]) = Some (BDoc b) \<and>
    te_decode (BDoc b) = Some \<lparr>te_At = bson_ms now, te_Attempt = td_Attempts t, te_Worker = td_LeasedBy t, te_Message = msg\<rparr>"
proof -
  have a: "get_int ''attempts'' d = Some (td_Attempts t)" and w: "get_str ''leased_by'' d = Some (td_LeasedBy t)"
    using assms(1) by (simp_all add: td_decode_iff)
  show ?thesis
    by (rule present_cases [OF a assms(2)]; rule present_cases [OF w assms(2)])
      (auto simp: get_field_def btime_as)
qed

lemma reap_decode:
  assumes "td_decode d = Some t" "null_free d"
  shows "td_decode (uapply (reapUpdate now) d) = Some (reaped_doc now t)" "null_free (uapply (reapUpdate now) d)"
proof -
  let ?msg = "''lease expired before completion; attempts exhausted''"
  let ?e = "\<lparr>te_At = bson_ms now, te_Attempt = td_Attempts t, te_Worker = td_LeasedBy t, te_Message = ?msg\<rparr>"
  obtain b where b: "aeval d (AObj [(''at'', ALit (btime now)), (''attempt'', AField ''attempts''),
         (''worker'', AField ''leased_by''), (''message'', ALit (BStr ?msg))]) = Some (BDoc b)"
    "te_decode (BDoc b) = Some ?e"
    using reap_entry [OF assms] by blast
  have es: "get_field as_errors ''errors'' d = Some (td_Errors t)" using assms(1) by (simp add: td_decode_iff)
  obtain vs where vs: "or_null (aeval d (AIfNull (AField ''errors'') (AArr []))) = BArr vs"
      "those (map te_decode vs) = Some (td_Errors t)"
  proof (rule present_cases [OF es assms(2)])
    fix v assume v: "map_of d ''errors'' = Some v" "v \<noteq> BNull" "as_errors v = Some (td_Errors t)"
    then show thesis using that by (cases v) simp_all
  next
    assume "map_of d ''errors'' = None" "as_errors BNull = Some (td_Errors t)"
    then show thesis using that [of "[]"] by simp
  qed
  have "aeval d (AConcat [AIfNull (AField ''errors'') (AArr []), AArr [AObj [(''at'', ALit (btime now)),
      (''attempt'', AField ''attempts''), (''worker'', AField ''leased_by''), (''message'', ALit (BStr ?msg))]]]) =
    Some (BArr (vs @ [BDoc b]))"
    using vs(1) b(1) by (simp del: aeval.simps(2,4,5) add: aeval.simps(3,6))
  then have u: "uapply (reapUpdate now) d = unset_fields [''leased_by'', ''lease_token'', ''unique_key'']
      (upd ''errors'' (BArr (vs @ [BDoc b])) (upd ''updated_at'' (btime now) (upd ''status'' (BStr ''dead'') d)))"
    by (simp add: reapUpdate_def set_exprs_def del: aeval.simps(3-6))
  have "those (map te_decode (vs @ [BDoc b])) = Some (td_Errors t @ [?e])"
    using vs(2) b(2) by (simp add: those_append)
  then show "td_decode (uapply (reapUpdate now) d) = Some (reaped_doc now t)"
    using assms(1) unfolding td_decode_iff reaped_doc_def u by (simp add: btime_as)
  show "null_free (uapply (reapUpdate now) d)"
    using assms(2) unfolding u by (simp add: btime_def)
qed

end
