(* ===== verification/Mongo_Sim.thy ===== *)
theory Mongo_Sim
  imports Mongo_Codec Store_Client
begin

text \<open>
  The MongoDB store's documents as tasks of the abstract machine of theory \<open>Contract\<close>: the relation
  between a table of documents and the machine's tasks, and the events that the store's updates of
  single documents, of batches and of whole sets are.
\<close>

section \<open>The abstraction\<close>

definition abs_doc :: "task_doc \<Rightarrow> atask" where
  "abs_doc t = \<lparr>a_queue = td_Queue t, a_type = td_Type t, a_key = td_UniqueKey t,
     a_attempts = td_Attempts t, a_max = td_MaxAttempts t,
     a_state = (if td_Status t = ''pending'' then APending (td_RunAt t)
                else if td_Status t = ''running'' then ARunning (td_LeaseToken t) (td_LeasedUntil t)
                else if td_Status t = ''done'' then ADone else ADead)\<rparr>"

text \<open>A stored document: \<open>toks\<close> are the tokens handed out.\<close>

definition doc_ok :: "string set \<Rightarrow> bdoc \<Rightarrow> task_doc \<Rightarrow> bool" where
  "doc_ok toks d t \<longleftrightarrow> td_decode d = Some t \<and> null_free d \<and> td_Status t \<in> statuses \<and>
     (td_LeaseToken t = [] \<or> td_LeaseToken t \<in> toks) \<and>
     (td_Status t = ''running'' \<longleftrightarrow> td_LeaseToken t \<noteq> []) \<and>
     (td_Status t = ''running'' \<longrightarrow> map_of d ''leased_until'' \<noteq> None)"

definition tsim :: "(oid \<Rightarrow> string) \<Rightarrow> string set \<Rightarrow> table \<Rightarrow> cstore \<Rightarrow> bool" where
  "tsim hx toks m c \<longleftrightarrow>
     (\<forall>i d. m i = Some d \<longrightarrow> (\<exists>k t. i = BOid k \<and> map_of d ''_id'' = Some i \<and> doc_ok toks d t \<and>
        c_tasks c (hx k) = Some (abs_doc t))) \<and>
     (\<forall>j a. c_tasks c j = Some a \<longrightarrow> (\<exists>k d. j = hx k \<and> m (BOid k) = Some d))"

lemma statuses_simps [simp]:
  "''pending'' \<in> statuses" "''running'' \<in> statuses" "''done'' \<in> statuses" "''dead'' \<in> statuses"
  unfolding statuses_def using status_str.simps by (metis rangeI)+

lemma abs_doc_sel [simp]:
  "a_queue (abs_doc t) = td_Queue t" "a_type (abs_doc t) = td_Type t" "a_key (abs_doc t) = td_UniqueKey t"
  "a_attempts (abs_doc t) = td_Attempts t" "a_max (abs_doc t) = td_MaxAttempts t"
  by (simp_all add: abs_doc_def)

lemma abs_doc_running:
  "td_Status t = ''running'' \<Longrightarrow> a_state (abs_doc t) = ARunning (td_LeaseToken t) (td_LeasedUntil t)"
  "td_Status t = ''pending'' \<Longrightarrow> a_state (abs_doc t) = APending (td_RunAt t)"
  "td_Status t = ''dead'' \<Longrightarrow> a_state (abs_doc t) = ADead"
  by (simp_all add: abs_doc_def)

lemma abs_doc_state_running:
  "a_state (abs_doc t) = ARunning tok u \<longleftrightarrow>
    td_Status t = ''running'' \<and> tok = td_LeaseToken t \<and> u = td_LeasedUntil t"
  by (auto simp: abs_doc_def)

lemma abs_doc_active:
  assumes "doc_ok toks d t"
  shows "is_active (a_state (abs_doc t)) \<longleftrightarrow> td_Status t = ''pending'' \<or> td_Status t = ''running''"
  by (simp add: abs_doc_def)

lemma tsim_lookup:
  assumes "tsim hx toks m c" "m i = Some d"
  obtains k t where "i = BOid k" "map_of d ''_id'' = Some (BOid k)" "doc_ok toks d t" "td_ID t = k"
    "c_tasks c (hx k) = Some (abs_doc t)"
proof -
  obtain k t where k: "i = BOid k" "map_of d ''_id'' = Some i" "doc_ok toks d t" "c_tasks c (hx k) = Some (abs_doc t)"
    using assms unfolding tsim_def by blast
  moreover have "td_ID t = k"
    using k by (simp add: doc_ok_def td_decode_iff get_field_def)
  ultimately show thesis using that by simp
qed

lemma tsim_find:
  assumes "tsim hx toks m c" "c_tasks c j = Some a"
  obtains k d t where "j = hx k" "m (BOid k) = Some d" "map_of d ''_id'' = Some (BOid k)" "doc_ok toks d t"
    "td_ID t = k" "a = abs_doc t"
proof -
  obtain k d where k: "j = hx k" "m (BOid k) = Some d" using assms by (auto simp: tsim_def)
  from tsim_lookup [OF assms(1) k(2)] obtain t where
    "map_of d ''_id'' = Some (BOid k)" "doc_ok toks d t" "td_ID t = k" "c_tasks c (hx k) = Some (abs_doc t)"
    by (metis bval.inject(4))
  with k assms(2) show thesis using that by simp
qed

lemma doc_ok_mono: "doc_ok toks d t \<Longrightarrow> toks \<subseteq> toks' \<Longrightarrow> doc_ok toks' d t"
  by (auto simp: doc_ok_def)

lemma tsim_mono: "tsim hx toks m c \<Longrightarrow> toks \<subseteq> toks' \<Longrightarrow> tsim hx toks' m c"
  unfolding tsim_def by (meson doc_ok_mono)

lemma tsim_put:
  assumes "tsim hx toks m c" "inj hx" "doc_ok toks d t" "map_of d ''_id'' = Some (BOid k)"
    and "c_tasks c' = (c_tasks c)(hx k \<mapsto> abs_doc t)"
  shows "tsim hx toks (m(BOid k \<mapsto> d)) c'"
  unfolding tsim_def
proof (intro conjI allI impI)
  fix i e
  assume e: "(m(BOid k \<mapsto> d)) i = Some e"
  show "\<exists>k t. i = BOid k \<and> map_of e ''_id'' = Some i \<and> doc_ok toks e t \<and> c_tasks c' (hx k) = Some (abs_doc t)"
  proof (cases "i = BOid k")
    case True
    with e assms(3-5) show ?thesis by auto
  next
    case False
    with e have "m i = Some e" by simp
    then obtain q t' where q: "i = BOid q" "map_of e ''_id'' = Some (BOid q)" "doc_ok toks e t'"
        "c_tasks c (hx q) = Some (abs_doc t')"
      by (rule tsim_lookup [OF assms(1)])
    with False have "hx q \<noteq> hx k" by (simp add: inj_eq [OF assms(2)])
    with q assms(5) show ?thesis by auto
  qed
next
  fix j a
  assume j: "c_tasks c' j = Some a"
  show "\<exists>q e. j = hx q \<and> (m(BOid k \<mapsto> d)) (BOid q) = Some e"
  proof (cases "j = hx k")
    case False
    with j assms(5) have "c_tasks c j = Some a" by simp
    then obtain q e where "j = hx q" "m (BOid q) = Some e" by (rule tsim_find [OF assms(1)])
    then show ?thesis by auto
  qed auto
qed

lemma tsim_cong: "tsim hx toks m c \<Longrightarrow> c_tasks c' = c_tasks c \<Longrightarrow> tsim hx toks m c'"
  by (simp add: tsim_def)

text \<open>No update touches the id.\<close>

definition keeps_id :: "update \<Rightarrow> bool" where
  "keeps_id u \<longleftrightarrow> (\<forall>d. map_of (uapply u d) ''_id'' = map_of d ''_id'')"

lemma keeps_id_claim: "keeps_id (claimUpdate now w tok lease)"
  by (simp add: keeps_id_def claimUpdate_def)

lemma keeps_id_requeue: "keeps_id (requeueUpdate now)"
  by (simp add: keeps_id_def requeueUpdate_def)

lemma set_exprs_other: "k \<notin> fst ` set fs \<Longrightarrow> map_of (set_exprs fs d) k = map_of d k"
proof -
  have "k \<notin> fst ` set fs \<Longrightarrow>
    map_of (fold (\<lambda>(k, e) d'. case aeval d e of None \<Rightarrow> d' | Some v \<Rightarrow> upd k v d') fs d') k = map_of d' k" for d'
    by (induction fs arbitrary: d') (auto split: option.split)
  then show "k \<notin> fst ` set fs \<Longrightarrow> map_of (set_exprs fs d) k = map_of d k"
    by (simp add: set_exprs_def)
qed

lemma keeps_id_reap: "keeps_id (reapUpdate now)"
  by (simp add: keeps_id_def reapUpdate_def set_exprs_other)

lemma keeps_id_extend: "keeps_id (UpOps [USet [(''leased_until'', v), (''updated_at'', w)]])"
  by (simp add: keeps_id_def)

lemma keeps_id_outcome: "outcome_write dr now r = Inr (f, u) \<Longrightarrow> keeps_id u"
  by (auto simp: outcome_write_def failWrite_def completeWrite_def keeps_id_def omit_raw_def opt_field_def
      split: option.splits sum.splits if_splits)

section \<open>Events of single documents\<close>

lemma match_and [simp]: "fmatch (FAnd fs) d \<longleftrightarrow> (\<forall>f \<in> set fs. fmatch f d)"
  by (simp add: list_all_iff)

lemma holds_eq [simp]: "cond_holds (CEq v) x \<longleftrightarrow> x = Some v"
  by (cases x) auto

lemma status_field:
  assumes "doc_ok toks d t" "map_of d ''status'' = Some (BStr s)"
  shows "td_Status t = s"
  using assms by (auto simp: doc_ok_def td_decode_iff get_field_def)

lemma token_field:
  assumes "doc_ok toks d t" "map_of d ''lease_token'' = Some (BStr tok)"
  shows "td_LeaseToken t = tok"
  using assms by (auto simp: doc_ok_def td_decode_iff get_field_def)

lemma str_present:
  assumes "get_str k d = Some s" "s \<noteq> []"
  shows "map_of d k = Some (BStr s)"
  using assms by (cases "map_of d k"; cases "the (map_of d k)") (auto simp: get_field_def)

lemma status_str_nonempty [simp]: "status_str x \<noteq> []"
  by (cases x) simp_all

lemma status_present:
  assumes "doc_ok toks d t"
  shows "map_of d ''status'' = Some (BStr (td_Status t))"
proof (rule str_present)
  show "get_str ''status'' d = Some (td_Status t)" using assms by (simp add: doc_ok_def td_decode_iff)
  obtain x where "td_Status t = status_str x" using assms by (auto simp: doc_ok_def statuses_def)
  then show "td_Status t \<noteq> []" by simp
qed

lemma token_present: "doc_ok toks d t \<Longrightarrow> td_LeaseToken t \<noteq> [] \<Longrightarrow> map_of d ''lease_token'' = Some (BStr (td_LeaseToken t))"
  by (rule str_present) (simp_all add: doc_ok_def td_decode_iff)

text \<open>A fenced write: the event of an outcome.\<close>

lemma lease_match:
  "fmatch (leaseFilter k tok) d \<longleftrightarrow> map_of d ''_id'' = Some (BOid k) \<and>
    map_of d ''lease_token'' = Some (BStr tok) \<and> map_of d ''status'' = Some (BStr ''running'')"
  by (auto simp: leaseFilter_def)

lemma outcome_filter:
  assumes "outcome_write dr now r = Inr (f, u)"
  obtains k where "dv_unhex dr (t_ID (o_Task r)) = Some k" "f = leaseFilter k (t_LeaseToken (o_Task r))"
  using assms that
  by (auto simp: outcome_write_def completeWrite_def failWrite_def oid_of_def split: option.splits sum.splits)

definition outcome_doc :: "gtime \<Rightarrow> outcome \<Rightarrow> task_doc \<Rightarrow> task_doc \<Rightarrow> bool" where
  "outcome_doc now r t t' \<longleftrightarrow> (case o_Failure r of
     None \<Rightarrow> \<exists>raw. t' = completed_doc now raw t
   | Some e \<Rightarrow> t' = failed_doc now e (o_RetryAt r) (o_Terminal r) t)"

lemma outcome_decode:
  assumes "outcome_write dr now r = Inr (f, u)" "td_decode d = Some t" "null_free d"
  shows "\<exists>t'. td_decode (uapply u d) = Some t' \<and> null_free (uapply u d) \<and> outcome_doc now r t t'"
proof (cases "o_Failure r")
  case None
  then have "completeWrite dr (o_Task r) (o_Result r) now = Inr (f, u)" using assms(1) by (simp add: outcome_write_def)
  from complete_decode [OF this assms(2,3)] show ?thesis by (auto simp: outcome_doc_def None)
next
  case (Some e)
  then have "failWrite dr (o_Task r) e (o_RetryAt r) (o_Terminal r) now = Inr (f, u)"
    using assms(1) by (simp add: outcome_write_def)
  from fail_decode [OF this assms(2,3)] show ?thesis by (auto simp: outcome_doc_def Some)
qed

lemma abs_completed: "abs_doc (completed_doc now raw t) = (abs_doc t)\<lparr>a_state := ADone, a_key := []\<rparr>"
  by (simp add: abs_doc_def completed_doc_def)

lemma abs_failed: "abs_doc (failed_doc now e ra terminal t) =
    (if terminal then (abs_doc t)\<lparr>a_state := ADead, a_key := []\<rparr> else (abs_doc t)\<lparr>a_state := APending (bson_ms ra)\<rparr>)"
  by (simp add: abs_doc_def failed_doc_def)

lemma outcome_doc_ok:
  assumes "doc_ok toks d t" "outcome_doc now r t t'" "td_decode d' = Some t'" "null_free d'"
  shows "doc_ok toks d' t'"
proof (cases "o_Failure r")
  case None
  then obtain raw where "t' = completed_doc now raw t" using assms(2) by (auto simp: outcome_doc_def)
  with assms(3,4) show ?thesis by (simp add: doc_ok_def completed_doc_def)
next
  case (Some e)
  then have "t' = failed_doc now e (o_RetryAt r) (o_Terminal r) t" using assms(2) by (simp add: outcome_doc_def)
  with assms(3,4) show ?thesis by (simp add: doc_ok_def failed_doc_def)
qed

lemma outcome_cstep:
  assumes "c_tasks c (t_ID (o_Task r)) = Some (abs_doc t)" "td_Status t = ''running''"
    and "td_LeaseToken t = t_LeaseToken (o_Task r)" "outcome_doc now r t t'"
  shows "cstep c (outcome_event r) (put c (t_ID (o_Task r)) (abs_doc t'))"
proof -
  have run: "a_state (abs_doc t) = ARunning (t_LeaseToken (o_Task r)) (td_LeasedUntil t)"
    using assms(2,3) by (simp add: abs_doc_running)
  show ?thesis
  proof (cases "o_Failure r")
    case None
    then obtain raw where t': "t' = completed_doc now raw t" using assms(4) by (auto simp: outcome_doc_def)
    show ?thesis
      using cstep.completed [OF assms(1) run] by (simp add: outcome_event_def None t' abs_completed)
  next
    case (Some e)
    then have t': "t' = failed_doc now e (o_RetryAt r) (o_Terminal r) t" using assms(4) by (simp add: outcome_doc_def)
    show ?thesis
      using cstep.died [OF assms(1) run] cstep.retried [OF assms(1) run]
      by (simp add: outcome_event_def Some t' abs_failed)
  qed
qed

lemma outcome_step:
  assumes "tsim hx toks m c" "inj hx" "m i = Some d" "fmatch f d" "outcome_write dr now r = Inr (f, u)"
    and hx: "\<And>k. dv_unhex dr (t_ID (o_Task r)) = Some k \<Longrightarrow> hx k = t_ID (o_Task r)"
  shows "\<exists>c'. cstep c (outcome_event r) c' \<and> tsim hx toks (m(i \<mapsto> uapply u d)) c' \<and>
    c_limit c' = c_limit c \<and> c_issued c' = c_issued c"
proof -
  obtain q where q: "dv_unhex dr (t_ID (o_Task r)) = Some q" "f = leaseFilter q (t_LeaseToken (o_Task r))"
    by (rule outcome_filter [OF assms(5)])
  have match: "map_of d ''_id'' = Some (BOid q)" "map_of d ''lease_token'' = Some (BStr (t_LeaseToken (o_Task r)))"
      "map_of d ''status'' = Some (BStr ''running'')"
    using assms(4) by (simp_all add: q(2) lease_match)
  obtain p t where p: "i = BOid p" "map_of d ''_id'' = Some (BOid p)" "doc_ok toks d t" "td_ID t = p"
      "c_tasks c (hx p) = Some (abs_doc t)"
    by (rule tsim_lookup [OF assms(1,3)])
  have id: "hx p = t_ID (o_Task r)" using hx [OF q(1)] match(1) p(2) by simp
  have dec: "td_decode d = Some t" "null_free d" using p(3) by (simp_all add: doc_ok_def)
  obtain t' where t': "td_decode (uapply u d) = Some t'" "null_free (uapply u d)" "outcome_doc now r t t'"
    using outcome_decode [OF assms(5) dec] by blast
  have ok: "doc_ok toks (uapply u d) t'" by (rule outcome_doc_ok [OF p(3) t'(3,1,2)])
  have i': "map_of (uapply u d) ''_id'' = Some (BOid p)"
    using keeps_id_outcome [OF assms(5)] p(2) by (simp add: keeps_id_def)
  let ?c = "put c (hx p) (abs_doc t')"
  have "cstep c (outcome_event r) ?c"
    using outcome_cstep [OF _ status_field [OF p(3) match(3)] token_field [OF p(3) match(2)] t'(3)] p(5) id by simp
  moreover have "tsim hx toks (m(i \<mapsto> uapply u d)) ?c"
    unfolding p(1) by (rule tsim_put [OF assms(1,2) ok i']) simp
  ultimately show ?thesis by (intro exI [of _ ?c]) simp
qed

text \<open>Any sequence of fenced writes: the outcomes that matched, in the order they were applied.\<close>

lemma outcomes_sim:
  assumes "update_seq ws m n m'" "list_all2 (\<lambda>r w. outcome_write dr now r = Inr w) rs ws"
    and "tsim hx toks m c" "inj hx"
    and hx: "\<And>r k. r \<in> set rs \<Longrightarrow> dv_unhex dr (t_ID (o_Task r)) = Some k \<Longrightarrow> hx k = t_ID (o_Task r)"
  shows "\<exists>qs c'. set qs \<subseteq> set rs \<and> n = int (length qs) \<and> cexec c (map outcome_event qs) c' \<and>
    tsim hx toks m' c' \<and> c_limit c' = c_limit c \<and> c_issued c' = c_issued c"
  using assms(1,2,3) hx
proof (induction arbitrary: c rs rule: update_seq.induct)
  case (useq_nil m)
  then show ?case by (intro exI [of _ "[]"] exI [of _ c]) auto
next
  case (useq_hit m i d f ws u n m')
  then obtain r rs' where rs: "rs = r # rs'" "outcome_write dr now r = Inr (f, u)"
      "list_all2 (\<lambda>r w. outcome_write dr now r = Inr w) rs' ws"
    by (auto simp: list_all2_Cons2)
  have hr: "hx k = t_ID (o_Task r)" if "dv_unhex dr (t_ID (o_Task r)) = Some k" for k
    using useq_hit.prems(3) that by (simp add: rs(1))
  obtain d' where d': "cstep c (outcome_event r) d'" "tsim hx toks (m(i \<mapsto> uapply u d)) d'"
      "c_limit d' = c_limit c" "c_issued d' = c_issued c"
    using outcome_step [OF useq_hit.prems(2) assms(4) useq_hit.hyps(1,2) rs(2) hr] by blast
  have "hx k = t_ID (o_Task q)" if "q \<in> set rs'" "dv_unhex dr (t_ID (o_Task q)) = Some k" for q k
    using useq_hit.prems(3) that by (simp add: rs(1))
  from useq_hit.IH [OF rs(3) d'(2) this] obtain qs c' where q: "set qs \<subseteq> set rs'" "n = int (length qs)"
      "cexec d' (map outcome_event qs) c'" "tsim hx toks m' c'" "c_limit c' = c_limit d'" "c_issued c' = c_issued d'"
    by blast
  then show ?case
    using d' by (intro exI [of _ "r # qs"] exI [of _ c']) (auto simp: rs(1) intro: cexec_cons)
next
  case (useq_miss f m ws n m' u)
  then obtain r rs' where rs: "rs = r # rs'" "list_all2 (\<lambda>r w. outcome_write dr now r = Inr w) rs' ws"
    by (auto simp: list_all2_Cons2)
  have "hx k = t_ID (o_Task q)" if "q \<in> set rs'" "dv_unhex dr (t_ID (o_Task q)) = Some k" for q k
    using useq_miss.prems(3) that by (simp add: rs(1))
  from useq_miss.IH [OF rs(2) useq_miss.prems(2) this] obtain qs c' where "set qs \<subseteq> set rs'" "n = int (length qs)"
      "cexec c (map outcome_event qs) c'" "tsim hx toks m' c'" "c_limit c' = c_limit c" "c_issued c' = c_issued c"
    by blast
  then show ?case by (intro exI [of _ qs] exI [of _ c']) (auto simp: rs(1))
qed

text \<open>A live claim is a document its fenced writes match.\<close>

lemma live_hits:
  assumes "tsim hx toks m c" "inj hx" "live c (hx k) tok"
  shows "hits (leaseFilter k tok) m \<noteq> {}"
proof -
  obtain a u where a: "c_tasks c (hx k) = Some a" "a_state a = ARunning tok u" using assms(3) by (auto simp: live_def)
  obtain p d t where p: "hx k = hx p" "m (BOid p) = Some d" "map_of d ''_id'' = Some (BOid p)" "doc_ok toks d t" "a = abs_doc t"
    by (rule tsim_find [OF assms(1) a(1)])
  have run: "td_Status t = ''running''" "td_LeaseToken t = tok" using a(2) by (simp_all add: p(5) abs_doc_state_running)
  then have "td_LeaseToken t \<noteq> []" using p(4) by (simp add: doc_ok_def)
  then have "fmatch (leaseFilter k tok) d"
    using status_present [OF p(4)] token_present [OF p(4)] run p(1,3) assms(2) by (simp add: lease_match inj_eq)
  with p(2) show ?thesis by (auto simp: hits_def)
qed

text \<open>One document updated, with the event that this is.\<close>

lemma step_event:
  assumes "tsim hx toks m c" "inj hx" "m (BOid k) = Some d" "keeps_id u"
    and new: "\<And>t. doc_ok toks d t \<Longrightarrow> td_ID t = k \<Longrightarrow> c_tasks c (hx k) = Some (abs_doc t) \<Longrightarrow>
      \<exists>t' c'. doc_ok toks (uapply u d) t' \<and> cstep c e c' \<and> c_tasks c' = (c_tasks c)(hx k \<mapsto> abs_doc t') \<and> P c'"
  shows "\<exists>c'. cstep c e c' \<and> tsim hx toks (m(BOid k \<mapsto> uapply u d)) c' \<and> P c'"
proof -
  obtain p t where p: "BOid k = BOid p" "map_of d ''_id'' = Some (BOid p)" "doc_ok toks d t" "td_ID t = p"
      "c_tasks c (hx p) = Some (abs_doc t)"
    by (rule tsim_lookup [OF assms(1,3)])
  then have k: "p = k" by simp
  obtain t' c' where t': "doc_ok toks (uapply u d) t'" "cstep c e c'" "c_tasks c' = (c_tasks c)(hx k \<mapsto> abs_doc t')" "P c'"
    using new p k by blast
  have "map_of (uapply u d) ''_id'' = Some (BOid k)" using assms(4) p(2) k by (simp add: keeps_id_def)
  from tsim_put [OF assms(1,2) t'(1) this t'(3)] t' show ?thesis by blast
qed

section \<open>Claims\<close>

lemma btime_field:
  assumes "doc_ok toks d t" "map_of d ''run_at'' = Some (BTime r)"
  shows "td_RunAt t = r"
  using assms by (auto simp: doc_ok_def td_decode_iff get_field_def)

lemma until_field:
  assumes "doc_ok toks d t" "map_of d ''leased_until'' = Some (BTime r)"
  shows "td_LeasedUntil t = r"
  using assms by (auto simp: doc_ok_def td_decode_iff get_field_def)

lemma time_le: "cond_holds (CLte (BTime t)) x \<longleftrightarrow> (\<exists>r. x = Some (BTime r) \<and> r \<le> t)"
  by (cases x; cases "the x") auto

lemma time_lt: "cond_holds (CLt (BTime t)) x \<longleftrightarrow> (\<exists>r. x = Some (BTime r) \<and> r < t)"
  by (cases x; cases "the x") auto

lemma attempts_fields:
  assumes "doc_ok toks d t"
  shows "map_of d ''attempts'' = Some (BInt (td_Attempts t))" "map_of d ''max_attempts'' = Some (BInt (td_MaxAttempts t))"
proof -
  have "get_int ''attempts'' d = Some (td_Attempts t)" "get_int ''max_attempts'' d = Some (td_MaxAttempts t)"
    using assms by (simp_all add: doc_ok_def td_decode_iff)
  moreover have "map_of d ''attempts'' \<noteq> Some BNull" "map_of d ''max_attempts'' \<noteq> Some BNull"
      "map_of d ''attempts'' \<noteq> None" "map_of d ''max_attempts'' \<noteq> None"
    using assms by (simp_all add: doc_ok_def null_free_def required_def)
  ultimately show "map_of d ''attempts'' = Some (BInt (td_Attempts t))"
      "map_of d ''max_attempts'' = Some (BInt (td_MaxAttempts t))"
    by (auto simp: get_field_def elim!: as_int.elims)
qed

lemma runnable_claimable:
  assumes "fmatch (FAnd (runnableFilter now types queues)) d" "doc_ok toks d t"
  shows "claimable now (abs_doc t)"
proof -
  have "map_of d ''status'' = Some (BStr ''pending'') \<and> (\<exists>r. map_of d ''run_at'' = Some (BTime r) \<and> r \<le> bson_ms now) \<or>
    map_of d ''status'' = Some (BStr ''running'') \<and> (\<exists>r. map_of d ''leased_until'' = Some (BTime r) \<and> r < bson_ms now) \<and>
      td_Attempts t < td_MaxAttempts t"
    using assms attempts_fields [OF assms(2)]
    by (auto simp: runnableFilter_def btime_def time_le time_lt vlt_def)
  then show ?thesis
  proof (elim disjE conjE exE)
    fix r assume r: "map_of d ''status'' = Some (BStr ''pending'')" "map_of d ''run_at'' = Some (BTime r)" "r \<le> bson_ms now"
    then show ?thesis
      using status_field [OF assms(2) r(1)] btime_field [OF assms(2) r(2)] bson_ms_le [of now]
      by (simp add: abs_doc_running)
  next
    fix r assume r: "map_of d ''status'' = Some (BStr ''running'')" "map_of d ''leased_until'' = Some (BTime r)"
      "r < bson_ms now" "td_Attempts t < td_MaxAttempts t"
    then show ?thesis
      using status_field [OF assms(2) r(1)] until_field [OF assms(2) r(2)] bson_ms_le [of now]
      by (simp add: abs_doc_running)
  qed
qed

lemma runnable_accepts:
  assumes "fmatch (FAnd (runnableFilter now types queues)) d" "doc_ok toks d t"
  shows "(types = [] \<or> td_Type t \<in> set types) \<and> (queues = [] \<or> td_Queue t \<in> set queues)"
proof -
  have str: "get_str ''type'' d = Some (td_Type t)" "get_str ''queue'' d = Some (td_Queue t)"
    using assms(2) by (simp_all add: doc_ok_def td_decode_iff)
  have "cond_holds (CIn (map BStr ss)) (map_of d k) \<Longrightarrow> get_str k d = Some x \<Longrightarrow> x \<in> set ss" for ss k x
    by (cases "map_of d k") (auto simp: get_field_def)
  with str assms(1) show ?thesis by (auto simp: runnableFilter_def split: if_splits)
qed

lemma abs_claimed:
  "abs_doc (claimed_doc now w tok lease t) =
    (abs_doc t)\<lparr>a_attempts := a_attempts (abs_doc t) + 1, a_state := ARunning tok (bson_ms (add_time now lease))\<rparr>"
  by (simp add: abs_doc_def claimed_doc_def)

lemma claimed_ok:
  assumes "doc_ok toks d t" "tok \<in> toks" "tok \<noteq> []"
  shows "doc_ok toks (uapply (claimUpdate now w tok lease) d) (claimed_doc now w tok lease t)"
proof -
  have d: "td_decode d = Some t" "null_free d" using assms(1) by (simp_all add: doc_ok_def)
  show ?thesis
    using claim_decode [OF d, of now w tok lease] assms(2,3)
    by (simp add: doc_ok_def claimed_doc_def) (simp add: claimUpdate_def)
qed

lemma claim_step:
  assumes "tsim hx toks m c" "inj hx" "m (BOid k) = Some d" "fmatch (FAnd (runnableFilter now types queues)) d"
    and "tok \<in> toks" "tok \<noteq> []" "(hx k, tok) \<notin> c_issued c"
  shows "\<exists>c'. cstep c (Claimed (hx k) tok now (bson_ms (add_time now lease))) c' \<and>
    tsim hx toks (m(BOid k \<mapsto> uapply (claimUpdate now w tok lease) d)) c' \<and>
    c_limit c' = c_limit c \<and> c_issued c' = insert (hx k, tok) (c_issued c)"
proof (rule step_event [OF assms(1-3) keeps_id_claim])
  fix t assume t: "doc_ok toks d t" "td_ID t = k" "c_tasks c (hx k) = Some (abs_doc t)"
  let ?t = "claimed_doc now w tok lease t"
  let ?c = "(put c (hx k) (abs_doc ?t))\<lparr>c_issued := insert (hx k, tok) (c_issued c)\<rparr>"
  have "cstep c (Claimed (hx k) tok now (bson_ms (add_time now lease))) ?c"
    unfolding abs_claimed by (rule cstep.claimed [OF t(3) runnable_claimable [OF assms(4) t(1)] assms(7)])
  then show "\<exists>t' c'. doc_ok toks (uapply (claimUpdate now w tok lease) d) t' \<and>
      cstep c (Claimed (hx k) tok now (bson_ms (add_time now lease))) c' \<and>
      c_tasks c' = (c_tasks c)(hx k \<mapsto> abs_doc t') \<and>
      c_limit c' = c_limit c \<and> c_issued c' = insert (hx k, tok) (c_issued c)"
    using claimed_ok [OF t(1) assms(5,6)] by (intro exI [of _ ?t] exI [of _ ?c]) simp
qed

section \<open>Updates of many documents\<close>

text \<open>
  A set of documents updated one by one, each with its event; \<open>J c K\<close> is what the steps need to know
  of the machine while the documents \<open>K\<close> are still to come.
\<close>

definition updated_at :: "oid list \<Rightarrow> update \<Rightarrow> table \<Rightarrow> table" where
  "updated_at ks u m = (\<lambda>i. if i \<in> BOid ` set ks then map_option (uapply u) (m i) else m i)"

lemma list_sim:
  assumes "tsim hx toks m c" "distinct ks" "\<forall>k \<in> set ks. \<exists>d. m (BOid k) = Some d \<and> fmatch f d" "J c (set ks)"
    and step: "\<And>m c k d K. tsim hx toks m c \<Longrightarrow> J c (insert k K) \<Longrightarrow> k \<notin> K \<Longrightarrow> m (BOid k) = Some d \<Longrightarrow> fmatch f d \<Longrightarrow>
      \<exists>c'. cstep c (ev k) c' \<and> tsim hx toks (m(BOid k \<mapsto> uapply u d)) c' \<and> c_limit c' = c_limit c \<and> J c' K"
  shows "\<exists>c'. cexec c (map ev ks) c' \<and> tsim hx toks (updated_at ks u m) c' \<and> c_limit c' = c_limit c \<and> J c' {}"
  using assms(1-4)
proof (induction ks arbitrary: m c)
  case Nil
  then show ?case by (intro exI [of _ c]) (auto simp: updated_at_def)
next
  case (Cons k ks)
  obtain d where d: "m (BOid k) = Some d" "fmatch f d" using Cons.prems(3) by auto
  obtain c1 where c1: "cstep c (ev k) c1" "tsim hx toks (m(BOid k \<mapsto> uapply u d)) c1" "c_limit c1 = c_limit c" "J c1 (set ks)"
    using step [OF Cons.prems(1) _ _ d, of "set ks"] Cons.prems(2,4) by auto
  have hits: "\<forall>q \<in> set ks. \<exists>e. (m(BOid k \<mapsto> uapply u d)) (BOid q) = Some e \<and> fmatch f e"
    using Cons.prems(2,3) by auto
  have "distinct ks" using Cons.prems(2) by simp
  from Cons.IH [OF c1(2) this hits c1(4)] obtain c' where
    c': "cexec c1 (map ev ks) c'" "tsim hx toks (updated_at ks u (m(BOid k \<mapsto> uapply u d))) c'"
      "c_limit c' = c_limit c1" "J c' {}"
    by blast
  have "updated_at ks u (m(BOid k \<mapsto> uapply u d)) = updated_at (k # ks) u m"
    using Cons.prems(2) d(1) by (auto simp: updated_at_def fun_eq_iff)
  with c' c1 show ?case by (auto intro: cexec_cons)
qed

text \<open>The documents a whole-set update changed, as a list.\<close>

lemma changed_hit:
  assumes "partly_updated f u m m'" "m' i \<noteq> m i"
  shows "\<exists>d. m i = Some d \<and> fmatch f d \<and> m' i = Some (uapply u d)"
proof -
  have m': "m' i = update_all f u m i" using assms unfolding partly_updated_def by blast
  show ?thesis
  proof (cases "m i")
    case None
    with m' assms(2) show ?thesis by (simp add: update_all_def)
  next
    case (Some d)
    with m' assms(2) show ?thesis by (simp add: update_all_def split: if_splits)
  qed
qed

lemma partly_updated_list:
  assumes "partly_updated f u m m'" "finite (dom m)" "tsim hx toks m c"
  shows "\<exists>ks. distinct ks \<and> m' = updated_at ks u m \<and> (\<forall>k \<in> set ks. \<exists>d. m (BOid k) = Some d \<and> fmatch f d)"
proof -
  define K where "K = {k. m' (BOid k) \<noteq> m (BOid k)}"
  have hit: "\<exists>d. m (BOid k) = Some d \<and> fmatch f d \<and> m' (BOid k) = Some (uapply u d)" if "k \<in> K" for k
    using changed_hit [OF assms(1)] that by (simp add: K_def)
  have "BOid ` K \<subseteq> dom m" using hit by blast
  then have "finite K" by (meson assms(2) finite_imageD finite_subset inj_onI bval.inject(4))
  then obtain ks where ks: "set ks = K" "distinct ks" using finite_distinct_list by blast
  have "m' i = updated_at ks u m i" for i
  proof (cases "m' i = m i")
    case True
    have "i \<notin> BOid ` K" using True by (auto simp: K_def)
    with True show ?thesis by (simp add: updated_at_def ks(1))
  next
    case False
    then obtain d where d: "m i = Some d" "m' i = Some (uapply u d)" using changed_hit [OF assms(1)] by blast
    obtain k where "i = BOid k" using tsim_lookup [OF assms(3) d(1)] by blast
    with False d show ?thesis by (auto simp: updated_at_def ks(1) K_def)
  qed
  then have "m' = updated_at ks u m" by (rule ext)
  with ks hit show ?thesis by blast
qed

lemma update_all_partly: "partly_updated f u m (update_all f u m)"
  by (simp add: partly_updated_def)

text \<open>Events that issue no claim.\<close>

lemma many_sim:
  assumes "tsim hx toks m c" "inj hx" "finite (dom m)" "partly_updated f u m m'" "keeps_id u"
    and step: "\<And>c k d t. doc_ok toks d t \<Longrightarrow> fmatch f d \<Longrightarrow> c_tasks c (hx k) = Some (abs_doc t) \<Longrightarrow>
      \<exists>t'. doc_ok toks (uapply u d) t' \<and> cstep c (ev k) (put c (hx k) (abs_doc t'))"
  shows "\<exists>ks c'. cexec c (map ev ks) c' \<and> tsim hx toks m' c' \<and> c_limit c' = c_limit c \<and> c_issued c' = c_issued c"
proof -
  obtain ks where ks: "distinct ks" "m' = updated_at ks u m" "\<forall>k \<in> set ks. \<exists>d. m (BOid k) = Some d \<and> fmatch f d"
    using partly_updated_list [OF assms(4,3,1)] by blast
  have "\<exists>c'. cexec c (map ev ks) c' \<and> tsim hx toks (updated_at ks u m) c' \<and> c_limit c' = c_limit c \<and>
    (\<lambda>c' K. c_issued c' = c_issued c) c' {}"
  proof (rule list_sim [OF assms(1) ks(1,3)])
    fix n b k d K
    assume b: "tsim hx toks n b" "c_issued b = c_issued c" "n (BOid k) = Some d" "fmatch f d"
    have "\<exists>c'. cstep b (ev k) c' \<and> tsim hx toks (n(BOid k \<mapsto> uapply u d)) c' \<and> (c_limit c' = c_limit b \<and> c_issued c' = c_issued b)"
    proof (rule step_event [OF b(1) assms(2) b(3) assms(5)])
      fix t assume "doc_ok toks d t" "c_tasks b (hx k) = Some (abs_doc t)"
      with step b(4) obtain t' where "doc_ok toks (uapply u d) t'" "cstep b (ev k) (put b (hx k) (abs_doc t'))" by blast
      then show "\<exists>t' c'. doc_ok toks (uapply u d) t' \<and> cstep b (ev k) c' \<and>
          c_tasks c' = (c_tasks b)(hx k \<mapsto> abs_doc t') \<and> c_limit c' = c_limit b \<and> c_issued c' = c_issued b"
        by (intro exI [of _ t'] exI [of _ "put b (hx k) (abs_doc t')"]) simp
    qed
    with b(2) show "\<exists>c'. cstep b (ev k) c' \<and> tsim hx toks (n(BOid k \<mapsto> uapply u d)) c' \<and>
        c_limit c' = c_limit b \<and> c_issued c' = c_issued c"
      by auto
  qed simp
  with ks(2) show ?thesis by blast
qed

end
