(* ===== verification/Mongo_Inserts.thy ===== *)
theory Mongo_Inserts
  imports Mongo_Sim
begin

text \<open>
  New documents: an insertion of documents is a sequence of enqueued tasks, and \<open>Enqueue\<close>'s chunks are
  such insertions, one after the other, whatever part of them the server refuses.
\<close>

section \<open>Insertions\<close>

text \<open>The event of a new document.\<close>

definition entered :: "(oid \<Rightarrow> string) \<Rightarrow> bdoc \<Rightarrow> cevent" where
  "entered hx e = (let t = the (td_decode e) in Enqueued (hx (td_ID t)) (abs_doc t))"

definition new_doc :: "(oid \<Rightarrow> string) \<Rightarrow> string set \<Rightarrow> cstore \<Rightarrow> bdoc \<Rightarrow> bool" where
  "new_doc hx toks c e \<longleftrightarrow> (\<exists>k t. map_of e ''_id'' = Some (BOid k) \<and> doc_ok toks e t \<and> td_ID t = k \<and>
     td_Status t = ''pending'' \<and> c_limit c (hx k) = None)"

lemma inserted_Cons:
  assumes "inserted (e # es) m m'"
  shows "m (doc_id e) = None" "inserted es (m(doc_id e \<mapsto> e)) m'"
proof -
  let ?new = "map_of (map (\<lambda>e. (doc_id e, e)) es)"
  have "doc_id e \<notin> doc_id ` set es" using assms by (simp add: inserted_def)
  then have "doc_id e \<notin> dom ?new" by (simp add: dom_map_of_conv_image_fst image_image)
  then have "(m ++ ?new)(doc_id e \<mapsto> e) = m(doc_id e \<mapsto> e) ++ ?new" by (simp add: map_add_upd_left)
  with assms have "m' = m(doc_id e \<mapsto> e) ++ ?new" by (simp add: inserted_def)
  moreover have "\<forall>f \<in> set es. (m(doc_id e \<mapsto> e)) (doc_id f) = None"
  proof
    fix f assume f: "f \<in> set es"
    then have "doc_id f \<noteq> doc_id e" using \<open>doc_id e \<notin> doc_id ` set es\<close> by (metis image_eqI)
    with f assms show "(m(doc_id e \<mapsto> e)) (doc_id f) = None" by (simp add: inserted_def)
  qed
  ultimately show "inserted es (m(doc_id e \<mapsto> e)) m'" using assms by (simp add: inserted_def)
  show "m (doc_id e) = None" using assms by (simp add: inserted_def)
qed

lemma inserted_keeps:
  assumes "inserted es m m'" "m i = Some d"
  shows "m' i = Some d"
  using assms by (auto simp: inserted_def map_add_Some_iff map_of_eq_None_iff intro!: exI)

lemma inserted_at:
  assumes "inserted es m m'" "e \<in> set es"
  shows "m' (doc_id e) = Some e"
proof -
  have "map_of (map (\<lambda>e. (doc_id e, e)) es) (doc_id e) = Some e"
    using assms by (intro map_of_is_SomeI) (auto simp: inserted_def comp_def)
  with assms(1) show ?thesis by (simp add: inserted_def)
qed

lemma key_field:
  assumes "doc_ok toks d t" "td_UniqueKey t \<noteq> []"
  shows "map_of d ''unique_key'' = Some (BStr (td_UniqueKey t))"
  using assms by (intro str_present) (simp_all add: doc_ok_def td_decode_iff)

lemma insert_step:
  assumes "tsim hx toks m c" "inj hx" "new_doc hx toks c e" "m (doc_id e) = None"
    and uni: "\<And>i d. m i = Some d \<Longrightarrow> \<not> clash TasksCol d e"
  shows "\<exists>k c'. doc_id e = BOid k \<and> cstep c (entered hx e) c' \<and> tsim hx toks (m(doc_id e \<mapsto> e)) c' \<and>
    c_issued c' = c_issued c \<and> dom (c_limit c') = insert (hx k) (dom (c_limit c))"
proof -
  obtain k t where t: "map_of e ''_id'' = Some (BOid k)" "doc_ok toks e t" "td_ID t = k" "td_Status t = ''pending''"
      "c_limit c (hx k) = None"
    using assms(3) by (auto simp: new_doc_def)
  have dec: "td_decode e = Some t" using t(2) by (simp add: doc_ok_def)
  have id: "doc_id e = BOid k" using t(1) by (simp add: doc_id_def)
  have "c_tasks c (hx k) = None"
  proof (rule ccontr)
    assume "c_tasks c (hx k) \<noteq> None"
    then obtain a where "c_tasks c (hx k) = Some a" by blast
    then obtain q d where "hx k = hx q" "m (BOid q) = Some d" by (rule tsim_find [OF assms(1)])
    with assms(4) id show False by (simp add: inj_eq [OF assms(2)])
  qed
  moreover have "td_UniqueKey t = [] \<or> \<not> key_active c (td_UniqueKey t)"
  proof (rule ccontr)
    assume n: "\<not> (td_UniqueKey t = [] \<or> \<not> key_active c (td_UniqueKey t))"
    then obtain j a where a: "c_tasks c j = Some a" "a_key a = td_UniqueKey t" by (auto simp: key_active_def)
    obtain q d u where q: "m (BOid q) = Some d" "doc_ok toks d u" "a = abs_doc u"
      by (rule tsim_find [OF assms(1) a(1)])
    have "map_of d ''unique_key'' = Some (BStr (td_UniqueKey t))" using key_field [OF q(2)] a(2) n q(3) by simp
    moreover have "map_of e ''unique_key'' = Some (BStr (td_UniqueKey t))" using key_field [OF t(2)] n by blast
    ultimately have "clash TasksCol d e" by simp
    with uni [OF q(1)] show False by blast
  qed
  moreover have "a_state (abs_doc t) = APending (td_RunAt t)" using t(4) by (simp add: abs_doc_running)
  ultimately have "cstep c (Enqueued (hx k) (abs_doc t)) (enter c (hx k) (abs_doc t))"
    using t(5) by (intro cstep.enqueued) simp_all
  then have st: "cstep c (entered hx e) (enter c (hx k) (abs_doc t))" by (simp add: entered_def dec t(3))
  have "tsim hx toks (m(BOid k \<mapsto> e)) (enter c (hx k) (abs_doc t))"
    by (rule tsim_put [OF assms(1,2) t(2,1)]) simp
  with st id show ?thesis by (intro exI [of _ k] exI [of _ "enter c (hx k) (abs_doc t)"]) auto
qed

lemma new_doc_mono:
  assumes "new_doc hx toks c e" "dom (c_limit c') = insert (hx k) (dom (c_limit c))" "doc_id e \<noteq> BOid k" "inj hx"
  shows "new_doc hx toks c' e"
proof -
  obtain q t where q: "map_of e ''_id'' = Some (BOid q)" "doc_ok toks e t" "td_ID t = q" "td_Status t = ''pending''"
      "c_limit c (hx q) = None"
    using assms(1) by (auto simp: new_doc_def)
  have "q \<noteq> k" using assms(3) q(1) by (auto simp: doc_id_def)
  then have "hx q \<notin> dom (c_limit c')" using assms(2,4) q(5) by (simp add: inj_eq domIff)
  with q show ?thesis by (auto simp: new_doc_def domIff)
qed

lemma inserted_sim:
  assumes "tsim hx toks m c" "inj hx" "inserted es m m'" "\<forall>e \<in> set es. new_doc hx toks c e"
    and uni: "\<And>i j d e. m' i = Some d \<Longrightarrow> m' j = Some e \<Longrightarrow> clash TasksCol d e \<Longrightarrow> i = j"
  shows "\<exists>c'. cexec c (map (entered hx) es) c' \<and> tsim hx toks m' c' \<and> c_issued c' = c_issued c \<and>
    dom (c_limit c') = dom (c_limit c) \<union> {hx k | k. BOid k \<in> doc_id ` set es}"
  using assms(1,3,4)
proof (induction es arbitrary: m c)
  case Nil
  then have "m' = m" by (simp add: inserted_def)
  with Nil show ?case by (intro exI [of _ c]) auto
next
  case (Cons e es)
  note ins = inserted_Cons [OF Cons.prems(2)]
  have "\<not> clash TasksCol d e" if "m i = Some d" for i d
  proof
    assume "clash TasksCol d e"
    then have "i = doc_id e"
      using uni [OF inserted_keeps [OF Cons.prems(2) that] inserted_at [OF Cons.prems(2) list.set_intros(1)]] by blast
    with ins(1) that show False by simp
  qed
  with insert_step [OF Cons.prems(1) assms(2) _ ins(1)] Cons.prems(3) obtain k c1 where
    c1: "doc_id e = BOid k" "cstep c (entered hx e) c1" "tsim hx toks (m(doc_id e \<mapsto> e)) c1"
      "c_issued c1 = c_issued c" "dom (c_limit c1) = insert (hx k) (dom (c_limit c))"
    by (metis list.set_intros(1))
  have "\<forall>f \<in> set es. new_doc hx toks c1 f"
  proof
    fix f assume f: "f \<in> set es"
    then have "doc_id f \<noteq> BOid k" using Cons.prems(2) c1(1) by (force simp: inserted_def)
    with f Cons.prems(3) show "new_doc hx toks c1 f"
      using new_doc_mono [OF _ c1(5) _ assms(2)] by simp
  qed
  from Cons.IH [OF c1(3) ins(2) this] obtain c' where
    c': "cexec c1 (map (entered hx) es) c'" "tsim hx toks m' c'" "c_issued c' = c_issued c1"
      "dom (c_limit c') = dom (c_limit c1) \<union> {hx k | k. BOid k \<in> doc_id ` set es}"
    by blast
  moreover have "dom (c_limit c') = dom (c_limit c) \<union> {hx k | k. BOid k \<in> doc_id ` set (e # es)}"
    unfolding c'(4) c1(5) using c1(1) by auto
  ultimately show ?case using c1(2,4) by (intro exI [of _ c']) (auto intro: cexec_cons)
qed

text \<open>The document of a new task.\<close>

lemma entered_marshal:
  assumes "t_Status t = StatusPending"
  shows "stored_as (hx k) t (entered hx (td_marshal (enqueue_doc k payload t)))"
proof -
  have "entered hx (td_marshal (enqueue_doc k payload t)) =
      Enqueued (hx k) (abs_task (t\<lparr>t_RunAt := bson_ms (t_RunAt t)\<rparr>))"
    using assms by (simp add: entered_def Let_def td_decode_marshal td_rounded_def enqueue_doc_def abs_doc_def abs_task_def)
  then show ?thesis using bson_ms_le [of "t_RunAt t"] by (auto simp: stored_as_def)
qed

lemma new_marshal:
  assumes "t_Status t = StatusPending" "k \<noteq> 0" "c_limit c (hx k) = None"
  shows "new_doc hx toks c (td_marshal (enqueue_doc k payload t))"
    "map_of (td_marshal (enqueue_doc k payload t)) ''_id'' = Some (BOid k)"
proof -
  let ?d = "enqueue_doc k payload t"
  show i: "map_of (td_marshal ?d) ''_id'' = Some (BOid k)"
    using assms(2) by (simp add: td_marshal_lookups enqueue_doc_def)
  have "doc_ok toks (td_marshal ?d) (td_rounded ?d)"
    using assms(1) by (simp add: doc_ok_def td_decode_marshal null_free_marshal td_rounded_def enqueue_doc_def)
  with i assms show "new_doc hx toks c (td_marshal ?d)"
    unfolding new_doc_def by (intro exI [of _ k] exI [of _ "td_rounded ?d"]) (simp add: td_rounded_def enqueue_doc_def)
qed

section \<open>The simulation\<close>

text \<open>
  The state behind the driver against a state of the contract machine: the ids ever used are object
  ids handed out, the claims carry uuids handed out.
\<close>

definition msim :: "'s driver \<Rightarrow> 's mview \<Rightarrow> 's \<Rightarrow> cstore \<Rightarrow> bool" where
  "msim dr mv s c \<longleftrightarrow> mv_ok mv s \<and> tsim (dv_hex dr) (mv_tokens mv s) (mv_db mv s TasksCol) c \<and>
     dom (c_limit c) \<subseteq> dv_hex dr ` mv_ids mv s \<and> snd ` c_issued c \<subseteq> mv_tokens mv s"

lemma msim_ok: "msim dr mv s c \<Longrightarrow> mv_ok mv s"
  by (simp add: msim_def)

lemma msim_tsim: "msim dr mv s c \<Longrightarrow> tsim (dv_hex dr) (mv_tokens mv s) (mv_db mv s TasksCol) c"
  by (simp add: msim_def)

lemma msim_tasks:
  assumes "msim dr mv s c" "writes_to mv TasksCol s s'"
    and "tsim (dv_hex dr) (mv_tokens mv s) (mv_db mv s' TasksCol) c'" "c_limit c' = c_limit c" "c_issued c' = c_issued c"
  shows "msim dr mv s' c'"
  using assms unfolding msim_def writes_to_def by (metis image_mono subset_trans)

lemma msim_same:
  assumes "msim dr mv s c" "writes_to mv b s s'" "mv_db mv s' TasksCol = mv_db mv s TasksCol"
  shows "msim dr mv s' c"
  using assms unfolding msim_def writes_to_def by (metis image_mono subset_trans)

lemma msim_other: "msim dr mv s c \<Longrightarrow> writes_to mv b s s' \<Longrightarrow> b \<noteq> TasksCol \<Longrightarrow> msim dr mv s' c"
  by (rule msim_same) (auto simp: writes_to_def)

section \<open>Enqueue\<close>

lemma nths_full: "\<forall>j < length xs. j \<in> J \<Longrightarrow> nths xs J = xs"
  by (rule nths_all) simp

lemma stored_docs:
  assumes "list_all2 stored_doc ds es" "\<forall>d \<in> set ds. map_of d ''_id'' \<noteq> None"
  shows "es = ds"
  using assms by (induction rule: list_all2_induct) (auto simp: stored_doc_def)

lemma chunks_grow:
  "enqueue_chunks dr n docs start ids failures s = ((ids', failures'), s') \<Longrightarrow>
    prefix failures failures' \<and> length ids' = length ids"
proof (induction dr n docs start ids failures s rule: enqueue_chunks.induct)
  case (1 dr n docs start ids failures s)
  have len: "length (blank js xs) = length xs" for js and xs :: "string list"
    unfolding blank_def by (induction js arbitrary: xs) simp_all
  show ?case
  proof (cases "n = 0 \<or> length docs \<le> start")
    case True
    with 1(3) show ?thesis by (simp add: enqueue_chunks.simps [of dr n docs start])
  next
    case False
    obtain r s1 where r: "dv_InsertMany dr TasksCol (take n (drop start docs)) s = (r, s1)" by fastforce
    show ?thesis
    proof (cases r)
      case None
      with 1(1) [OF False r [symmetric]] 1(3) False r show ?thesis
        by (simp add: enqueue_chunks.simps [of dr n docs start])
    next
      case (Some e)
      show ?thesis
      proof (cases "\<exists>ws. e = BulkWriteErrors ws \<and> ws \<noteq> []")
        case True
        then obtain ws where ws: "e = BulkWriteErrors ws" "ws \<noteq> []" by blast
        with 1(2) [OF False r [symmetric] Some ws] 1(3) False r Some show ?thesis
          by (simp add: enqueue_chunks.simps [of dr n docs start] len) (meson append_prefixD)
      next
        case other: False
        then have "ids' = blank [start..<length docs] ids \<and>
            failures' = failures @ map (\<lambda>j. (j, mg_err ''enqueue'')) [start..<length docs]"
          using 1(3) False r Some
          by (cases e) (auto simp: enqueue_chunks.simps [of dr n docs start] split: if_splits)
        then show ?thesis by (simp add: len)
      qed
    qed
  qed
qed

context mongo begin

lemma inj_hex: "inj (dv_hex dr)"
  by (metis hex injI option.inject)

lemma msim_finite: "msim dr mv s c \<Longrightarrow> finite (dom (mv_db mv s b))"
  by (rule conjunct1 [OF view [OF msim_ok]])

lemma msim_mint:
  assumes "msim dr mv s c" "dv_ObjectID dr s = (k, s')"
  shows "msim dr mv s' c" "k \<noteq> 0" "k \<notin> mv_ids mv s" "mv_ids mv s' = insert k (mv_ids mv s)"
proof -
  note o = object_id [OF msim_ok [OF assms(1)] assms(2)]
  have "tsim (dv_hex dr) (mv_tokens mv s') (mv_db mv s' TasksCol) c" using msim_tsim [OF assms(1)] o by simp
  moreover have "dom (c_limit c) \<subseteq> dv_hex dr ` mv_ids mv s'" "snd ` c_issued c \<subseteq> mv_tokens mv s'"
    using assms(1) o unfolding msim_def by blast+
  ultimately show "msim dr mv s' c" unfolding msim_def using o by blast
  show "k \<noteq> 0" "k \<notin> mv_ids mv s" "mv_ids mv s' = insert k (mv_ids mv s)" using o by simp_all
qed

lemma msim_token:
  assumes "msim dr mv s c" "dv_uuid dr s = (tok, s')"
  shows "msim dr mv s' c" "tok \<noteq> []" "tok \<in> mv_tokens mv s'" "(i, tok) \<notin> c_issued c"
    "mv_db mv s' = mv_db mv s"
proof -
  note u = uuid [OF msim_ok [OF assms(1)] assms(2)]
  have "tsim (dv_hex dr) (mv_tokens mv s') (mv_db mv s TasksCol) c"
    by (rule tsim_mono [OF msim_tsim [OF assms(1)]]) (use u in auto)
  then have "tsim (dv_hex dr) (mv_tokens mv s') (mv_db mv s' TasksCol) c" using u by simp
  moreover have "dom (c_limit c) \<subseteq> dv_hex dr ` mv_ids mv s'" "snd ` c_issued c \<subseteq> mv_tokens mv s'"
    using assms(1) u unfolding msim_def by blast+
  ultimately show "msim dr mv s' c" unfolding msim_def using u by blast
  show "tok \<noteq> []" "tok \<in> mv_tokens mv s'" "mv_db mv s' = mv_db mv s" using u by simp_all
  have "tok \<notin> snd ` c_issued c" using assms(1) u by (auto simp: msim_def)
  then show "(i, tok) \<notin> c_issued c" by force
qed

text \<open>The documents \<open>Enqueue\<close> builds: fresh ids, in the order of the tasks.\<close>

definition built_as :: "oid set \<Rightarrow> task \<Rightarrow> string \<times> bdoc \<Rightarrow> bool" where
  "built_as K t r \<longleftrightarrow> (\<exists>k \<in> K. \<exists>payload. k \<noteq> 0 \<and> r = (dv_hex dr k, td_marshal (enqueue_doc k payload t)))"

lemma docs_built:
  assumes "msim dr mv s c" "enqueue_docs dr ts s = (r, s')"
  shows "msim dr mv s' c \<and> mv_ids mv s \<subseteq> mv_ids mv s' \<and>
    (\<forall>rs. r = Inr rs \<longrightarrow> list_all2 (built_as (mv_ids mv s' - mv_ids mv s)) ts rs \<and> distinct (map (\<lambda>r. doc_id (snd r)) rs))"
  using assms
proof (induction ts arbitrary: s r)
  case Nil
  then show ?case by auto
next
  case (Cons t ts)
  show ?case
  proof (cases "jsonToRaw dr (t_Payload t)")
    case (Inl e)
    with Cons.prems show ?thesis by auto
  next
    case (Inr payload)
    obtain k s1 where k: "dv_ObjectID dr s = (k, s1)" by fastforce
    note m = msim_mint [OF Cons.prems(1) k]
    obtain r' where r': "enqueue_docs dr ts s1 = (r', s')"
      using Cons.prems(2) Inr k by (cases "enqueue_docs dr ts s1") (auto split: sum.splits)
    note IH = Cons.IH [OF m(1) r']
    show ?thesis
    proof (cases r')
      case (Inl e)
      with Cons.prems(2) Inr k r' IH m(4) show ?thesis by auto
    next
      case rs': (Inr rs')
      let ?d = "td_marshal (enqueue_doc k payload t)"
      have r: "r = Inr ((dv_hex dr k, ?d) # rs')" using Cons.prems(2) Inr k r' rs' by simp
      have "doc_id ?d = BOid k" using m(2) by (simp add: doc_id_def td_marshal_lookups enqueue_doc_def)
      moreover have "list_all2 (built_as (mv_ids mv s' - mv_ids mv s1)) ts rs'" "distinct (map (\<lambda>r. doc_id (snd r)) rs')"
        using IH unfolding rs' by blast+
      moreover have "BOid k \<notin> doc_id ` snd ` set rs'"
      proof
        assume "BOid k \<in> doc_id ` snd ` set rs'"
        then obtain p where p: "p \<in> set rs'" "doc_id (snd p) = BOid k" by force
        then obtain t' where "built_as (mv_ids mv s' - mv_ids mv s1) t' p"
          using \<open>list_all2 _ ts rs'\<close> by (metis in_set_conv_nth list_all2_nthD2)
        then obtain q pl where "q \<in> mv_ids mv s' - mv_ids mv s1" "q \<noteq> 0" "snd p = td_marshal (enqueue_doc q pl t')"
          by (auto simp: built_as_def)
        with p(2) m(4) show False by (simp add: doc_id_def td_marshal_lookups enqueue_doc_def)
      qed
      moreover have "built_as (mv_ids mv s' - mv_ids mv s) t (dv_hex dr k, ?d)"
        using m IH by (auto simp: built_as_def)
      moreover have "list_all2 (built_as (mv_ids mv s' - mv_ids mv s)) ts rs'"
        using \<open>list_all2 _ ts rs'\<close> by (rule list_all2_mono) (use m(4) in \<open>auto simp: built_as_def\<close>)
      ultimately have "list_all2 (built_as (mv_ids mv s' - mv_ids mv s)) (t # ts) ((dv_hex dr k, ?d) # rs')"
          "distinct (map (\<lambda>r. doc_id (snd r)) ((dv_hex dr k, ?d) # rs'))"
        by (simp_all add: image_image comp_def)
      then show ?thesis using IH m(4) unfolding r by auto
    qed
  qed
qed

end

text \<open>Documents that may still be inserted.\<close>

definition insertable :: "'s driver \<Rightarrow> 's mview \<Rightarrow> 's \<Rightarrow> cstore \<Rightarrow> bdoc list \<Rightarrow> bool" where
  "insertable dr mv s c ds \<longleftrightarrow> distinct (map doc_id ds) \<and>
     (\<forall>d \<in> set ds. new_doc (dv_hex dr) (mv_tokens mv s) c d \<and> doc_id d \<in> BOid ` mv_ids mv s)"

lemma new_doc_keep:
  assumes "new_doc hx toks c e" "dom (c_limit c') = dom (c_limit c) \<union> {hx k | k. BOid k \<in> I}" "doc_id e \<notin> I" "inj hx"
  shows "new_doc hx toks c' e"
proof -
  obtain q t where q: "map_of e ''_id'' = Some (BOid q)" "doc_ok toks e t" "td_ID t = q" "td_Status t = ''pending''"
      "c_limit c (hx q) = None"
    using assms(1) by (auto simp: new_doc_def)
  have "BOid q \<notin> I" using assms(3) q(1) by (simp add: doc_id_def)
  then have "hx q \<notin> dom (c_limit c')" using q(5) unfolding assms(2) by (auto simp: inj_eq [OF assms(4)])
  with q show ?thesis by (auto simp: new_doc_def domIff)
qed

lemma insertable_front: "insertable dr mv s c (ds @ es) \<Longrightarrow> insertable dr mv s c ds"
  by (auto simp: insertable_def)

context mongo begin

lemma insertable_rest:
  assumes "insertable dr mv s c (ds @ es)" "writes_to mv TasksCol s s'"
    and "dom (c_limit c') = dom (c_limit c) \<union> {dv_hex dr k | k. BOid k \<in> doc_id ` set (nths ds J)}"
  shows "insertable dr mv s' c' es"
  unfolding insertable_def
proof (intro conjI ballI)
  show "distinct (map doc_id es)" using assms(1) by (simp add: insertable_def)
  fix d assume d: "d \<in> set es"
  have "set (nths ds J) \<subseteq> set ds" by (rule set_nths_subset)
  then have "doc_id d \<notin> doc_id ` set (nths ds J)"
    using assms(1) d unfolding insertable_def by (auto simp: subset_iff)
  moreover have "new_doc (dv_hex dr) (mv_tokens mv s) c d" using assms(1) d by (simp add: insertable_def)
  ultimately show "new_doc (dv_hex dr) (mv_tokens mv s') c' d"
    using new_doc_keep [OF _ assms(3) _ inj_hex] assms(2) by (simp add: writes_to_def)
  have "doc_id d \<in> BOid ` mv_ids mv s" using assms(1) d by (simp add: insertable_def)
  with assms(2) show "doc_id d \<in> BOid ` mv_ids mv s'" unfolding writes_to_def by blast
qed

lemma chunk_sim:
  assumes "msim dr mv s c" "insertable dr mv s c ds" "dv_InsertMany dr TasksCol ds s = (r, s')"
  shows "\<exists>J c'. cexec c (map (entered (dv_hex dr)) (nths ds J)) c' \<and> msim dr mv s' c' \<and>
    (r = None \<longrightarrow> nths ds J = ds) \<and> writes_to mv TasksCol s s' \<and>
    dom (c_limit c') = dom (c_limit c) \<union> {dv_hex dr k | k. BOid k \<in> doc_id ` set (nths ds J)}"
proof -
  obtain es J where J: "writes_to mv TasksCol s s'" "list_all2 stored_doc ds es"
      "inserted (nths es J) (mv_db mv s TasksCol) (mv_db mv s' TasksCol)" "r = None \<longrightarrow> J = {..<length ds}"
    using insert_many [OF msim_ok [OF assms(1)] assms(3)] by blast
  have "\<forall>d \<in> set ds. map_of d ''_id'' \<noteq> None"
    using assms(2) unfolding insertable_def new_doc_def by blast
  with J(2) have es: "es = ds" by (rule stored_docs)
  have sub: "set (nths ds J) \<subseteq> set ds" by (rule set_nths_subset)
  have new: "\<forall>d \<in> set (nths ds J). new_doc (dv_hex dr) (mv_tokens mv s) c d"
    using assms(2) sub unfolding insertable_def by blast
  have ok': "mv_ok mv s'" using J(1) by (simp add: writes_to_def)
  have "\<exists>c'. cexec c (map (entered (dv_hex dr)) (nths ds J)) c' \<and>
      tsim (dv_hex dr) (mv_tokens mv s) (mv_db mv s' TasksCol) c' \<and> c_issued c' = c_issued c \<and>
      dom (c_limit c') = dom (c_limit c) \<union> {dv_hex dr k | k. BOid k \<in> doc_id ` set (nths ds J)}"
  proof (rule inserted_sim [OF msim_tsim [OF assms(1)] inj_hex J(3) [unfolded es] new])
    fix i j d e
    assume "mv_db mv s' TasksCol i = Some d" "mv_db mv s' TasksCol j = Some e" "clash TasksCol d e"
    then show "i = j" by (rule unique [OF ok'])
  qed
  then obtain c' where c': "cexec c (map (entered (dv_hex dr)) (nths ds J)) c'"
      "tsim (dv_hex dr) (mv_tokens mv s) (mv_db mv s' TasksCol) c'" "c_issued c' = c_issued c"
      "dom (c_limit c') = dom (c_limit c) \<union> {dv_hex dr k | k. BOid k \<in> doc_id ` set (nths ds J)}"
    by blast
  have "{dv_hex dr k | k. BOid k \<in> doc_id ` set (nths ds J)} \<subseteq> dv_hex dr ` mv_ids mv s"
  proof
    fix x assume "x \<in> {dv_hex dr k | k. BOid k \<in> doc_id ` set (nths ds J)}"
    then obtain k where k: "x = dv_hex dr k" "BOid k \<in> doc_id ` set (nths ds J)" by blast
    then obtain d where "d \<in> set ds" "doc_id d = BOid k" using sub by fastforce
    with assms(2) have "BOid k \<in> BOid ` mv_ids mv s" unfolding insertable_def by metis
    with k(1) show "x \<in> dv_hex dr ` mv_ids mv s" by auto
  qed
  moreover have "dom (c_limit c) \<subseteq> dv_hex dr ` mv_ids mv s" using assms(1) by (simp add: msim_def)
  ultimately have "dom (c_limit c') \<subseteq> dv_hex dr ` mv_ids mv s" unfolding c'(4) by (rule Un_least [rotated])
  moreover have "mv_ids mv s \<subseteq> mv_ids mv s'" using J(1) by (simp add: writes_to_def)
  ultimately have "dom (c_limit c') \<subseteq> dv_hex dr ` mv_ids mv s'" by (meson image_mono subset_trans)
  moreover have "snd ` c_issued c' \<subseteq> mv_tokens mv s'"
    using assms(1) J(1) c'(3) by (simp add: msim_def writes_to_def)
  ultimately have "msim dr mv s' c'" using ok' c'(2) J(1) by (simp add: msim_def writes_to_def)
  moreover have "r = None \<longrightarrow> nths ds J = ds" using J(4) nths_full [of ds J] by simp
  ultimately show ?thesis using c'(1,4) J(1) by (intro exI [of _ J] exI [of _ c'] conjI)
qed

lemma chunks_sim:
  assumes "msim dr mv s c" "insertable dr mv s c (drop start docs)" "0 < n"
    and "enqueue_chunks dr n docs start ids failures s = ((ids', failures'), s')"
  shows "\<exists>es c'. cexec c es c' \<and> msim dr mv s' c' \<and> set es \<subseteq> entered (dv_hex dr) ` set (drop start docs) \<and>
    (failures' = [] \<longrightarrow> es = map (entered (dv_hex dr)) (drop start docs) \<and> ids' = ids)"
  using assms
proof (induction "length docs - start" arbitrary: start ids failures s c rule: less_induct)
  case less
  note unfold = enqueue_chunks.simps [of dr n docs start]
  show ?case
  proof (cases "length docs \<le> start")
    case True
    with less.prems show ?thesis by (intro exI [of _ "[]"] exI [of _ c]) (auto simp: unfold)
  next
    case False
    let ?ds = "take n (drop start docs)"
    have split: "drop start docs = ?ds @ drop (start + n) docs" by (metis append_take_drop_id drop_drop add.commute)
    obtain r s1 where r: "dv_InsertMany dr TasksCol ?ds s = (r, s1)" by fastforce
    have whole: "insertable dr mv s c (?ds @ drop (start + n) docs)"
      using less.prems(2) by (simp only: split [symmetric])
    note ins = insertable_front [OF whole]
    obtain J c1 where c1: "cexec c (map (entered (dv_hex dr)) (nths ?ds J)) c1" "msim dr mv s1 c1"
        "r = None \<longrightarrow> nths ?ds J = ?ds" "writes_to mv TasksCol s s1"
        "dom (c_limit c1) = dom (c_limit c) \<union> {dv_hex dr k | k. BOid k \<in> doc_id ` set (nths ?ds J)}"
      using chunk_sim [OF less.prems(1) ins r] by blast
    have sub: "set (nths ?ds J) \<subseteq> set (drop start docs)"
      using set_nths_subset [of ?ds J] set_take_subset [of n "drop start docs"] by blast
    have rest: "insertable dr mv s1 c1 (drop (start + n) docs)"
      by (rule insertable_rest [OF whole c1(4,5)])
    have dec: "length docs - (start + n) < length docs - start" using False less.prems(3) by simp
    have more: ?thesis
      if go: "enqueue_chunks dr n docs (start + n) ids1 failures1 s1 = ((ids', failures'), s')"
        and ok: "failures' = [] \<longrightarrow> r = None \<and> ids1 = ids" for ids1 failures1
    proof -
      from less.hyps [OF dec c1(2) rest less.prems(3) go] obtain es c' where
        es: "cexec c1 es c'" "msim dr mv s' c'" "set es \<subseteq> entered (dv_hex dr) ` set (drop (start + n) docs)"
          "failures' = [] \<longrightarrow> es = map (entered (dv_hex dr)) (drop (start + n) docs) \<and> ids' = ids1"
        by blast
      have "set (drop (start + n) docs) \<subseteq> set (drop start docs)" by (simp add: set_drop_subset_set_drop)
      then have "set es \<subseteq> entered (dv_hex dr) ` set (drop start docs)" using es(3) by (meson image_mono subset_trans)
      moreover have "entered (dv_hex dr) ` set (nths ?ds J) \<subseteq> entered (dv_hex dr) ` set (drop start docs)"
        by (rule image_mono [OF sub])
      ultimately have "set (map (entered (dv_hex dr)) (nths ?ds J) @ es) \<subseteq> entered (dv_hex dr) ` set (drop start docs)"
        by simp
      moreover have "map (entered (dv_hex dr)) (nths ?ds J) @ es = map (entered (dv_hex dr)) (drop start docs) \<and> ids' = ids"
        if "failures' = []"
        using that es(4) ok c1(3) split by (metis map_append)
      ultimately show ?thesis using cexec_append [OF c1(1) es(1)] es(2) by blast
    qed
    show ?thesis
    proof (cases r)
      case None
      with more [of ids failures] less.prems(3,4) r False show ?thesis by (simp add: unfold)
    next
      case (Some e)
      show ?thesis
      proof (cases "\<exists>ws. e = BulkWriteErrors ws \<and> ws \<noteq> []")
        case True
        then obtain ws where ws: "e = BulkWriteErrors ws" "ws \<noteq> []" by blast
        let ?ids = "blank (map (\<lambda>(j, code, msg). start + j) ws) ids"
        let ?fs = "failures @ map (\<lambda>(j, code, msg). (start + j, write_cause code msg)) ws"
        have go: "enqueue_chunks dr n docs (start + n) ?ids ?fs s1 = ((ids', failures'), s')"
          using less.prems(3,4) r False Some ws by (simp add: unfold)
        from chunks_grow [OF go] ws(2) have "failures' \<noteq> []" by (auto simp: prefix_def)
        with more [OF go] show ?thesis by blast
      next
        case other: False
        have "failures' = failures @ map (\<lambda>j. (j, mg_err ''enqueue'')) [start..<length docs] \<and> s' = s1"
          using less.prems(3,4) r False Some other by (cases e) (auto simp: unfold split: if_splits)
        moreover from this False have "failures' \<noteq> []" by auto
        ultimately show ?thesis using c1(1,2) sub
          by (intro exI [of _ "map (entered (dv_hex dr)) (nths ?ds J)"] exI [of _ c1]) auto
      qed
    qed
  qed
qed

end

end
