(* ===== verification/Mongo_Claims.thy ===== *)
theory Mongo_Claims
  imports Mongo_Inserts
begin

text \<open>
  \<open>Enqueue\<close>, \<open>Claim\<close> and \<open>ClaimBatch\<close> of the MongoDB store as runs of the contract machine. For a batch:
  the tasks returned are exactly those the guarded update took, each claimed once.
\<close>

section \<open>Enqueue\<close>

lemma stored_zip:
  assumes "list_all2 P ts rs" "\<And>t r. t \<in> set ts \<Longrightarrow> r \<in> set rs \<Longrightarrow> P t r \<Longrightarrow> stored_as (fst r) t (f (snd r))"
  shows "list_all2 (\<lambda>(i, t) e. stored_as i t e) (zip (map fst rs) ts) (map f (map snd rs))"
  using assms by (induction rule: list_all2_induct) auto

lemma may_advance_exec: "cexec c es d \<Longrightarrow> R s' d \<Longrightarrow> set es \<subseteq> E \<Longrightarrow> may_advance R c E s'"
  by (auto simp: may_advance_def advances_def)

lemma advances_exec: "cexec c es d \<Longrightarrow> R s' d \<Longrightarrow> advances R c es s'"
  by (auto simp: advances_def)

context mongo begin

lemma built_entered:
  assumes "built_as K t r" "t_Status t = StatusPending"
  shows "stored_as (fst r) t (entered (dv_hex dr) (snd r))"
  using assms entered_marshal [OF assms(2)] by (auto simp: built_as_def)

lemma built_new:
  assumes "built_as K t r" "t_Status t = StatusPending" "\<And>k. k \<in> K \<Longrightarrow> c_limit c (dv_hex dr k) = None"
  shows "new_doc (dv_hex dr) toks c (snd r) \<and> doc_id (snd r) \<in> BOid ` K"
proof -
  obtain k payload where k: "k \<in> K" "k \<noteq> 0" "r = (dv_hex dr k, td_marshal (enqueue_doc k payload t))"
    using assms(1) by (auto simp: built_as_def)
  have "new_doc (dv_hex dr) toks c (td_marshal (enqueue_doc k payload t))"
    using assms(2) k(2) assms(3) [OF k(1)] by (rule new_marshal(1))
  moreover have "map_of (td_marshal (enqueue_doc k payload t)) ''_id'' = Some (BOid k)"
    using k(2) by (simp add: td_marshal_lookups enqueue_doc_def)
  ultimately show ?thesis using k by (simp add: doc_id_def)
qed

lemma unused_limit: "msim dr mv s c \<Longrightarrow> k \<notin> mv_ids mv s \<Longrightarrow> c_limit c (dv_hex dr k) = None"
  using inj_hex unfolding msim_def by (auto simp: inj_eq)

lemma insertable_built:
  assumes "msim dr mv s c" "list_all2 (built_as (mv_ids mv s' - mv_ids mv s)) ts rs"
    and "distinct (map (\<lambda>r. doc_id (snd r)) rs)" "\<forall>t \<in> set ts. t_Status t = StatusPending"
  shows "insertable dr mv s' c (map snd rs)"
  unfolding insertable_def
proof (intro conjI ballI)
  show "distinct (map doc_id (map snd rs))" using assms(3) by (simp add: comp_def)
  fix d assume "d \<in> set (map snd rs)"
  then obtain r where r: "r \<in> set rs" "d = snd r" by auto
  then obtain t where t: "t \<in> set ts" "built_as (mv_ids mv s' - mv_ids mv s) t r"
    using assms(2) by (metis in_set_conv_nth list_all2_conv_all_nth)
  have "new_doc (dv_hex dr) (mv_tokens mv s') c (snd r) \<and> doc_id (snd r) \<in> BOid ` (mv_ids mv s' - mv_ids mv s)"
    using t assms(4) unused_limit [OF assms(1)] by (intro built_new [OF t(2)]) auto
  then show "new_doc (dv_hex dr) (mv_tokens mv s') c d" "doc_id d \<in> BOid ` mv_ids mv s'" unfolding r(2) by blast+
qed

lemma enqueue_sim:
  assumes "msim dr mv s c" "\<forall>t \<in> set ts. t_Status t = StatusPending" "0 < n"
    and "mg_Enqueue dr n ts s = ((ids, e), s')"
  shows "may_advance (msim dr mv) c (enqueue_events ts) s' \<and>
    (e = None \<longrightarrow> (\<exists>es. list_all2 (\<lambda>(i, t) e. stored_as i t e) (zip ids ts) es \<and> length ids = length ts \<and>
      advances (msim dr mv) c es s'))"
proof (cases "ts = []")
  case True
  with assms(1,4) show ?thesis
    by (auto simp: mg_Enqueue_def intro: may_advance_stay advances_nil)
next
  case False
  obtain r s1 where r: "enqueue_docs dr ts s = (r, s1)" by fastforce
  note docs = docs_built [OF assms(1) r]
  show ?thesis
  proof (cases r)
    case (Inl x)
    with assms(4) False r docs show ?thesis by (auto simp: mg_Enqueue_def intro: may_advance_stay)
  next
    case (Inr rs)
    have built: "list_all2 (built_as (mv_ids mv s1 - mv_ids mv s)) ts rs" "distinct (map (\<lambda>r. doc_id (snd r)) rs)"
      and m1: "msim dr mv s1 c"
      using docs Inr by blast+
    have ins: "insertable dr mv s1 c (drop 0 (map snd rs))"
      using insertable_built [OF assms(1) built assms(2)] by simp
    obtain ids1 fs s2 where ch: "enqueue_chunks dr n (map snd rs) 0 (map fst rs) [] s1 = ((ids1, fs), s2)"
      by (metis prod.exhaust)
    have s2: "s2 = s'" and e: "e = None \<longrightarrow> fs = [] \<and> ids = ids1"
      using assms(4) False r Inr ch by (auto simp: mg_Enqueue_def split: if_splits)
    obtain es d where es: "cexec c es d" "msim dr mv s2 d" "set es \<subseteq> entered (dv_hex dr) ` set (map snd rs)"
      "fs = [] \<longrightarrow> es = map (entered (dv_hex dr)) (map snd rs) \<and> ids1 = map fst rs"
      using chunks_sim [OF m1 ins assms(3) ch] by auto
    have stored: "list_all2 (\<lambda>(i, t) e. stored_as i t e) (zip (map fst rs) ts) (map (entered (dv_hex dr)) (map snd rs))"
      using built(1) by (rule stored_zip) (use assms(2) built_entered in blast)
    have "set es \<subseteq> enqueue_events ts" using es(3) stored_events [OF stored] by force
    then have "may_advance (msim dr mv) c (enqueue_events ts) s'"
      using may_advance_exec [of c es d "msim dr mv" s2] es(1,2) s2 by blast
    moreover have "length rs = length ts" using list_all2_lengthD [OF built(1)] by simp
    moreover have "advances (msim dr mv) c es s'" using advances_exec [of c es d "msim dr mv" s2] es(1,2) s2 by blast
    ultimately show ?thesis using stored es(4) e by auto
  qed
qed

end

section \<open>Claims\<close>

lemma msim_issue:
  assumes "msim dr mv s c" "writes_to mv TasksCol s s'"
    and "tsim (dv_hex dr) (mv_tokens mv s) (mv_db mv s' TasksCol) c'" "c_limit c' = c_limit c"
    and "snd ` c_issued c' \<subseteq> mv_tokens mv s"
  shows "msim dr mv s' c'"
  using assms unfolding msim_def writes_to_def by (metis image_mono subset_trans)

lemma toTask_abs:
  assumes "toTask dr d = Inr t"
  shows "abs_task t = abs_doc d" "t_ID t = dv_hex dr (td_ID d)" "t_Queue t = td_Queue d" "t_Type t = td_Type d"
proof -
  obtain x where x: "status_of (td_Status d) = Some x" "t_Status t = x"
      "t_Queue t = td_Queue d" "t_Type t = td_Type d" "t_UniqueKey t = td_UniqueKey d" "t_Attempts t = td_Attempts d"
      "t_MaxAttempts t = td_MaxAttempts d" "t_RunAt t = td_RunAt d" "t_LeaseToken t = td_LeaseToken d"
      "t_LeasedUntil t = td_LeasedUntil d" "t_ID t = dv_hex dr (td_ID d)"
    using assms by (auto simp: toTask_def split: sum.splits option.splits)
  then show "t_ID t = dv_hex dr (td_ID d)" "t_Queue t = td_Queue d" "t_Type t = td_Type d" by simp_all
  have st: "td_Status d = status_str x" using x(1) by (simp add: status_of_def split: if_splits)
  then show "abs_task t = abs_doc d" using x(2-) by (cases x) (simp_all add: st abs_doc_def abs_task_def)
qed

lemma decoded_task:
  assumes "tsim (dv_hex dr) toks m c" "m i = Some d" "decode_task dr what d = Inr t"
  obtains k where "i = BOid k" "t_ID t = dv_hex dr k" "c_tasks c (t_ID t) = Some (abs_task t)"
proof -
  obtain k td where k: "i = BOid k" "doc_ok toks d td" "td_ID td = k" "c_tasks c (dv_hex dr k) = Some (abs_doc td)"
    by (rule tsim_lookup [OF assms(1,2)])
  then have "toTask dr td = Inr t" using assms(3) by (simp add: decode_task_def doc_ok_def)
  from toTask_abs [OF this] k show thesis using that by simp
qed

lemma claimed_event:
  assumes "cstep c (Claimed i tok now u) c'" "c_tasks c' i = Some (abs_task t)" "t_ID t = i"
  shows "claim_event now t = Claimed i tok now u"
    "\<exists>a. c_tasks c i = Some a \<and> a_type a = t_Type t \<and> a_queue a = t_Queue t"
proof -
  obtain a where a: "c_tasks c i = Some a"
      "c_tasks c' i = Some (a\<lparr>a_attempts := a_attempts a + 1, a_state := ARunning tok u\<rparr>)"
    using assms(1) by (auto elim!: claimedE)
  then have eq: "abs_task t = a\<lparr>a_attempts := a_attempts a + 1, a_state := ARunning tok u\<rparr>" using assms(2) by simp
  have "abs_state (t_Status t) t = ARunning tok u" using arg_cong [OF eq, of a_state] by simp
  then show "claim_event now t = Claimed i tok now u" using assms(3) by (simp add: claim_event_def)
  show "\<exists>a. c_tasks c i = Some a \<and> a_type a = t_Type t \<and> a_queue a = t_Queue t"
    using a(1) arg_cong [OF eq, of a_type] arg_cong [OF eq, of a_queue] by simp
qed

lemma accepts_abs:
  assumes "tsim hx toks m c" "m i = Some d" "fmatch (FAnd (runnableFilter now (co_Types opts) (co_Queues opts))) d"
    and "i = BOid k" "c_tasks c (hx k) = Some a" "a_type a = t_Type t" "a_queue a = t_Queue t"
  shows "accepts opts t"
proof -
  obtain q u where q: "i = BOid q" "doc_ok toks d u" "c_tasks c (hx q) = Some (abs_doc u)"
    by (rule tsim_lookup [OF assms(1,2)])
  then have "a = abs_doc u" using assms(4,5) by simp
  then show ?thesis using runnable_accepts [OF assms(3) q(2)] assms(6,7) by (auto simp: accepts_def)
qed

context mongo begin

text \<open>One document claimed by the update of \<open>Claim\<close> is a step of the machine.\<close>

lemma claim_hit:
  assumes "msim dr mv s c" "dv_uuid dr s = (tok, s1)" "writes_to mv TasksCol s1 s'" "mv_db mv s1 TasksCol i = Some d"
    and "fmatch (FAnd (runnableFilter now (co_Types opts) (co_Queues opts))) d"
    and "mv_db mv s' TasksCol = (mv_db mv s1 TasksCol)(i \<mapsto> uapply (claimUpdate now (co_WorkerID opts) tok (co_Lease opts)) d)"
  shows "\<exists>k c'. i = BOid k \<and> cstep c (Claimed (dv_hex dr k) tok now (bson_ms (add_time now (co_Lease opts)))) c' \<and> msim dr mv s' c'"
proof -
  note tok = msim_token [OF assms(1,2)]
  let ?until = "bson_ms (add_time now (co_Lease opts))"
  obtain k where k: "i = BOid k" using tsim_lookup [OF msim_tsim [OF tok(1)] assms(4)] by blast
  obtain c' where c': "cstep c (Claimed (dv_hex dr k) tok now ?until) c'"
      "tsim (dv_hex dr) (mv_tokens mv s1) (mv_db mv s' TasksCol) c'" "c_limit c' = c_limit c"
      "c_issued c' = insert (dv_hex dr k, tok) (c_issued c)"
    using claim_step [OF msim_tsim [OF tok(1)] inj_hex assms(4) [unfolded k] assms(5) tok(3,2,4)] assms(6) k by metis
  have "msim dr mv s' c'"
    using tok(1,3) c'(4) by (intro msim_issue [OF tok(1) assms(3) c'(2,3)]) (auto simp: msim_def)
  with k c'(1) show ?thesis by blast
qed

lemma claim_advance:
  "\<exists>k c'. i = BOid k \<and> cstep c (Claimed (dv_hex dr k) tok now u) c' \<and> R s' c' \<Longrightarrow>
    may_advance R c {Claimed i tok now u | i tok u. True} s'"
  by (elim exE conjE, rule may_advance_exec, rule cexec_one, assumption) auto

lemma doc_claim_sim:
  assumes "msim dr mv s c" "mg_Claim dr now opts s = (r, s')"
  shows "may_advance (msim dr mv) c {Claimed i tok now u | i tok u. True} s'"
    "r = Inl ErrNoTask \<Longrightarrow> msim dr mv s' c"
    "r = Inr t \<Longrightarrow> \<exists>d. cstep c (claim_event now t) d \<and> msim dr mv s' d \<and> c_tasks d (t_ID t) = Some (abs_task t) \<and>
      accepts opts t"
proof -
  let ?f = "FAnd (runnableFilter now (co_Types opts) (co_Queues opts))"
  let ?E = "{Claimed i tok now u | i tok u. True}"
  obtain tok s1 where u: "dv_uuid dr s = (tok, s1)" by fastforce
  note tok = msim_token [OF assms(1) u]
  let ?u = "claimUpdate now (co_WorkerID opts) tok (co_Lease opts)"
  let ?until = "bson_ms (add_time now (co_Lease opts))"
  obtain x where x: "dv_FindOneAndUpdate dr TasksCol ?f ?u (fifo_sort opts) s1 = (x, s')"
      "r = (case x of Inl e \<Rightarrow> Inl (if e = NoDocuments then ErrNoTask else mg_err ''claim'') | Inr d \<Rightarrow> decode_task dr ''claim'' d)"
    using assms(2) u by (auto simp: mg_Claim_def split: prod.splits sum.splits)
  have ok: "mv_ok mv s1" using tok(1) by (rule msim_ok)
  note hit = claim_hit [OF assms(1) u, of s' _ _ now opts]
  note adv = claim_advance [where R = "msim dr mv" and c = c and tok = tok and now = now and u = ?until and s' = s', OF hit]
  have none: "msim dr mv s' c" if "writes_to mv TasksCol s1 s'" "mv_db mv s' TasksCol = mv_db mv s1 TasksCol"
    by (rule msim_same [OF tok(1) that])
  show "may_advance (msim dr mv) c ?E s'"
  proof (cases x)
    case (Inr d')
    with find_update_ok [OF ok x(1) [unfolded Inr]] show ?thesis by (elim exE conjE) (rule adv, auto)
  next
    case (Inl e)
    have "writes_to mv TasksCol s1 s' \<and> (mv_db mv s' TasksCol = mv_db mv s1 TasksCol \<or>
        (\<exists>n. update_seq [(?f, ?u)] (mv_db mv s1 TasksCol) n (mv_db mv s' TasksCol)))"
      by (rule find_update_err [OF ok x(1) [unfolded Inl]])
    then consider "writes_to mv TasksCol s1 s'" "mv_db mv s' TasksCol = mv_db mv s1 TasksCol"
      | i d where "writes_to mv TasksCol s1 s'" "mv_db mv s1 TasksCol i = Some d" "fmatch ?f d"
          "mv_db mv s' TasksCol = (mv_db mv s1 TasksCol)(i \<mapsto> uapply ?u d)"
      by (auto elim!: useq_ConsE useq_NilE)
    then show ?thesis
    proof cases
      case 1
      from none [OF this] show ?thesis by (rule may_advance_stay)
    next
      case 2
      show ?thesis by (rule adv [OF 2])
    qed
  qed
  show "msim dr mv s' c" if "r = Inl ErrNoTask"
  proof -
    have "x = Inl NoDocuments"
      using that x(2) by (auto simp: decode_task_def toTask_def rawToJSON_def mg_err_def split: sum.splits option.splits if_splits)
    with find_update_none [OF ok x(1) [unfolded this]] show ?thesis using none by blast
  qed
  show "\<exists>d. cstep c (claim_event now t) d \<and> msim dr mv s' d \<and> c_tasks d (t_ID t) = Some (abs_task t) \<and>
      accepts opts t" if r: "r = Inr t"
  proof -
    obtain d' where d': "x = Inr d'" "decode_task dr ''claim'' d' = Inr t"
      using r x(2) by (auto split: sum.splits)
    obtain i d where d: "writes_to mv TasksCol s1 s'" "mv_db mv s1 TasksCol i = Some d" "fmatch ?f d" "d' = uapply ?u d"
        "mv_db mv s' TasksCol = (mv_db mv s1 TasksCol)(i \<mapsto> d')"
      using find_update_ok [OF ok x(1) [unfolded d'(1)]] by blast
    obtain k c' where c': "i = BOid k" "cstep c (Claimed (dv_hex dr k) tok now ?until) c'" "msim dr mv s' c'"
      using hit [OF d(1-3)] d(4,5) by blast
    have "mv_db mv s' TasksCol i = Some d'" using d(5) by simp
    from decoded_task [OF msim_tsim [OF c'(3)] this d'(2)] obtain q where
      q: "i = BOid q" "t_ID t = dv_hex dr q" "c_tasks c' (t_ID t) = Some (abs_task t)" by blast
    with c'(1) have t: "t_ID t = dv_hex dr k" "c_tasks c' (dv_hex dr k) = Some (abs_task t)" by simp_all
    note ev = claimed_event [OF c'(2) t(2,1)]
    obtain a where "c_tasks c (dv_hex dr k) = Some a" "a_type a = t_Type t" "a_queue a = t_Queue t" using ev(2) by blast
    from accepts_abs [OF msim_tsim [OF tok(1)] d(2,3) c'(1) this] ev(1) c'(2,3) q(3) show ?thesis by auto
  qed
qed

end

section \<open>Batches\<close>

lemma claimed_fields:
  "map_of (uapply (claimUpdate now w tok lease) d) ''lease_token'' = Some (BStr tok)"
  "map_of (uapply (claimUpdate now w tok lease) d) ''_id'' = map_of d ''_id''"
  by (simp_all add: claimUpdate_def)

lemma claimed_task:
  assumes "doc_ok toks d u" "decode_task dr what (uapply (claimUpdate now w tok lease) d) = Inr t"
  shows "t_LeaseToken t = tok" "t_LeasedUntil t = bson_ms (add_time now lease)" "t_Queue t = td_Queue u"
    "t_Type t = td_Type u"
proof -
  have dec: "td_decode d = Some u" "null_free d" using assms(1) by (simp_all add: doc_ok_def)
  have t: "toTask dr (claimed_doc now w tok lease u) = Inr t"
    using assms(2) claim_decode(1) [OF dec] by (simp add: decode_task_def)
  then show "t_LeaseToken t = tok" "t_LeasedUntil t = bson_ms (add_time now lease)" "t_Queue t = td_Queue u"
    "t_Type t = td_Type u"
    by (auto simp: toTask_def claimed_doc_def split: sum.splits option.splits)
qed

lemma guard_runnable: "fmatch (batch_guard now ids) d \<Longrightarrow> fmatch (FAnd (runnableFilter now [] [])) d"
  by (simp add: batch_guard_def)

lemma guard_id: "fmatch (batch_guard now ids) d \<Longrightarrow> map_of d ''_id'' = Some v \<Longrightarrow> v \<in> set ids"
  by (simp add: batch_guard_def)

lemma all_results_map [simp]: "all_results (map Inr xs) = Inr xs"
  by (induction xs) simp_all

lemma all_results_Inr: "all_results rs = Inr xs \<longleftrightarrow> rs = map Inr xs"
proof
  show "all_results rs = Inr xs \<Longrightarrow> rs = map Inr xs"
    by (induction rs arbitrary: xs rule: all_results.induct) (auto split: sum.splits)
qed simp

lemma those_map [simp]: "those (map Some ys) = Some ys"
  by (induction ys) simp_all

lemma those_some: "those xs = Some ys \<longleftrightarrow> xs = map Some ys"
proof
  show "those xs = Some ys \<Longrightarrow> xs = map Some ys"
    by (induction xs arbitrary: ys) (auto split: option.splits)
qed simp

lemma project_all [simp]: "project [] = (\<lambda>d. d)"
  by (simp add: project_def fun_eq_iff)

lemma project_id: "map_of (project ks d) ''_id'' = map_of d ''_id''"
  unfolding project_def by (induction d) auto

lemma candidates_Inr:
  assumes "batch_candidates dr now opts k s = Inr ids"
  obtains ds ks where "dv_Find dr TasksCol (FAnd (runnableFilter now (co_Types opts) (co_Queues opts)))
      (fifo_sort opts) (Some (nat k)) [''_id''] s = Inr ds"
    "those (map (get_oid ''_id'') ds) = Some ks" "ids = map BOid ks"
proof (cases "dv_Find dr TasksCol (FAnd (runnableFilter now (co_Types opts) (co_Queues opts)))
      (fifo_sort opts) (Some (nat k)) [''_id''] s")
  case (Inl e)
  with assms show thesis by (simp add: batch_candidates_def)
next
  case (Inr ds)
  with assms show thesis
    by (cases "those (map (get_oid ''_id'') ds)") (simp_all add: batch_candidates_def that [OF Inr])
qed

lemma length_limited: "length (limited (Some n) xs) \<le> n"
  by (simp add: limited_def)

lemma set_limited: "set (limited n xs) \<subseteq> set xs"
  by (auto simp: limited_def split: option.splits dest: in_set_takeD)

text \<open>The ids a guarded update takes.\<close>

definition taken_ids :: "bfilter \<Rightarrow> table \<Rightarrow> oid set" where
  "taken_ids f m = {k. \<exists>d. m (BOid k) = Some d \<and> fmatch f d}"

lemma update_all_at:
  assumes "tsim hx toks m c" "set ks = taken_ids f m"
  shows "update_all f u m = updated_at ks u m"
proof
  fix i
  show "update_all f u m i = updated_at ks u m i"
  proof (cases "m i")
    case None
    then show ?thesis by (simp add: update_all_def updated_at_def)
  next
    case (Some d)
    obtain k where k: "i = BOid k" using tsim_lookup [OF assms(1) Some] by blast
    have "k \<in> set ks \<longleftrightarrow> fmatch f d" using Some by (simp add: assms(2) taken_ids_def k)
    then show ?thesis using Some by (auto simp: update_all_def updated_at_def k)
  qed
qed

context mongo begin

lemma batch_exec:
  fixes now w lease
  assumes "msim dr mv s c" "tok \<in> mv_tokens mv s" "tok \<noteq> []" "\<And>i. (i, tok) \<notin> c_issued c"
    and "writes_to mv TasksCol s s'" "distinct ks" "\<forall>k \<in> set ks. \<exists>d. mv_db mv s TasksCol (BOid k) = Some d \<and> fmatch (batch_guard now ids) d"
    and "mv_db mv s' TasksCol = updated_at ks (claimUpdate now w tok lease) (mv_db mv s TasksCol)"
  shows "\<exists>c'. cexec c (map (\<lambda>k. Claimed (dv_hex dr k) tok now (bson_ms (add_time now lease))) ks) c' \<and> msim dr mv s' c'"
proof -
  let ?toks = "mv_tokens mv s" and ?u = "claimUpdate now w tok lease"
  let ?ev = "\<lambda>k. Claimed (dv_hex dr k) tok now (bson_ms (add_time now lease))"
  let ?J = "\<lambda>c' K. (\<forall>k \<in> K. (dv_hex dr k, tok) \<notin> c_issued c') \<and> snd ` c_issued c' \<subseteq> ?toks"
  have "\<exists>c'. cexec c (map ?ev ks) c' \<and> tsim (dv_hex dr) ?toks (updated_at ks ?u (mv_db mv s TasksCol)) c' \<and>
    c_limit c' = c_limit c \<and> ?J c' {}"
  proof (rule list_sim [OF msim_tsim [OF assms(1)] assms(6,7)])
    show "?J c (set ks)" using assms(1,4) by (simp add: msim_def)
    fix m b k d K
    assume b: "tsim (dv_hex dr) ?toks m b" "?J b (insert k K)" "k \<notin> K" "m (BOid k) = Some d"
      "fmatch (batch_guard now ids) d"
    have "(dv_hex dr k, tok) \<notin> c_issued b" using b(2) by simp
    from claim_step [OF b(1) inj_hex b(4) guard_runnable [OF b(5)] assms(2,3) this] obtain b' where
      b': "cstep b (?ev k) b'" "tsim (dv_hex dr) ?toks (m(BOid k \<mapsto> uapply ?u d)) b'" "c_limit b' = c_limit b"
        "c_issued b' = insert (dv_hex dr k, tok) (c_issued b)"
      by blast
    have "dv_hex dr q \<noteq> dv_hex dr k" if "q \<in> K" for q using that b(3) inj_hex by (auto simp: inj_eq)
    with b(2) b'(4) assms(2) have "?J b' K" by auto
    with b' show "\<exists>b'. cstep b (?ev k) b' \<and> tsim (dv_hex dr) ?toks (m(BOid k \<mapsto> uapply ?u d)) b' \<and>
        c_limit b' = c_limit b \<and> ?J b' K"
      by blast
  qed
  then obtain c' where c': "cexec c (map ?ev ks) c'"
      "tsim (dv_hex dr) ?toks (mv_db mv s' TasksCol) c'" "c_limit c' = c_limit c" "snd ` c_issued c' \<subseteq> ?toks"
    unfolding assms(8) by blast
  from msim_issue [OF assms(1,5) c'(2-4)] c'(1) show ?thesis by blast
qed

text \<open>An update that failed part way has claimed some of the tasks.\<close>

lemma batch_partial:
  assumes "msim dr mv s c" "tok \<in> mv_tokens mv s" "tok \<noteq> []" "\<And>i. (i, tok) \<notin> c_issued c"
    and "writes_to mv TasksCol s s'"
    and "partly_updated (batch_guard now ids) (claimUpdate now w tok lease) (mv_db mv s TasksCol) (mv_db mv s' TasksCol)"
  shows "may_advance (msim dr mv) c {Claimed i tok now u | i tok u. True} s'"
proof -
  obtain ks where ks: "distinct ks" "mv_db mv s' TasksCol = updated_at ks (claimUpdate now w tok lease) (mv_db mv s TasksCol)"
      "\<forall>k \<in> set ks. \<exists>d. mv_db mv s TasksCol (BOid k) = Some d \<and> fmatch (batch_guard now ids) d"
    using partly_updated_list [OF assms(6) msim_finite [OF assms(1)] msim_tsim [OF assms(1)]] by blast
  obtain c' where "cexec c (map (\<lambda>k. Claimed (dv_hex dr k) tok now (bson_ms (add_time now lease))) ks) c'" "msim dr mv s' c'"
    using batch_exec [OF assms(1-5) ks(1,3,2)] by blast
  then show ?thesis by (rule may_advance_exec) auto
qed

text \<open>The fetch: the tasks under the token, as they are stored.\<close>

lemma fetch_winners:
  assumes "msim dr mv s c" "dv_Find dr TasksCol (batch_winners ids tok) [] None [] s = Inr ds"
    and "all_results (map (decode_task dr what) ds) = Inr ts"
  shows "\<exists>ks. length ks = length ts \<and> map t_ID ts = map (dv_hex dr) ks \<and> distinct ks \<and> BOid ` set ks \<subseteq> set ids \<and>
    (\<forall>k. k \<in> set ks \<longleftrightarrow> (\<exists>d. mv_db mv s TasksCol (BOid k) = Some d \<and> fmatch (batch_winners ids tok) d)) \<and>
    (\<forall>j < length ts. \<exists>d. mv_db mv s TasksCol (BOid (ks ! j)) = Some d \<and> decode_task dr what d = Inr (ts ! j) \<and>
      c_tasks c (t_ID (ts ! j)) = Some (abs_task (ts ! j)))"
proof -
  let ?m = "mv_db mv s TasksCol" and ?f = "batch_winners ids tok"
  have l: "listing ?f [] ?m ds"
    using find_docs [OF msim_ok [OF assms(1)] assms(2)] by (auto simp: limited_def)
  have ts: "map (decode_task dr what) ds = map Inr ts" using assms(3) by (simp add: all_results_Inr)
  then have len: "length ds = length ts" by (metis length_map)
  define oid where "oid d = (case doc_id d of BOid k \<Rightarrow> k)" for d
  have at: "?m (BOid (oid d)) = Some d \<and> fmatch ?f d \<and> doc_id d = BOid (oid d)" if d: "d \<in> set ds" for d
  proof -
    obtain i where i: "?m i = Some d" "fmatch ?f d" using l d by (auto simp: listing_def)
    obtain k where "i = BOid k" "map_of d ''_id'' = Some (BOid k)"
      using tsim_lookup [OF msim_tsim [OF assms(1)] i(1)] by blast
    with i show ?thesis by (simp add: oid_def doc_id_def)
  qed
  have "distinct (map doc_id ds)" using l by (simp add: listing_def)
  then have dk: "distinct (map oid ds)" using at by (auto simp: distinct_map inj_on_def)
  have mem: "k \<in> set (map oid ds) \<longleftrightarrow> (\<exists>d. ?m (BOid k) = Some d \<and> fmatch ?f d)" for k
  proof
    assume "k \<in> set (map oid ds)"
    then show "\<exists>d. ?m (BOid k) = Some d \<and> fmatch ?f d" using at by auto
  next
    assume "\<exists>d. ?m (BOid k) = Some d \<and> fmatch ?f d"
    then obtain d where d: "?m (BOid k) = Some d" "fmatch ?f d" by blast
    then have "d \<in> set ds" using l by (auto simp: listing_def)
    moreover have "map_of d ''_id'' = Some (BOid k)" using tsim_lookup [OF msim_tsim [OF assms(1)] d(1)] by blast
    ultimately show "k \<in> set (map oid ds)" by (force simp: oid_def doc_id_def)
  qed
  have each: "?m (BOid (oid (ds ! j))) = Some (ds ! j) \<and> decode_task dr what (ds ! j) = Inr (ts ! j) \<and>
      t_ID (ts ! j) = dv_hex dr (oid (ds ! j)) \<and> c_tasks c (t_ID (ts ! j)) = Some (abs_task (ts ! j))"
    if j: "j < length ts" for j
  proof -
    have d: "?m (BOid (oid (ds ! j))) = Some (ds ! j)" using at j len by simp
    moreover have dec: "decode_task dr what (ds ! j) = Inr (ts ! j)" using arg_cong [OF ts, of "\<lambda>xs. xs ! j"] j len by simp
    moreover obtain k where "BOid (oid (ds ! j)) = BOid k" "t_ID (ts ! j) = dv_hex dr k"
        "c_tasks c (t_ID (ts ! j)) = Some (abs_task (ts ! j))"
      by (rule decoded_task [OF msim_tsim [OF assms(1)] d dec])
    ultimately show ?thesis by simp
  qed
  have "map t_ID ts = map (dv_hex dr) (map oid ds)" using each len by (intro nth_equalityI) auto
  moreover have "BOid ` set (map oid ds) \<subseteq> set ids"
  proof
    fix v assume "v \<in> BOid ` set (map oid ds)"
    then obtain d where d: "d \<in> set ds" "v = BOid (oid d)" by auto
    then have "map_of d ''_id'' = Some v" using at tsim_lookup [OF msim_tsim [OF assms(1)]] by (metis bval.inject(4))
    with at [OF d(1)] show "v \<in> set ids" by (simp add: batch_winners_def)
  qed
  moreover have "\<exists>d. ?m (BOid (map oid ds ! j)) = Some d \<and> decode_task dr what d = Inr (ts ! j) \<and>
      c_tasks c (t_ID (ts ! j)) = Some (abs_task (ts ! j))" if j: "j < length ts" for j
  proof -
    have eq: "map oid ds ! j = oid (ds ! j)" using j len by simp
    show ?thesis unfolding eq using each [OF j] by blast
  qed
  ultimately show ?thesis
    using dk mem len by (intro exI [of _ "map oid ds"] conjI allI impI) (simp_all del: set_map map_map)
qed

lemma candidates_spec:
  assumes "msim dr mv s c" "batch_candidates dr now opts k s = Inr ids"
  shows "length ids \<le> nat k" "v \<in> set ids \<Longrightarrow> \<exists>q d. v = BOid q \<and> mv_db mv s TasksCol v = Some d \<and>
    fmatch (FAnd (runnableFilter now (co_Types opts) (co_Queues opts))) d"
proof -
  let ?f = "FAnd (runnableFilter now (co_Types opts) (co_Queues opts))" and ?m = "mv_db mv s TasksCol"
  obtain ds ks where ds: "dv_Find dr TasksCol ?f (fifo_sort opts) (Some (nat k)) [''_id''] s = Inr ds"
      "those (map (get_oid ''_id'') ds) = Some ks" "ids = map BOid ks"
    by (rule candidates_Inr [OF assms(2)])
  obtain all where all: "listing ?f (fifo_sort opts) ?m all" "ds = map (project [''_id'']) (limited (Some (nat k)) all)"
    using find_docs [OF msim_ok [OF assms(1)] ds(1)] by blast
  have ks: "map (get_oid ''_id'') ds = map Some ks" using ds(2) by (simp add: those_some)
  then have "length ks = length ds" by (metis length_map)
  also have "\<dots> \<le> nat k" unfolding all(2) length_map by (rule length_limited)
  finally show "length ids \<le> nat k" by (simp add: ds(3))
  assume "v \<in> set ids"
  then obtain q where q: "v = BOid q" "q \<in> set ks" using ds(3) by auto
  then have "Some q \<in> set (map (get_oid ''_id'') ds)" unfolding ks by simp
  then obtain d where d: "d \<in> set (limited (Some (nat k)) all)" "get_oid ''_id'' (project [''_id''] d) = Some q"
    unfolding all(2) by auto
  have "d \<in> set all" by (rule subsetD [OF set_limited d(1)])
  then obtain i where i: "?m i = Some d" "fmatch ?f d" using all(1) by (auto simp: listing_def)
  obtain p where p: "i = BOid p" "map_of d ''_id'' = Some (BOid p)" using tsim_lookup [OF msim_tsim [OF assms(1)] i(1)] by blast
  have "p = q" using d(2) p(2) by (simp add: get_field_def project_id)
  then have "v = i" using p(1) q(1) by simp
  with i q(1) show "\<exists>q d. v = BOid q \<and> mv_db mv s TasksCol v = Some d \<and> fmatch ?f d"
    by (intro exI [of _ q] exI [of _ d]) simp
qed

end

lemma batch_cases:
  assumes "mg_ClaimBatch_env dr env1 env2 now opts k s = (r, s')"
  obtains "\<exists>e. r = Inl e" "s' = s"
  | ids tok s1 e where "batch_candidates dr now opts k s = Inr ids" "dv_uuid dr (env1 s) = (tok, s1)"
      "dv_UpdateMany dr TasksCol (batch_guard now ids) (claimUpdate now (co_WorkerID opts) tok (co_Lease opts)) s1 = (Inl e, s')"
      "r = Inl (mg_err ''claim batch update'')"
  | ids tok s1 where "batch_candidates dr now opts k s = Inr ids" "dv_uuid dr (env1 s) = (tok, s1)"
      "dv_UpdateMany dr TasksCol (batch_guard now ids) (claimUpdate now (co_WorkerID opts) tok (co_Lease opts)) s1 = (Inr 0, s')"
      "r = Inr []"
  | ids tok s1 n s2 where "1 \<le> k" "batch_candidates dr now opts k s = Inr ids" "dv_uuid dr (env1 s) = (tok, s1)"
      "dv_UpdateMany dr TasksCol (batch_guard now ids) (claimUpdate now (co_WorkerID opts) tok (co_Lease opts)) s1 = (Inr n, s2)"
      "s' = env2 s2"
      "r = (case dv_Find dr TasksCol (batch_winners ids tok) [] None [] s' of
         Inl _ \<Rightarrow> Inl (mg_err ''claim batch fetch'')
       | Inr ds \<Rightarrow> all_results (map (decode_task dr ''claim batch fetch decode'') ds))"
proof (cases "batch_candidates dr now opts k s")
  case (Inl e)
  with assms that(1) show thesis by (auto simp: mg_ClaimBatch_env_def split: if_splits)
next
  case (Inr ids)
  obtain tok s1 where u: "dv_uuid dr (env1 s) = (tok, s1)" by fastforce
  obtain x s2 where x: "dv_UpdateMany dr TasksCol (batch_guard now ids)
      (claimUpdate now (co_WorkerID opts) tok (co_Lease opts)) s1 = (x, s2)" by fastforce
  show thesis
  proof (cases "k < 1 \<or> ids = []")
    case True
    with assms Inr that(1) show thesis by (auto simp: mg_ClaimBatch_env_def split: if_splits)
  next
    case go: False
    show thesis
    proof (cases x)
      case (Inl e)
      with assms Inr u x go that(2) [OF Inr u] show thesis by (simp add: mg_ClaimBatch_env_def)
    next
      case n: (Inr n)
      show thesis
      proof (cases "n = 0")
        case True
        with assms Inr u x go n that(3) [OF Inr u] show thesis by (simp add: mg_ClaimBatch_env_def)
      next
        case False
        have "s' = env2 s2" "r = (case dv_Find dr TasksCol (batch_winners ids tok) [] None [] s' of
         Inl _ \<Rightarrow> Inl (mg_err ''claim batch fetch'')
       | Inr ds \<Rightarrow> all_results (map (decode_task dr ''claim batch fetch decode'') ds))"
          using assms Inr u x go n False by (auto simp: mg_ClaimBatch_env_def split: sum.splits)
        with that(4) [OF _ Inr u] x n go show thesis by auto
      qed
    qed
  qed
qed

context mongo begin

lemma finite_taken: "msim dr mv s c \<Longrightarrow> finite (taken_ids f (mv_db mv s TasksCol))"
proof (rule finite_imageD)
  assume "msim dr mv s c"
  then have "finite (dom (mv_db mv s TasksCol))" by (rule msim_finite)
  then show "finite (BOid ` taken_ids f (mv_db mv s TasksCol))"
    by (rule finite_subset [rotated]) (auto simp: taken_ids_def)
qed (auto simp: inj_on_def)

lemma batch_claimed:
  fixes now w lease
  assumes "msim dr mv s c" "tok \<in> mv_tokens mv s" "tok \<noteq> []" "\<And>i. (i, tok) \<notin> c_issued c"
    and "writes_to mv TasksCol s s'"
    and "mv_db mv s' TasksCol = update_all (batch_guard now ids) (claimUpdate now w tok lease) (mv_db mv s TasksCol)"
    and "distinct ks" "set ks = taken_ids (batch_guard now ids) (mv_db mv s TasksCol)"
  shows "\<exists>c'. cexec c (map (\<lambda>k. Claimed (dv_hex dr k) tok now (bson_ms (add_time now lease))) ks) c' \<and> msim dr mv s' c'"
proof (rule batch_exec [OF assms(1-5,7)])
  show "\<forall>k \<in> set ks. \<exists>d. mv_db mv s TasksCol (BOid k) = Some d \<and> fmatch (batch_guard now ids) d"
    unfolding assms(8) by (simp add: taken_ids_def)
  show "mv_db mv s' TasksCol = updated_at ks (claimUpdate now w tok lease) (mv_db mv s TasksCol)"
    unfolding assms(6) by (rule update_all_at [OF msim_tsim [OF assms(1)] assms(8)])
qed

text \<open>With nobody else writing, the winners are exactly the documents the update took.\<close>

lemma winners_taken:
  assumes "tsim hx toks m c" "tok \<notin> toks" "tok \<noteq> []"
  shows "(\<exists>d. update_all (batch_guard now ids) (claimUpdate now w tok lease) m (BOid k) = Some d \<and>
      fmatch (batch_winners ids tok) d) \<longleftrightarrow> k \<in> taken_ids (batch_guard now ids) m"
proof (cases "m (BOid k)")
  case None
  then show ?thesis by (simp add: update_all_def taken_ids_def)
next
  case (Some d)
  obtain t where t: "map_of d ''_id'' = Some (BOid k)" "doc_ok toks d t"
    using tsim_lookup [OF assms(1) Some] by (metis bval.inject(4))
  have "map_of d ''lease_token'' \<noteq> Some (BStr tok)"
  proof
    assume "map_of d ''lease_token'' = Some (BStr tok)"
    then have "td_LeaseToken t = tok" by (rule token_field [OF t(2)])
    with t(2) assms(2,3) show False by (simp add: doc_ok_def)
  qed
  moreover have "BOid k \<in> set ids" if "fmatch (batch_guard now ids) d" by (rule guard_id [OF that t(1)])
  ultimately show ?thesis
    using Some t(1) by (auto simp: update_all_def taken_ids_def batch_winners_def claimed_fields)
qed

lemma batch_fetched:
  assumes "msim dr mv s c" "tok \<in> mv_tokens mv s" "tok \<noteq> []" "\<And>i. (i, tok) \<notin> c_issued c"
    and "tsim (dv_hex dr) toks (mv_db mv s TasksCol) c" "tok \<notin> toks"
    and "writes_to mv TasksCol s s'"
    and "mv_db mv s' TasksCol = update_all (batch_guard now ids) (claimUpdate now w tok lease) (mv_db mv s TasksCol)"
    and "dv_Find dr TasksCol (batch_winners ids tok) [] None [] s' = Inr ds"
    and "all_results (map (decode_task dr what) ds) = Inr ts"
  shows "\<exists>d ks. distinct ks \<and> map t_ID ts = map (dv_hex dr) ks \<and> BOid ` set ks \<subseteq> set ids \<and>
    cexec c (map (claim_event now) ts) d \<and> msim dr mv s' d \<and>
    (\<forall>t \<in> set ts. c_tasks d (t_ID t) = Some (abs_task t) \<and>
      (\<exists>k e u. BOid k \<in> set ids \<and> mv_db mv s TasksCol (BOid k) = Some e \<and> doc_ok toks e u \<and>
        t_Queue t = td_Queue u \<and> t_Type t = td_Type u))"
proof -
  let ?m = "mv_db mv s TasksCol" and ?u = "claimUpdate now w tok lease" and ?g = "batch_guard now ids"
  let ?until = "bson_ms (add_time now lease)"
  obtain qs where "set qs = taken_ids ?g ?m" "distinct qs" using finite_distinct_list [OF finite_taken [OF assms(1), of ?g]] by blast
  from batch_claimed [OF assms(1-4,7,8) this(2,1)] obtain c1 where c1: "msim dr mv s' c1" by blast
  from fetch_winners [OF this assms(9,10)] obtain ks where ks: "length ks = length ts"
    "map t_ID ts = map (dv_hex dr) ks" "distinct ks" "BOid ` set ks \<subseteq> set ids"
    "\<forall>k. k \<in> set ks \<longleftrightarrow> (\<exists>d. mv_db mv s' TasksCol (BOid k) = Some d \<and> fmatch (batch_winners ids tok) d)"
    "\<forall>j < length ts. \<exists>d. mv_db mv s' TasksCol (BOid (ks ! j)) = Some d \<and> decode_task dr what d = Inr (ts ! j) \<and>
      c_tasks c1 (t_ID (ts ! j)) = Some (abs_task (ts ! j))"
    by (elim exE conjE) (rule that, assumption+)
  have taken: "set ks = taken_ids ?g ?m"
    by (rule set_eqI) (simp only: ks(5) [rule_format] assms(8) winners_taken [OF assms(5,6,3)])
  from batch_claimed [OF assms(1-4,7,8) ks(3) this] obtain d where
    d: "cexec c (map (\<lambda>k. Claimed (dv_hex dr k) tok now ?until) ks) d" "msim dr mv s' d" by blast
  have each: "t_LeaseToken (ts ! j) = tok \<and> t_LeasedUntil (ts ! j) = ?until \<and>
      c_tasks d (t_ID (ts ! j)) = Some (abs_task (ts ! j)) \<and>
      (\<exists>e u. ?m (BOid (ks ! j)) = Some e \<and> doc_ok toks e u \<and> t_Queue (ts ! j) = td_Queue u \<and> t_Type (ts ! j) = td_Type u)"
    if j: "j < length ts" for j
  proof -
    have kj: "ks ! j \<in> taken_ids ?g ?m" using j ks(1) taken nth_mem by metis
    then obtain e where e: "?m (BOid (ks ! j)) = Some e" "fmatch ?g e" by (auto simp: taken_ids_def)
    obtain e' where e': "mv_db mv s' TasksCol (BOid (ks ! j)) = Some e'" "decode_task dr what e' = Inr (ts ! j)"
      using ks(6) j by blast
    then have "e' = uapply ?u e" using e unfolding assms(8) by (simp add: update_all_def)
    with e' have dec: "decode_task dr what (uapply ?u e) = Inr (ts ! j)" by simp
    obtain u where u: "doc_ok toks e u" using tsim_lookup [OF assms(5) e(1)] by blast
    have "c_tasks d (t_ID (ts ! j)) = Some (abs_task (ts ! j))"
      using decoded_task [OF msim_tsim [OF d(2)] e'] by blast
    with claimed_task [OF u dec] e(1) u show ?thesis by blast
  qed
  have "map (claim_event now) ts = map (\<lambda>k. Claimed (dv_hex dr k) tok now ?until) ks"
  proof (rule nth_equalityI)
    fix j assume "j < length (map (claim_event now) ts)"
    then have j: "j < length ts" by simp
    have "t_ID (ts ! j) = dv_hex dr (ks ! j)" using arg_cong [OF ks(2), of "\<lambda>xs. xs ! j"] j ks(1) by simp
    with each [OF j] j ks(1) show "map (claim_event now) ts ! j = map (\<lambda>k. Claimed (dv_hex dr k) tok now ?until) ks ! j"
      by (simp add: claim_event_def)
  qed (simp add: ks(1))
  with d(1) have ex: "cexec c (map (claim_event now) ts) d" by simp
  have all: "\<forall>t \<in> set ts. c_tasks d (t_ID t) = Some (abs_task t) \<and>
      (\<exists>k e u. BOid k \<in> set ids \<and> ?m (BOid k) = Some e \<and> doc_ok toks e u \<and> t_Queue t = td_Queue u \<and> t_Type t = td_Type u)"
  proof
    fix t assume "t \<in> set ts"
    then obtain j where j: "j < length ts" "t = ts ! j" by (metis in_set_conv_nth)
    have "BOid (ks ! j) \<in> set ids" using ks(1,4) j(1) by (auto simp: image_subset_iff)
    with each [OF j(1)] show "c_tasks d (t_ID t) = Some (abs_task t) \<and>
      (\<exists>k e u. BOid k \<in> set ids \<and> ?m (BOid k) = Some e \<and> doc_ok toks e u \<and> t_Queue t = td_Queue u \<and> t_Type t = td_Type u)"
      unfolding j(2) by blast
  qed
  show ?thesis using ks(2-4) ex d(2) all by blast
qed

end

lemma accepts_doc:
  assumes "fmatch (FAnd (runnableFilter now (co_Types opts) (co_Queues opts))) d" "doc_ok toks d u"
    and "t_Queue t = td_Queue u" "t_Type t = td_Type u"
  shows "accepts opts t"
  using runnable_accepts [OF assms(1,2)] assms(3,4) by (auto simp: accepts_def)

lemma card_oids: "distinct ks \<Longrightarrow> BOid ` set ks \<subseteq> set ids \<Longrightarrow> length ks \<le> length ids"
proof -
  assume a: "distinct ks" "BOid ` set ks \<subseteq> set ids"
  have "length ks = card (BOid ` set ks)" using a(1) by (simp add: card_image inj_on_def distinct_card)
  also have "\<dots> \<le> card (set ids)" using a(2) by (intro card_mono) simp_all
  also have "\<dots> \<le> length ids" by (rule card_length)
  finally show ?thesis .
qed

lemma update_all_none:
  assumes "card {i. update_all f u m i \<noteq> m i} = 0" "finite (dom m)"
  shows "update_all f u m = m"
proof -
  have "{i. update_all f u m i \<noteq> m i} \<subseteq> dom m"

  proof
    fix i assume "i \<in> {i. update_all f u m i \<noteq> m i}"
    then show "i \<in> dom m" by (cases "m i") (auto simp: update_all_def)
  qed
  then have "{i. update_all f u m i \<noteq> m i} = {}" using assms by (meson card_0_eq finite_subset)
  then show ?thesis by auto
qed

context mongo begin

lemma batch_updated:
  assumes "msim dr mv s c" "dv_uuid dr s = (tok, s1)"
    and "dv_UpdateMany dr TasksCol (batch_guard now ids) (claimUpdate now w tok lease) s1 = (x, s2)"
  shows "may_advance (msim dr mv) c {Claimed i tok now u | i tok u. True} s2"
proof -
  note tok = msim_token [OF assms(1,2)]
  have "writes_to mv TasksCol s1 s2 \<and> partly_updated (batch_guard now ids) (claimUpdate now w tok lease)
      (mv_db mv s1 TasksCol) (mv_db mv s2 TasksCol)"
  proof (cases x)
    case (Inl e)
    then show ?thesis using update_many_err [OF msim_ok [OF tok(1)]] assms(3) by simp
  next
    case (Inr n)
    then show ?thesis using update_many [OF msim_ok [OF tok(1)]] assms(3) by (simp add: update_all_partly)
  qed
  then show ?thesis using batch_partial [OF tok(1,3,2,4)] by blast
qed

lemma batch_any:
  assumes "msim dr mv s c" "mg_ClaimBatch dr now opts k s = (r, s')"
  shows "may_advance (msim dr mv) c {Claimed i tok now u | i tok u. True} s'"
  using assms(2) unfolding mg_ClaimBatch_def
  by (rule batch_cases) (use assms(1) batch_updated [OF assms(1)] in \<open>auto intro: may_advance_stay\<close>)

lemma batch_sim:
  assumes "msim dr mv s c" "mg_ClaimBatch dr now opts k s = (Inr ts, s')"
  shows "int (length ts) \<le> max 0 k \<and> distinct (map t_ID ts) \<and>
    (\<exists>d. cexec c (map (claim_event now) ts) d \<and> msim dr mv s' d \<and>
      (\<forall>t \<in> set ts. c_tasks d (t_ID t) = Some (abs_task t) \<and> accepts opts t))"
  using assms(2) unfolding mg_ClaimBatch_def
proof (rule batch_cases)
  fix ids tok s1
  assume u: "dv_uuid dr s = (tok, s1)" and r: "Inr ts = (Inr [] :: gerror + task list)"
    and x: "dv_UpdateMany dr TasksCol (batch_guard now ids) (claimUpdate now (co_WorkerID opts) tok (co_Lease opts)) s1 = (Inr 0, s')"
  note tok = msim_token [OF assms(1) u]
  note up = update_many [OF msim_ok [OF tok(1)] x]
  have eq: "mv_db mv s' TasksCol = update_all (batch_guard now ids) (claimUpdate now (co_WorkerID opts) tok (co_Lease opts))
      (mv_db mv s1 TasksCol)" using up by blast
  have "card {i. mv_db mv s' TasksCol i \<noteq> mv_db mv s1 TasksCol i} = 0"
    using conjunct2 [OF conjunct2 [OF up], THEN sym] by (simp only: of_nat_eq_0_iff)
  from update_all_none [OF this [unfolded eq] msim_finite [OF tok(1)]]
  have "mv_db mv s' TasksCol = mv_db mv s1 TasksCol" unfolding eq .
  then have "msim dr mv s' c" using msim_same [OF tok(1)] up by blast
  with r show ?thesis by auto
next
  fix ids tok s1 n s2
  assume k: "1 \<le> k" and cand: "batch_candidates dr now opts k s = Inr ids" and u: "dv_uuid dr s = (tok, s1)" and s': "s' = s2"
    and x: "dv_UpdateMany dr TasksCol (batch_guard now ids) (claimUpdate now (co_WorkerID opts) tok (co_Lease opts)) s1 = (Inr n, s2)"
    and r: "Inr ts = (case dv_Find dr TasksCol (batch_winners ids tok) [] None [] s' of
         Inl _ \<Rightarrow> Inl (mg_err ''claim batch fetch'')
       | Inr ds \<Rightarrow> all_results (map (decode_task dr ''claim batch fetch decode'') ds))"
  obtain ds where ds: "dv_Find dr TasksCol (batch_winners ids tok) [] None [] s' = Inr ds"
      "all_results (map (decode_task dr ''claim batch fetch decode'') ds) = Inr ts"
    using r by (cases "dv_Find dr TasksCol (batch_winners ids tok) [] None [] s'") simp_all
  note tok = msim_token [OF assms(1) u]
  have db: "mv_db mv s1 TasksCol = mv_db mv s TasksCol" using tok(5) by simp
  note up = update_many [OF msim_ok [OF tok(1)] x [folded s']]
  have sim: "tsim (dv_hex dr) (mv_tokens mv s) (mv_db mv s1 TasksCol) c" unfolding db by (rule msim_tsim [OF assms(1)])
  have new: "tok \<notin> mv_tokens mv s" using uuid [OF msim_ok [OF assms(1)] u] by blast
  have eq: "mv_db mv s' TasksCol = update_all (batch_guard now ids) (claimUpdate now (co_WorkerID opts) tok (co_Lease opts))
      (mv_db mv s1 TasksCol)" using up by blast
  from batch_fetched [OF tok(1,3,2,4) sim new conjunct1 [OF up] eq ds] obtain d ks where d: "distinct ks" "map t_ID ts = map (dv_hex dr) ks" "BOid ` set ks \<subseteq> set ids"
    "cexec c (map (claim_event now) ts) d" "msim dr mv s' d"
    "\<forall>t \<in> set ts. c_tasks d (t_ID t) = Some (abs_task t) \<and>
      (\<exists>k e u. BOid k \<in> set ids \<and> mv_db mv s1 TasksCol (BOid k) = Some e \<and> doc_ok (mv_tokens mv s) e u \<and>
        t_Queue t = td_Queue u \<and> t_Type t = td_Type u)"
    by (elim exE conjE) (rule that, assumption+)
  note cs = candidates_spec [OF assms(1) cand]
  have "length ts = length ks" using arg_cong [OF d(2), of length] by simp
  also have "\<dots> \<le> nat k" using card_oids [OF d(1,3)] cs(1) by simp
  finally have "int (length ts) \<le> max 0 k" using k by simp
  moreover have "distinct (map t_ID ts)"
    unfolding d(2) distinct_map using d(1) inj_on_subset [OF inj_hex subset_UNIV] by blast
  moreover have "\<forall>t \<in> set ts. c_tasks d (t_ID t) = Some (abs_task t) \<and> accepts opts t"
  proof
    fix t assume t: "t \<in> set ts"
    obtain q e v where q: "BOid q \<in> set ids" "mv_db mv s TasksCol (BOid q) = Some e" "doc_ok (mv_tokens mv s) e v"
        "t_Queue t = td_Queue v" "t_Type t = td_Type v"
      using d(6) t unfolding db by blast
    obtain e' where "mv_db mv s TasksCol (BOid q) = Some e'"
        "fmatch (FAnd (runnableFilter now (co_Types opts) (co_Queues opts))) e'"
      using cs(2) [OF q(1)] by blast
    with q(2) have "fmatch (FAnd (runnableFilter now (co_Types opts) (co_Queues opts))) e" by simp
    from accepts_doc [OF this q(3-5)] d(6) t show "c_tasks d (t_ID t) = Some (abs_task t) \<and> accepts opts t" by blast
  qed
  ultimately show ?thesis using d(4,5) by blast
qed (use assms(1) in auto)

end

end
