(* ===== verification/Mongo_Refine.thy ===== *)
theory Mongo_Refine
  imports Mongo_Claims
begin

text \<open>
  The remaining calls of the MongoDB store as runs of the contract machine, and the whole store as an
  implementation of the \<open>Store\<close> contract: over every server that behaves as the locale \<open>mongo\<close> says.
\<close>

section \<open>Single writes\<close>

lemma useq_one:
  assumes "update_seq [(f, u)] m n m'"
  obtains i d where "n = 1" "m i = Some d" "fmatch f d" "m' = m(i \<mapsto> uapply u d)"
  | "n = 0" "m' = m" "hits f m = {}"
  using assms by (elim useq_ConsE useq_NilE) auto

context mongo begin

lemma write_one_sim:
  assumes "msim dr mv s c" "dv_UpdateOne dr TasksCol f u False s = (x, s')"
    and step: "\<forall>i d. mv_db mv s TasksCol i = Some d \<longrightarrow> fmatch f d \<longrightarrow>
      (\<exists>c'. cstep c e c' \<and> tsim (dv_hex dr) (mv_tokens mv s) ((mv_db mv s TasksCol)(i \<mapsto> uapply u d)) c' \<and>
        c_limit c' = c_limit c \<and> c_issued c' = c_issued c)"
  shows "may_advance (msim dr mv) c {e} s'"
    "x = Inr n \<Longrightarrow> n \<noteq> 0 \<Longrightarrow> advances (msim dr mv) c [e] s'"
    "x = Inr 0 \<Longrightarrow> msim dr mv s' c \<and> hits f (mv_db mv s TasksCol) = {}"
proof -
  note ok = msim_ok [OF assms(1)]
  have hit: "advances (msim dr mv) c [e] s'"
    if h: "writes_to mv TasksCol s s'" "mv_db mv s TasksCol i = Some d" "fmatch f d"
      "mv_db mv s' TasksCol = (mv_db mv s TasksCol)(i \<mapsto> uapply u d)" for i d
  proof -
    obtain c' where "cstep c e c'" "msim dr mv s' c'"
      using step [rule_format, OF h(2,3)] msim_tasks [OF assms(1) h(1)] unfolding h(4) by blast
    then show ?thesis by (auto simp: advances_def intro: cexec_one)
  qed
  have seq: "n = 1 \<and> advances (msim dr mv) c [e] s' \<or> n = 0 \<and> msim dr mv s' c \<and> hits f (mv_db mv s TasksCol) = {}"
    if w: "writes_to mv TasksCol s s' \<and> update_seq [(f, u)] (mv_db mv s TasksCol) n (mv_db mv s' TasksCol)" for n
  proof -
    from w have "update_seq [(f, u)] (mv_db mv s TasksCol) n (mv_db mv s' TasksCol)" ..
    then show ?thesis
      by (rule useq_one) (use w hit msim_same [OF assms(1)] in blast)+
  qed
  show "x = Inr n \<Longrightarrow> n \<noteq> 0 \<Longrightarrow> advances (msim dr mv) c [e] s'"
    using update_one [OF ok, of TasksCol f u n s'] seq [of n] assms(2) by blast
  show "x = Inr 0 \<Longrightarrow> msim dr mv s' c \<and> hits f (mv_db mv s TasksCol) = {}"
    using update_one [OF ok, of TasksCol f u 0 s'] seq [of 0] assms(2) by simp
  show "may_advance (msim dr mv) c {e} s'"
  proof (cases x)
    case (Inl err)
    with update_one_err [OF ok] assms(2) have w: "writes_to mv TasksCol s s'"
        "mv_db mv s' TasksCol = mv_db mv s TasksCol \<or> (\<exists>n. update_seq [(f, u)] (mv_db mv s TasksCol) n (mv_db mv s' TasksCol))"
      by blast+
    then show ?thesis
      using seq msim_same [OF assms(1) w(1)] by (metis advances_one insertI1 may_advance_stay)
  next
    case (Inr n)
    with update_one [OF ok] assms(2) have "writes_to mv TasksCol s s' \<and> update_seq [(f, u)] (mv_db mv s TasksCol) n (mv_db mv s' TasksCol)"
      by blast
    from seq [OF this] show ?thesis by (metis advances_one insertI1 may_advance_stay)
  qed
qed

lemma write_many_sim:
  assumes "msim dr mv s c" "dv_UpdateMany dr TasksCol f u s = (x, s')" "keeps_id u"
    and step: "\<And>c k d t. doc_ok (mv_tokens mv s) d t \<Longrightarrow> fmatch f d \<Longrightarrow> c_tasks c (dv_hex dr k) = Some (abs_doc t) \<Longrightarrow>
      \<exists>t'. doc_ok (mv_tokens mv s) (uapply u d) t' \<and> cstep c (ev (dv_hex dr k)) (put c (dv_hex dr k) (abs_doc t'))"
  shows "may_advance (msim dr mv) c (range ev) s'"
proof -
  have w: "writes_to mv TasksCol s s' \<and> partly_updated f u (mv_db mv s TasksCol) (mv_db mv s' TasksCol)"
  proof (cases x)
    case (Inl e)
    then show ?thesis using update_many_err [OF msim_ok [OF assms(1)]] assms(2) by simp
  next
    case (Inr n)
    then show ?thesis using update_many [OF msim_ok [OF assms(1)]] assms(2) by (simp add: update_all_partly)
  qed
  have "\<exists>ks c'. cexec c (map (\<lambda>k. ev (dv_hex dr k)) ks) c' \<and>
      tsim (dv_hex dr) (mv_tokens mv s) (mv_db mv s' TasksCol) c' \<and> c_limit c' = c_limit c \<and> c_issued c' = c_issued c"
    by (rule many_sim [OF msim_tsim [OF assms(1)] inj_hex msim_finite [OF assms(1)] conjunct2 [OF w] assms(3) step])
  then obtain ks c' where "cexec c (map (\<lambda>k. ev (dv_hex dr k)) ks) c'" "msim dr mv s' c'"
    using msim_tasks [OF assms(1) conjunct1 [OF w]] by blast
  then show ?thesis by (rule may_advance_exec) auto
qed

end

section \<open>The remaining calls\<close>

text \<open>
  \<open>ObjectIDFromHex\<close> reads ids in either case, \<open>Hex\<close> prints lower case. The contract's laws are about
  ids in the printed form, the only ones the store hands out; another spelling of an id counts as unknown.
\<close>

definition strict_ids :: "'s driver \<Rightarrow> 's driver" where
  "strict_ids dr = dr\<lparr>dv_unhex := (\<lambda>i. case dv_unhex dr i of None \<Rightarrow> None
     | Some k \<Rightarrow> if dv_hex dr k = i then Some k else None)\<rparr>"

locale mongo_exact = mongo +
  assumes unhex: "dv_unhex dr i = Some k \<Longrightarrow> dv_hex dr k = i"

lemma mg_Complete_outcome:
  "mg_Complete dr now t r s = (case outcome_write dr now
      \<lparr>o_Task = t, o_Result = r, o_Failure = None, o_RetryAt = 0, o_Terminal = False\<rparr> of
     Inl e \<Rightarrow> (Some e, s) | Inr w \<Rightarrow> send_fenced dr ''complete'' w s)"
  by (simp add: mg_Complete_def outcome_write_def)

lemma mg_Fail_outcome:
  "mg_Fail dr now t f ra terminal s = (case outcome_write dr now
      \<lparr>o_Task = t, o_Result = [], o_Failure = Some f, o_RetryAt = ra, o_Terminal = terminal\<rparr> of
     Inl e \<Rightarrow> (Some e, s) | Inr w \<Rightarrow> send_fenced dr ''fail'' w s)"
  by (simp add: mg_Fail_def outcome_write_def)

lemma outcome_write_err: "outcome_write dr now r = Inl e \<Longrightarrow> e \<noteq> ErrLeaseLost"
  by (auto simp: outcome_write_def completeWrite_def failWrite_def oid_of_def jsonToRaw_def mg_err_def Let_def
      split: option.splits sum.splits if_splits)

lemma send_fenced_cases:
  assumes "send_fenced dr what w s = (e, s')"
  obtains x where "dv_UpdateOne dr TasksCol (fst w) (snd w) False s = (x, s')"
    "e = (case x of Inl _ \<Rightarrow> Some (mg_err what) | Inr n \<Rightarrow> if n = 0 then Some ErrLeaseLost else None)"
  using assms by (cases "dv_UpdateOne dr TasksCol (fst w) (snd w) False s")
    (auto simp: send_fenced_def split: sum.splits)

lemma extended_ok:
  assumes "doc_ok toks d t" "u = UpOps [USet [(''leased_until'', btime until), (''updated_at'', btime now)]]"
  shows "doc_ok toks (uapply u d) (extended_doc now until t)"
proof -
  have d: "td_decode d = Some t" "null_free d" using assms(1) by (simp_all add: doc_ok_def)
  have "map_of (uapply u d) ''leased_until'' \<noteq> None" by (simp add: assms(2))
  then show ?thesis using extend_decode [OF d assms(2)] assms(1) by (simp add: doc_ok_def extended_doc_def)
qed

lemma requeued_ok:
  assumes "doc_ok toks d t"
  shows "doc_ok toks (uapply (requeueUpdate now) d) (requeued_doc now t)"
proof -
  have d: "td_decode d = Some t" "null_free d" using assms by (simp_all add: doc_ok_def)
  show ?thesis using requeue_decode [OF d] by (simp add: doc_ok_def requeued_doc_def)
qed

lemma reaped_ok:
  assumes "doc_ok toks d t"
  shows "doc_ok toks (uapply (reapUpdate now) d) (reaped_doc now t)"
proof -
  have d: "td_decode d = Some t" "null_free d" using assms by (simp_all add: doc_ok_def)
  show ?thesis using reap_decode [OF d] by (simp add: doc_ok_def reaped_doc_def)
qed

lemma abs_requeued: "abs_doc (requeued_doc now t) = (abs_doc t)\<lparr>a_state := APending (bson_ms now), a_attempts := 0\<rparr>"
  by (simp add: abs_doc_def requeued_doc_def)

lemma abs_reaped: "abs_doc (reaped_doc now t) = (abs_doc t)\<lparr>a_state := ADead, a_key := []\<rparr>"
  by (simp add: abs_doc_def reaped_doc_def)

lemma requeue_event:
  assumes "doc_ok toks d t" "map_of d ''status'' = Some (BStr ''dead'')" "c_tasks c j = Some (abs_doc t)"
  shows "\<exists>t'. doc_ok toks (uapply (requeueUpdate now) d) t' \<and> cstep c (Requeued j) (put c j (abs_doc t'))"
proof -
  have "a_state (abs_doc t) = ADead" using status_field [OF assms(1,2)] by (simp add: abs_doc_running)
  then have "cstep c (Requeued j) (put c j (abs_doc (requeued_doc now t)))"
    unfolding abs_requeued by (rule cstep.requeued [OF assms(3)])
  with requeued_ok [OF assms(1)] show ?thesis by blast
qed

lemma reap_event:
  assumes "doc_ok toks d t" "fmatch (reapFilter now) d" "c_tasks c j = Some (abs_doc t)"
  shows "\<exists>t'. doc_ok toks (uapply (reapUpdate now) d) t' \<and> cstep c (Reaped j now) (put c j (abs_doc t'))"
proof -
  have m: "map_of d ''status'' = Some (BStr ''running'')" "\<exists>r. map_of d ''leased_until'' = Some (BTime r) \<and> r < bson_ms now"
      "td_MaxAttempts t \<le> td_Attempts t"
    using assms(2) attempts_fields [OF assms(1)] by (auto simp: reapFilter_def btime_def time_lt vlt_def)
  then obtain r where r: "map_of d ''leased_until'' = Some (BTime r)" "r < bson_ms now" by blast
  have st: "a_state (abs_doc t) = ARunning (td_LeaseToken t) (td_LeasedUntil t)"
    using status_field [OF assms(1) m(1)] by (simp add: abs_doc_running)
  have "td_LeasedUntil t < now" using until_field [OF assms(1) r(1)] r(2) bson_ms_le [of now] by simp
  then have "cstep c (Reaped j now) (put c j (abs_doc (reaped_doc now t)))"
    unfolding abs_reaped using m(3) by (intro cstep.reaped [OF assms(3) st]) simp_all
  with reaped_ok [OF assms(1)] show ?thesis by blast
qed

lemma event_step:
  assumes "tsim hx toks m c" "inj hx" "m i = Some d" "keeps_id u" "map_of d ''_id'' = Some (BOid k)"
    and step: "\<And>t. doc_ok toks d t \<Longrightarrow> td_ID t = k \<Longrightarrow> c_tasks c (hx k) = Some (abs_doc t) \<Longrightarrow>
      \<exists>t'. doc_ok toks (uapply u d) t' \<and> cstep c e (put c (hx k) (abs_doc t'))"
  shows "\<exists>c'. cstep c e c' \<and> tsim hx toks (m(i \<mapsto> uapply u d)) c' \<and> c_limit c' = c_limit c \<and> c_issued c' = c_issued c"
proof -
  have i: "i = BOid k" using tsim_lookup [OF assms(1,3)] assms(5) by (metis option.inject)
  have "\<exists>c'. cstep c e c' \<and> tsim hx toks (m(BOid k \<mapsto> uapply u d)) c' \<and> (c_limit c' = c_limit c \<and> c_issued c' = c_issued c)"
  proof (rule step_event [OF assms(1,2) assms(3) [unfolded i] assms(4)])
    fix t assume t: "doc_ok toks d t" "td_ID t = k" "c_tasks c (hx k) = Some (abs_doc t)"
    from step [OF t] obtain t' where "doc_ok toks (uapply u d) t'" "cstep c e (put c (hx k) (abs_doc t'))" by blast
    then show "\<exists>t' c'. doc_ok toks (uapply u d) t' \<and> cstep c e c' \<and>
        c_tasks c' = (c_tasks c)(hx k \<mapsto> abs_doc t') \<and> c_limit c' = c_limit c \<and> c_issued c' = c_issued c"
      by (intro exI [of _ t'] exI [of _ "put c (hx k) (abs_doc t')"]) simp
  qed
  with i show ?thesis by simp
qed

lemma bulk_outcomes:
  assumes "map (outcome_write dr now) os = map Inr ws" "mset vs \<subseteq># mset ws"
  shows "\<exists>rs. set rs \<subseteq> set os \<and> list_all2 (\<lambda>r w. outcome_write dr now r = Inr w) rs vs"
proof -
  have lw: "list_all2 (\<lambda>w r. outcome_write dr now r = Inr w) ws os"
    using assms(1) by (auto simp: list_all2_conv_all_nth list_eq_iff_nth_eq)
  obtain M where "mset ws = mset vs + M" using assms(2) by (auto simp: mset_subset_eq_exists_conv)
  moreover obtain rest where "mset rest = M" using ex_mset by blast
  ultimately have rest: "mset ws = mset (vs @ rest)" by simp
  obtain rs' where rs': "list_all2 (\<lambda>w r. outcome_write dr now r = Inr w) (vs @ rest) rs'" "mset rs' = mset os"
    using list_all2_reorder_left_invariance [OF lw rest [symmetric]] by blast
  then obtain rs us where rs: "rs' = rs @ us" "list_all2 (\<lambda>w r. outcome_write dr now r = Inr w) vs rs"
    by (auto simp: list_all2_append1)
  have "set rs \<subseteq> set os" using rs'(2) rs(1) by (metis Un_upper1 set_append set_mset_mset)
  moreover have "list_all2 (\<lambda>r w. outcome_write dr now r = Inr w) rs vs" using rs(2) by (auto simp: list_all2_conv_all_nth)
  ultimately show ?thesis by blast
qed

context mongo_exact begin

lemma outcome_fenced:
  assumes "msim dr mv s c" "outcome_write dr now r = Inr (f, u)" "send_fenced dr what (f, u) s = (e, s')"
  shows "may_advance (msim dr mv) c {outcome_event r} s'"
    "e = None \<Longrightarrow> advances (msim dr mv) c [outcome_event r] s'"
    "e = Some ErrLeaseLost \<Longrightarrow> msim dr mv s' c \<and> \<not> live c (t_ID (o_Task r)) (t_LeaseToken (o_Task r))"
proof -
  obtain x where x: "dv_UpdateOne dr TasksCol f u False s = (x, s')"
      "e = (case x of Inl _ \<Rightarrow> Some (mg_err what) | Inr n \<Rightarrow> if n = 0 then Some ErrLeaseLost else None)"
    using send_fenced_cases [OF assms(3)] by auto
  have "\<forall>i d. mv_db mv s TasksCol i = Some d \<longrightarrow> fmatch f d \<longrightarrow>
      (\<exists>c'. cstep c (outcome_event r) c' \<and> tsim (dv_hex dr) (mv_tokens mv s) ((mv_db mv s TasksCol)(i \<mapsto> uapply u d)) c' \<and>
        c_limit c' = c_limit c \<and> c_issued c' = c_issued c)"
    using outcome_step [OF msim_tsim [OF assms(1)] inj_hex _ _ assms(2) unhex] by blast
  note one = write_one_sim [OF assms(1) x(1) this]
  show "may_advance (msim dr mv) c {outcome_event r} s'" by (rule one(1))
  show "advances (msim dr mv) c [outcome_event r] s'" if "e = None"
    using that x(2) one(2) by (auto split: sum.splits if_splits)
  show "msim dr mv s' c \<and> \<not> live c (t_ID (o_Task r)) (t_LeaseToken (o_Task r))" if "e = Some ErrLeaseLost"
  proof -
    have "x = Inr 0" using that x(2) by (auto simp: mg_err_def split: sum.splits if_splits)
    from one(3) [OF this] have no: "msim dr mv s' c" "hits f (mv_db mv s TasksCol) = {}" by blast+
    obtain k where k: "dv_unhex dr (t_ID (o_Task r)) = Some k" "f = leaseFilter k (t_LeaseToken (o_Task r))"
      by (rule outcome_filter [OF assms(2)])
    have "\<not> live c (dv_hex dr k) (t_LeaseToken (o_Task r))"
      using live_hits [OF msim_tsim [OF assms(1)] inj_hex] no(2) k(2) by blast
    with no(1) unhex [OF k(1)] show ?thesis by simp
  qed
qed

lemma outcome_call:
  assumes "msim dr mv s c"
    and "(case outcome_write dr now r of Inl e \<Rightarrow> (Some e, s) | Inr w \<Rightarrow> send_fenced dr what w s) = (e, s')"
  shows "may_advance (msim dr mv) c {outcome_event r} s'"
    "e = None \<Longrightarrow> advances (msim dr mv) c [outcome_event r] s'"
    "e = Some ErrLeaseLost \<Longrightarrow> msim dr mv s' c \<and> \<not> live c (t_ID (o_Task r)) (t_LeaseToken (o_Task r))"
proof -
  show "may_advance (msim dr mv) c {outcome_event r} s'"
    using assms outcome_fenced(1) [OF assms(1)]
    by (cases "outcome_write dr now r") (auto intro: may_advance_stay)
  show "e = None \<Longrightarrow> advances (msim dr mv) c [outcome_event r] s'"
    using assms outcome_fenced(2) [OF assms(1)] by (cases "outcome_write dr now r") auto
  show "e = Some ErrLeaseLost \<Longrightarrow> msim dr mv s' c \<and> \<not> live c (t_ID (o_Task r)) (t_LeaseToken (o_Task r))"
    using assms(2) outcome_fenced(3) [OF assms(1), of now r _ _ what e s'] outcome_write_err [of dr now r]
    by (cases "outcome_write dr now r") auto
qed

lemma extend_sim:
  assumes "msim dr mv s c" "mg_ExtendLease dr now t l s = (r, s')"
  shows "may_advance (msim dr mv) c {Extended (t_ID t) (t_LeaseToken t)} s'"
    "r = Inr until \<Longrightarrow> advances (msim dr mv) c [Extended (t_ID t) (t_LeaseToken t)] s'"
proof -
  let ?e = "Extended (t_ID t) (t_LeaseToken t)"
  let ?u = "UpOps [USet [(''leased_until'', btime (add_time now l)), (''updated_at'', btime now)]]"
  have both: "may_advance (msim dr mv) c {?e} s' \<and> (\<forall>until. r = Inr until \<longrightarrow> advances (msim dr mv) c [?e] s')"
  proof (cases "oid_of dr (t_ID t)")
    case (Inl e)
    with assms show ?thesis by (auto simp: mg_ExtendLease_def intro: may_advance_stay)
  next
    case (Inr k)
    then have k: "dv_hex dr k = t_ID t" by (auto simp: oid_of_def intro: unhex split: option.splits)
    obtain e where e: "send_fenced dr ''extend lease'' (leaseFilter k (t_LeaseToken t), ?u) s = (e, s')"
        "r = (case e of Some x \<Rightarrow> Inl x | None \<Rightarrow> Inr (add_time now l))"
      using assms(2) Inr by (auto simp: mg_ExtendLease_def split: prod.splits option.splits)
    obtain x where x: "dv_UpdateOne dr TasksCol (leaseFilter k (t_LeaseToken t)) ?u False s = (x, s')"
        "e = (case x of Inl _ \<Rightarrow> Some (mg_err ''extend lease'') | Inr n \<Rightarrow> if n = 0 then Some ErrLeaseLost else None)"
      using send_fenced_cases [OF e(1)] by auto
    have step: "\<exists>c'. cstep c ?e c' \<and> tsim (dv_hex dr) (mv_tokens mv s) ((mv_db mv s TasksCol)(i \<mapsto> uapply ?u d)) c' \<and>
        c_limit c' = c_limit c \<and> c_issued c' = c_issued c"
      if d: "mv_db mv s TasksCol i = Some d" "fmatch (leaseFilter k (t_LeaseToken t)) d" for i d
    proof -
      have m: "map_of d ''_id'' = Some (BOid k)" "map_of d ''lease_token'' = Some (BStr (t_LeaseToken t))"
          "map_of d ''status'' = Some (BStr ''running'')"
        using d(2) by (simp_all add: lease_match)
      show ?thesis
      proof (rule event_step [OF msim_tsim [OF assms(1)] inj_hex d(1) keeps_id_extend m(1)])
        fix td assume td: "doc_ok (mv_tokens mv s) d td" "c_tasks c (dv_hex dr k) = Some (abs_doc td)"
        have st: "a_state (abs_doc td) = ARunning (t_LeaseToken t) (td_LeasedUntil td)"
          using status_field [OF td(1) m(3)] token_field [OF td(1) m(2)] by (simp add: abs_doc_running)
        have run: "td_Status td = ''running''" by (rule status_field [OF td(1) m(3)])
        let ?d = "extended_doc now (add_time now l) td"
        have "abs_doc ?d = (abs_doc td)\<lparr>a_state := ARunning (t_LeaseToken t) (bson_ms (add_time now l))\<rparr>"
          using run token_field [OF td(1) m(2)] by (simp add: abs_doc_def extended_doc_def)
        then have "cstep c ?e (put c (dv_hex dr k) (abs_doc ?d))"
          using cstep.extended [OF td(2) st] k by simp
        with extended_ok [OF td(1) refl] show "\<exists>t'. doc_ok (mv_tokens mv s) (uapply ?u d) t' \<and>
            cstep c ?e (put c (dv_hex dr k) (abs_doc t'))"
          by blast
      qed
    qed
    have "\<forall>i d. mv_db mv s TasksCol i = Some d \<longrightarrow> fmatch (leaseFilter k (t_LeaseToken t)) d \<longrightarrow>
      (\<exists>c'. cstep c ?e c' \<and> tsim (dv_hex dr) (mv_tokens mv s) ((mv_db mv s TasksCol)(i \<mapsto> uapply ?u d)) c' \<and>
        c_limit c' = c_limit c \<and> c_issued c' = c_issued c)"
      using step by blast
    note one = write_one_sim [OF assms(1) x(1) this]
    show ?thesis
    proof (intro conjI allI impI)
      show "may_advance (msim dr mv) c {?e} s'" by (rule one(1))
      fix until assume "r = Inr until"
      then obtain n where "x = Inr n" "n \<noteq> 0" using e(2) x(2) by (auto split: sum.splits option.splits if_splits)
      then show "advances (msim dr mv) c [?e] s'" by (rule one(2))
    qed
  qed
  then show "may_advance (msim dr mv) c {?e} s'" "r = Inr until \<Longrightarrow> advances (msim dr mv) c [?e] s'" by blast+
qed

end

text \<open>The table of the store's methods; a call that takes no time reads the clock \<open>clk\<close>.\<close>

definition mongostore_ops :: "'s driver \<Rightarrow> nat \<Rightarrow> ('s \<Rightarrow> gtime) \<Rightarrow> 's store" where
  "mongostore_ops dr chunk clk = \<lparr>
     st_Enqueue = mg_Enqueue dr chunk, st_Claim = mg_Claim dr, st_ClaimBatch = mg_ClaimBatch dr,
     st_Complete = mg_Complete dr, st_Fail = mg_Fail dr, st_ExtendLease = mg_ExtendLease dr,
     st_FinalizeBatch = (\<lambda>clock. mg_FinalizeBatch dr (clock 0)), st_Requeue = mg_Requeue dr,
     st_RequeueDead = mg_RequeueDead dr,
     st_RegisterQueues = (\<lambda>qs s. mg_RegisterQueues dr (clk s) qs s),
     st_ReapExpired = mg_ReapExpired dr, st_EnsureMetrics = mg_EnsureMetrics dr,
     st_SnapshotMetrics = (\<lambda>qs w iv s. mg_SnapshotMetrics dr (clk s) qs w iv s),
     st_RecordCounters = mg_RecordCounters dr\<rparr>"

context mongo begin

lemma requeue_dead_sim:
  assumes "msim dr mv s c" "mg_RequeueDead dr now ty s = (n, s')"
  shows "may_advance (msim dr mv) c (range Requeued) s'"
proof -
  let ?f = "FAnd (FField ''status'' (CEq (BStr ''dead'')) #
             (if ty \<noteq> [] then [FField ''type'' (CEq (BStr ty))] else []))"
  obtain x where "dv_UpdateMany dr TasksCol ?f (requeueUpdate now) s = (x, s')"
    using assms(2) by (auto simp: mg_RequeueDead_def split: prod.splits sum.splits)
  from write_many_sim [OF assms(1) this keeps_id_requeue] show ?thesis
    using requeue_event by fastforce
qed

lemma reap_sim:
  assumes "msim dr mv s c" "mg_ReapExpired dr now s = (n, s')"
  shows "may_advance (msim dr mv) c {Reaped i now | i. True} s'"
proof -
  obtain x where "dv_UpdateMany dr TasksCol (reapFilter now) (reapUpdate now) s = (x, s')"
    using assms(2) by (auto simp: mg_ReapExpired_def split: prod.splits sum.splits)
  from write_many_sim [OF assms(1) this keeps_id_reap, of "\<lambda>i. Reaped i now"]
  have "may_advance (msim dr mv) c (range (\<lambda>i. Reaped i now)) s'" using reap_event by blast
  then show ?thesis by (rule may_advance_mono) auto
qed

lemma register_one_sim:
  assumes "msim dr mv s c" "register_one dr (\<lambda>s. s) now q s = (e, s')"
  shows "msim dr mv s' c"
proof -
  have "s' = s \<or> (\<exists>r. dv_InsertOne dr QueuesCol (qd_marshal (toQueueDoc q now)) s = (r, s'))"
    using assms(2) by (auto simp: register_one_def split: sum.splits serr.splits prod.splits option.splits if_splits)
  then show ?thesis
    using assms(1) insert_one [OF msim_ok [OF assms(1)]] msim_other [OF assms(1)] by blast
qed

lemma register_sim: "msim dr mv s c \<Longrightarrow> register_all dr (\<lambda>s. s) now qs s = (e, s') \<Longrightarrow> msim dr mv s' c"
proof (induction qs arbitrary: s)
  case (Cons q qs)
  obtain e1 s1 where q: "register_one dr (\<lambda>s. s) now q s = (e1, s1)" by fastforce
  have "msim dr mv s1 c" by (rule register_one_sim [OF Cons.prems(1) q])
  with Cons q show ?case by (cases e1) auto
qed simp

lemma ensure_sim:
  assumes "msim dr mv s c" "mg_EnsureMetrics dr ret s = (e, s')"
  shows "msim dr mv s' c"
proof -
  have keep: "msim dr mv s2 c" if "msim dr mv s1 c" "mv_ok mv s2 \<and> mv_ids mv s2 = mv_ids mv s1 \<and>
      mv_tokens mv s2 = mv_tokens mv s1 \<and> mv_db mv s2 = mv_db mv s1" for s1 s2
    using that by (simp add: msim_def)
  obtain r s1 where r: "dv_CreateMetricsIndexes dr (retention_secs ret) s = (r, s1)" by fastforce
  have m1: "msim dr mv s1 c" using metrics_indexes [OF msim_ok [OF assms(1)] r] by (rule keep [OF assms(1)])
  obtain r2 s2 where r2: "dv_CollModTTL dr (retention_secs ret) s1 = (r2, s2)" by fastforce
  have "msim dr mv s2 c" using coll_mod [OF msim_ok [OF m1] r2] by (rule keep [OF m1])
  moreover have "s' = s1 \<or> s' = s2"
    using assms(2) r r2 by (auto simp: mg_EnsureMetrics_def split: option.splits if_splits)
  ultimately show ?thesis using m1 by blast
qed

lemma snapshot_sim:
  "msim dr mv s c \<Longrightarrow> mg_SnapshotMetrics dr now qs w iv s = (e, s') \<Longrightarrow> msim dr mv s' c"
proof (induction qs arbitrary: s)
  case (Cons q qs)
  show ?case
  proof (cases "gauges_doc dr now q w iv s")
    case (Inl e)
    with Cons.prems show ?thesis by simp
  next
    case (Inr doc)
    obtain r s1 where r: "dv_InsertOne dr MetricsCol (md_marshal doc) s = (r, s1)" by fastforce
    have "msim dr mv s1 c"
      using insert_one [OF msim_ok [OF Cons.prems(1)] r] msim_other [OF Cons.prems(1)] by blast
    with Cons Inr r show ?thesis by (cases r) (auto split: if_splits)
  qed
qed simp

lemma counters_sim:
  assumes "msim dr mv s c" "mg_RecordCounters dr mid w iv cs s = (e, s')"
  shows "msim dr mv s' c"
proof (cases "cs = []")
  case True
  with assms show ?thesis by (simp add: mg_RecordCounters_def)
next
  case False
  then obtain r where "dv_InsertMany dr MetricsCol (map (md_marshal \<circ> counters_doc mid w iv) cs) s = (r, s')"
    using assms(2) by (auto simp: mg_RecordCounters_def split: prod.splits option.splits)
  from insert_many [OF msim_ok [OF assms(1)] this] msim_other [OF assms(1)] show ?thesis by blast
qed

end

context mongo_exact begin

lemma finalize_sim:
  assumes "msim dr mv s c" "mg_FinalizeBatch dr now os s = ((lost, e), s')"
  shows "may_advance (msim dr mv) c (outcome_event ` set os) s' \<and>
    (e = None \<longrightarrow> (\<exists>rs. set rs \<subseteq> set os \<and> lost = int (length os) - int (length rs) \<and>
      advances (msim dr mv) c (map outcome_event rs) s'))"
proof (cases "os = []")
  case True
  with assms show ?thesis by (auto simp: mg_FinalizeBatch_def intro: may_advance_stay advances_nil)
next
  case False
  show ?thesis
  proof (cases "all_results (map (outcome_write dr now) os)")
    case (Inl x)
    with assms False show ?thesis by (auto simp: mg_FinalizeBatch_def intro: may_advance_stay)
  next
    case (Inr ws)
    then have ws: "map (outcome_write dr now) os = map Inr ws" by (simp add: all_results_Inr)
    obtain x where x: "dv_BulkWrite dr TasksCol ws s = (x, s')"
      "e = (case x of Inl _ \<Rightarrow> Some (mg_err ''finalize batch'') | Inr n \<Rightarrow> None)"
      "\<And>n. x = Inr n \<Longrightarrow> lost = int (length os) - n"
      using assms(2) False Inr by (cases "dv_BulkWrite dr TasksCol ws s") (auto simp: mg_FinalizeBatch_def split: sum.splits)
    obtain vs n where vs: "writes_to mv TasksCol s s'" "mset vs \<subseteq># mset ws"
        "update_seq vs (mv_db mv s TasksCol) n (mv_db mv s' TasksCol)" "\<And>m. x = Inr m \<Longrightarrow> m = n"
    proof (cases x)
      case (Inl err)
      from bulk_write_err [OF msim_ok [OF assms(1)] x(1) [unfolded Inl]] obtain vs n where
        "writes_to mv TasksCol s s'" "mset vs \<subseteq># mset ws" "update_seq vs (mv_db mv s TasksCol) n (mv_db mv s' TasksCol)"
        by blast
      then show thesis by (rule that) (simp add: Inl)
    next
      case (Inr m)
      from bulk_write [OF msim_ok [OF assms(1)] x(1) [unfolded Inr]] obtain vs where
        "writes_to mv TasksCol s s'" "mset vs = mset ws" "update_seq vs (mv_db mv s TasksCol) m (mv_db mv s' TasksCol)"
        by blast
      then show thesis by (intro that [of vs m]) (simp_all add: Inr)
    qed
    obtain rs where rs: "set rs \<subseteq> set os" "list_all2 (\<lambda>r w. outcome_write dr now r = Inr w) rs vs"
      using bulk_outcomes [OF ws vs(2)] by blast
    have "\<exists>qs c'. set qs \<subseteq> set rs \<and> n = int (length qs) \<and> cexec c (map outcome_event qs) c' \<and>
        tsim (dv_hex dr) (mv_tokens mv s) (mv_db mv s' TasksCol) c' \<and> c_limit c' = c_limit c \<and> c_issued c' = c_issued c"
      by (rule outcomes_sim [OF vs(3) rs(2) msim_tsim [OF assms(1)] inj_hex]) (rule unhex)
    then obtain qs c' where qs: "set qs \<subseteq> set rs" "n = int (length qs)" "cexec c (map outcome_event qs) c'"
        "tsim (dv_hex dr) (mv_tokens mv s) (mv_db mv s' TasksCol) c'" "c_limit c' = c_limit c" "c_issued c' = c_issued c"
      by blast
    have m: "msim dr mv s' c'" by (rule msim_tasks [OF assms(1) vs(1) qs(4-6)])
    have "may_advance (msim dr mv) c (outcome_event ` set os) s'"
      using qs(1) rs(1) by (intro may_advance_exec [of c "map outcome_event qs" c' "msim dr mv" s', OF qs(3) m]) auto
    moreover have "\<exists>rs. set rs \<subseteq> set os \<and> lost = int (length os) - int (length rs) \<and>
        advances (msim dr mv) c (map outcome_event rs) s'" if e: "e = None"
    proof -
      obtain m' where "x = Inr m'" using e x(2) by (auto split: sum.splits)
      with x(3) vs(4) qs(2) have "lost = int (length os) - int (length qs)" by simp
      with qs(1) rs(1) advances_exec [of c "map outcome_event qs" c' "msim dr mv" s', OF qs(3) m] show ?thesis by (intro exI [of _ qs]) auto
    qed
    ultimately show ?thesis by blast
  qed
qed

lemma complete_sim:
  assumes "msim dr mv s c" "mg_Complete dr now t r s = (e, s')"
  shows "may_advance (msim dr mv) c {Completed (t_ID t) (t_LeaseToken t)} s'"
    "e = None \<Longrightarrow> advances (msim dr mv) c [Completed (t_ID t) (t_LeaseToken t)] s'"
    "e = Some ErrLeaseLost \<Longrightarrow> msim dr mv s' c \<and> \<not> live c (t_ID t) (t_LeaseToken t)"
  using outcome_call [OF assms(1) assms(2) [unfolded mg_Complete_outcome]] by (simp_all add: outcome_event_def)

lemma fail_sim:
  assumes "msim dr mv s c" "mg_Fail dr now t f ra terminal s = (e, s')"
  shows "may_advance (msim dr mv) c {if terminal then Died (t_ID t) (t_LeaseToken t) else Retried (t_ID t) (t_LeaseToken t)} s'"
    "e = None \<Longrightarrow> advances (msim dr mv) c [if terminal then Died (t_ID t) (t_LeaseToken t) else Retried (t_ID t) (t_LeaseToken t)] s'"
    "e = Some ErrLeaseLost \<Longrightarrow> msim dr mv s' c \<and> \<not> live c (t_ID t) (t_LeaseToken t)"
  using outcome_call [OF assms(1) assms(2) [unfolded mg_Fail_outcome]] by (simp_all add: outcome_event_def Let_def)

lemma requeue_sim:
  assumes "msim dr mv s c" "mg_Requeue dr now i s = (e, s')"
  shows "may_advance (msim dr mv) c {Requeued i} s'" "e = None \<Longrightarrow> advances (msim dr mv) c [Requeued i] s'"
proof -
  have "may_advance (msim dr mv) c {Requeued i} s' \<and> (e = None \<longrightarrow> advances (msim dr mv) c [Requeued i] s')"
  proof (cases "oid_of dr i")
    case (Inl x)
    with assms show ?thesis by (auto simp: mg_Requeue_def intro: may_advance_stay)
  next
    case (Inr k)
    then have k: "dv_hex dr k = i" by (auto simp: oid_of_def intro: unhex split: option.splits)
    let ?f = "FAnd [FField ''_id'' (CEq (BOid k)), FField ''status'' (CEq (BStr ''dead''))]"
    obtain x where x: "dv_UpdateOne dr TasksCol ?f (requeueUpdate now) False s = (x, s')"
        "e = None \<longrightarrow> (\<exists>n. x = Inr n \<and> n \<noteq> 0)"
      using assms(2) Inr by (cases "dv_UpdateOne dr TasksCol ?f (requeueUpdate now) False s")
        (auto simp: mg_Requeue_def split: sum.splits if_splits)
    have "\<exists>c'. cstep c (Requeued i) c' \<and>
        tsim (dv_hex dr) (mv_tokens mv s) ((mv_db mv s TasksCol)(j \<mapsto> uapply (requeueUpdate now) d)) c' \<and>
        c_limit c' = c_limit c \<and> c_issued c' = c_issued c"
      if d: "mv_db mv s TasksCol j = Some d" "fmatch ?f d" for j d
    proof -
      have m: "map_of d ''_id'' = Some (BOid k)" "map_of d ''status'' = Some (BStr ''dead'')" using d(2) by simp_all
      show ?thesis
        by (rule event_step [OF msim_tsim [OF assms(1)] inj_hex d(1) keeps_id_requeue m(1)])
          (use requeue_event m(2) k in blast)
    qed
    then have "\<forall>j d. mv_db mv s TasksCol j = Some d \<longrightarrow> fmatch ?f d \<longrightarrow> (\<exists>c'. cstep c (Requeued i) c' \<and>
        tsim (dv_hex dr) (mv_tokens mv s) ((mv_db mv s TasksCol)(j \<mapsto> uapply (requeueUpdate now) d)) c' \<and>
        c_limit c' = c_limit c \<and> c_issued c' = c_issued c)"
      by blast
    from write_one_sim [OF assms(1) x(1) this] x(2) show ?thesis by blast
  qed
  then show "may_advance (msim dr mv) c {Requeued i} s'" "e = None \<Longrightarrow> advances (msim dr mv) c [Requeued i] s'" by blast+
qed

end

section \<open>The contract\<close>

locale mongo_store = mongo_exact +
  fixes chunk :: nat and clk :: "'a \<Rightarrow> gtime"
  assumes chunk: "0 < chunk"

sublocale mongo_store \<subseteq> store_contract "mongostore_ops dr chunk clk" "msim dr mv"
proof (unfold_locales, goal_cases)
  case 1 then show ?case using enqueue_sim [OF _ _ chunk] by (simp add: mongostore_ops_def)
next
  case 2 then show ?case using enqueue_sim [OF _ _ chunk] by (simp add: mongostore_ops_def)
next
  case 3 then show ?case using doc_claim_sim(3) by (simp add: mongostore_ops_def)
next
  case 4 then show ?case using doc_claim_sim(2) by (simp add: mongostore_ops_def)
next
  case 5 then show ?case using doc_claim_sim(1) by (simp add: mongostore_ops_def)
next
  case 6 then show ?case using batch_sim by (simp add: mongostore_ops_def)
next
  case 7 then show ?case using batch_any by (simp add: mongostore_ops_def)
next
  case 8 then show ?case using complete_sim(2) by (simp add: mongostore_ops_def)
next
  case 9 then show ?case using complete_sim(3) by (simp add: mongostore_ops_def)
next
  case 10 then show ?case using complete_sim(1) by (simp add: mongostore_ops_def)
next
  case 11 then show ?case using fail_sim(2) by (simp add: mongostore_ops_def)
next
  case 12 then show ?case using fail_sim(3) by (simp add: mongostore_ops_def)
next
  case 13 then show ?case using fail_sim(1) by (simp add: mongostore_ops_def)
next
  case 14 then show ?case using extend_sim(2) by (simp add: mongostore_ops_def)
next
  case 15 then show ?case using extend_sim(1) by (simp add: mongostore_ops_def)
next
  case 16 then show ?case using finalize_sim by (simp add: mongostore_ops_def)
next
  case 17 then show ?case using finalize_sim by (simp add: mongostore_ops_def)
next
  case 18 then show ?case using requeue_sim(2) by (simp add: mongostore_ops_def)
next
  case 19 then show ?case using requeue_sim(1) by (simp add: mongostore_ops_def)
next
  case 20 then show ?case using requeue_dead_sim by (simp add: mongostore_ops_def)
next
  case 21 then show ?case using reap_sim by (simp add: mongostore_ops_def)
next
  case 22 then show ?case using register_sim by (simp add: mongostore_ops_def mg_RegisterQueues_def)
next
  case 23 then show ?case using ensure_sim by (simp add: mongostore_ops_def)
next
  case 24 then show ?case using snapshot_sim by (simp add: mongostore_ops_def)
next
  case 25 then show ?case using counters_sim by (simp add: mongostore_ops_def)
qed

context mongo_store begin

lemma keeps_contract: "store_contract (mongostore_ops dr chunk clk) (msim dr mv)"
  by (rule store_contract_axioms)

end

lemma strict_sel [simp]:
  "dv_ObjectID (strict_ids dr) = dv_ObjectID dr" "dv_uuid (strict_ids dr) = dv_uuid dr" "dv_hex (strict_ids dr) = dv_hex dr"
  "dv_InsertOne (strict_ids dr) = dv_InsertOne dr" "dv_InsertMany (strict_ids dr) = dv_InsertMany dr"
  "dv_FindOneAndUpdate (strict_ids dr) = dv_FindOneAndUpdate dr" "dv_UpdateOne (strict_ids dr) = dv_UpdateOne dr"
  "dv_UpdateMany (strict_ids dr) = dv_UpdateMany dr" "dv_BulkWrite (strict_ids dr) = dv_BulkWrite dr"
  "dv_DeleteOne (strict_ids dr) = dv_DeleteOne dr" "dv_Find (strict_ids dr) = dv_Find dr"
  "dv_FindOne (strict_ids dr) = dv_FindOne dr" "dv_Count (strict_ids dr) = dv_Count dr"
  "dv_GroupSum (strict_ids dr) = dv_GroupSum dr" "dv_CreateMetricsIndexes (strict_ids dr) = dv_CreateMetricsIndexes dr"
  "dv_CollModTTL (strict_ids dr) = dv_CollModTTL dr"
  "dv_unhex (strict_ids dr) i = Some k \<longleftrightarrow> dv_unhex dr i = Some k \<and> dv_hex dr k = i"
  by (auto simp: strict_ids_def split: option.splits)

lemma strict_exact:
  assumes "mongo dr mv"
  shows "mongo_exact (strict_ids dr) mv"
proof -
  have "mongo (strict_ids dr) mv"
    unfolding mongo_def strict_sel simp_thms by (rule assms [unfolded mongo_def])
  then show ?thesis by (simp add: mongo_exact_def mongo_exact_axioms_def)
qed

lemma msim_strict [simp]: "msim (strict_ids dr) mv = msim dr mv"
  by (simp add: msim_def fun_eq_iff)

lemma mongo_contract:
  assumes "mongo dr mv" "0 < chunk"
  shows "store_contract (mongostore_ops (strict_ids dr) chunk clk) (msim dr mv)"
proof -
  have "mongo_store (strict_ids dr) mv chunk"
    using strict_exact [OF assms(1)] assms(2) by (simp add: mongo_store_def mongo_store_axioms_def)
  from mongo_store.keeps_contract [OF this] show ?thesis by simp
qed

end
