(* ===== verification/Mongo_Reference.thy ===== *)
theory Mongo_Reference
  imports Mongo_Refine
begin

text \<open>
  A reference server: the driver's calls over plain lists of documents, executable, with the
  behaviour the locale \<open>mongo\<close> asks for. It shows that the laws hold together, and concrete runs of
  the store are evaluated on it. Object ids and uuids come from counters; a write that would break a
  unique index or change an id is refused.
\<close>

section \<open>The server\<close>

record refserver =
  rs_tasks :: "bdoc list"
  rs_queues :: "bdoc list"
  rs_metrics :: "bdoc list"
  rs_next :: nat
  rs_tokens :: nat

fun docs_of :: "coll \<Rightarrow> refserver \<Rightarrow> bdoc list" where
  "docs_of TasksCol s = rs_tasks s"
| "docs_of QueuesCol s = rs_queues s"
| "docs_of MetricsCol s = rs_metrics s"

fun put_docs :: "coll \<Rightarrow> bdoc list \<Rightarrow> refserver \<Rightarrow> refserver" where
  "put_docs TasksCol ds s = s\<lparr>rs_tasks := ds\<rparr>"
| "put_docs QueuesCol ds s = s\<lparr>rs_queues := ds\<rparr>"
| "put_docs MetricsCol ds s = s\<lparr>rs_metrics := ds\<rparr>"

definition ref_valid :: "coll \<Rightarrow> bdoc list \<Rightarrow> bool" where
  "ref_valid c ds \<longleftrightarrow> list_all (\<lambda>d. map_of d ''_id'' \<noteq> None) ds \<and> distinct (map doc_id ds) \<and>
     sorted_wrt (\<lambda>d e. \<not> clash c d e) ds"

definition ref_uuid :: "nat \<Rightarrow> string" where
  "ref_uuid n = ''token-'' @ digits n"

definition ref_unhex :: "string \<Rightarrow> oid option" where
  "ref_unhex i = (let k = undigits i in if digits k = i then Some k else None)"

section \<open>Writes\<close>

definition with_id :: "refserver \<Rightarrow> bdoc \<Rightarrow> bdoc" where
  "with_id s d = (if map_of d ''_id'' = None then (''_id'', BOid (Suc (rs_next s))) # d else d)"

definition ref_taken :: "coll \<Rightarrow> bdoc \<Rightarrow> bdoc list \<Rightarrow> bool" where
  "ref_taken c d ds \<longleftrightarrow> list_ex (\<lambda>e. map_of d ''_id'' = Some (doc_id e) \<or> clash c d e) ds"

definition ref_insert :: "coll \<Rightarrow> bdoc \<Rightarrow> refserver \<Rightarrow> serr option \<times> refserver" where
  "ref_insert c d s = (let ds = docs_of c s @ [with_id s d] in
     if ref_valid c ds then (None, put_docs c ds (s\<lparr>rs_next := Suc (rs_next s)\<rparr>))
     else (Some (if ref_taken c d (docs_of c s) then DuplicateKey ''E11000'' else ServerErr ''insert''), s))"

fun ref_insert_all :: "coll \<Rightarrow> bdoc list \<Rightarrow> refserver \<Rightarrow> serr option list \<times> refserver" where
  "ref_insert_all c [] s = ([], s)"
| "ref_insert_all c (d # ds) s = (case ref_insert c d s of (r, s1) \<Rightarrow>
     (case ref_insert_all c ds s1 of (rs, s2) \<Rightarrow> (r # rs, s2)))"

definition write_errors :: "serr option list \<Rightarrow> (nat \<times> int \<times> string) list" where
  "write_errors rs = map (\<lambda>j. (j, if is_dup_key (the (rs ! j)) then 11000 else 2, ''write error''))
     (filter (\<lambda>j. rs ! j \<noteq> None) [0..<length rs])"

definition ref_insert_many :: "coll \<Rightarrow> bdoc list \<Rightarrow> refserver \<Rightarrow> serr option \<times> refserver" where
  "ref_insert_many c ds s = (case ref_insert_all c ds s of (rs, s') \<Rightarrow>
     (if write_errors rs = [] then None else Some (BulkWriteErrors (write_errors rs)), s'))"

definition ref_replace :: "coll \<Rightarrow> bdoc list \<Rightarrow> refserver \<Rightarrow> refserver option" where
  "ref_replace c ds s = (if map doc_id ds = map doc_id (docs_of c s) \<and> ref_valid c ds
     then Some (put_docs c ds s) else None)"

definition ref_find :: "bfilter \<Rightarrow> bsort \<Rightarrow> bdoc list \<Rightarrow> bdoc list" where
  "ref_find f srt ds = sort_by (sort_le srt) (filter (fmatch f) ds)"

definition ref_update1 :: "coll \<Rightarrow> bfilter \<Rightarrow> update \<Rightarrow> bsort \<Rightarrow> refserver \<Rightarrow> (serr + bdoc option) \<times> refserver" where
  "ref_update1 c f u srt s = (case ref_find f srt (docs_of c s) of
     [] \<Rightarrow> (Inr None, s)
   | x # _ \<Rightarrow> (case ref_replace c (map (\<lambda>d. if doc_id d = doc_id x then uapply u d else d) (docs_of c s)) s of
       None \<Rightarrow> (Inl (ServerErr ''update''), s)
     | Some s' \<Rightarrow> (Inr (Some (uapply u x)), s')))"

definition ref_find_update :: "coll \<Rightarrow> bfilter \<Rightarrow> update \<Rightarrow> bsort \<Rightarrow> refserver \<Rightarrow> (serr + bdoc) \<times> refserver" where
  "ref_find_update c f u srt s = (case ref_update1 c f u srt s of
     (Inl e, s') \<Rightarrow> (Inl e, s')
   | (Inr None, s') \<Rightarrow> (Inl NoDocuments, s')
   | (Inr (Some d), s') \<Rightarrow> (Inr d, s'))"

definition matched :: "bdoc option \<Rightarrow> int" where
  "matched r = (if r = None then 0 else 1)"

definition ref_update_one :: "coll \<Rightarrow> bfilter \<Rightarrow> update \<Rightarrow> bool \<Rightarrow> refserver \<Rightarrow> (serr + int) \<times> refserver" where
  "ref_update_one c f u ups s = (case ref_update1 c f u [] s of
     (Inl e, s') \<Rightarrow> (Inl e, s')
   | (Inr r, s') \<Rightarrow>
       if r = None \<and> ups
       then (case ref_insert c (upsert_doc f u) s' of (None, s'') \<Rightarrow> (Inr 0, s'') | (Some e, s'') \<Rightarrow> (Inl e, s''))
       else (Inr (matched r), s'))"

definition ref_update_many :: "coll \<Rightarrow> bfilter \<Rightarrow> update \<Rightarrow> refserver \<Rightarrow> (serr + int) \<times> refserver" where
  "ref_update_many c f u s =
     (case ref_replace c (map (\<lambda>d. if fmatch f d then uapply u d else d) (docs_of c s)) s of
        None \<Rightarrow> (Inl (ServerErr ''update''), s)
      | Some s' \<Rightarrow> (Inr (int (length (filter (\<lambda>d. fmatch f d \<and> uapply u d \<noteq> d) (docs_of c s)))), s'))"

fun ref_bulk :: "coll \<Rightarrow> (bfilter \<times> update) list \<Rightarrow> refserver \<Rightarrow> (serr + int) \<times> refserver" where
  "ref_bulk c [] s = (Inr 0, s)"
| "ref_bulk c ((f, u) # ws) s = (case ref_update1 c f u [] s of
     (Inl e, s1) \<Rightarrow> (Inl e, s1)
   | (Inr r, s1) \<Rightarrow> (case ref_bulk c ws s1 of
       (Inl e, s2) \<Rightarrow> (Inl e, s2)
     | (Inr n, s2) \<Rightarrow> (Inr (n + matched r), s2)))"

definition ref_delete :: "coll \<Rightarrow> bfilter \<Rightarrow> refserver \<Rightarrow> (serr + int) \<times> refserver" where
  "ref_delete c f s = (case filter (fmatch f) (docs_of c s) of
     [] \<Rightarrow> (Inr 0, s)
   | x # _ \<Rightarrow> (Inr 1, put_docs c (filter (\<lambda>d. doc_id d \<noteq> doc_id x) (docs_of c s)) s))"

section \<open>Reads\<close>

definition ref_group :: "string \<Rightarrow> string list \<Rightarrow> bdoc list \<Rightarrow> serr + bdoc list" where
  "ref_group k ks ds = (if ''_id'' \<in> set ks then Inl (ServerErr ''group'') else
     Inr (map (\<lambda>v. (''_id'', v) # map (\<lambda>q. (q, BInt (sum_field q (filter (\<lambda>e. or_null (map_of e k) = v) ds)))) ks)
       (remdups (map (\<lambda>d. or_null (map_of d k)) ds))))"

definition ref_driver :: "refserver driver" where
  "ref_driver = \<lparr>
     dv_ObjectID = (\<lambda>s. (Suc (rs_next s), s\<lparr>rs_next := Suc (rs_next s)\<rparr>)),
     dv_uuid = (\<lambda>s. (ref_uuid (rs_tokens s), s\<lparr>rs_tokens := Suc (rs_tokens s)\<rparr>)),
     dv_hex = digits, dv_unhex = ref_unhex,
     dv_toBSON = (\<lambda>j. Inr [(''json'', BStr j)]),
     dv_toJSON = (\<lambda>b. case map_of b ''json'' of Some (BStr j) \<Rightarrow> Inr j | _ \<Rightarrow> Inl ''not JSON''),
     dv_InsertOne = ref_insert, dv_InsertMany = ref_insert_many, dv_FindOneAndUpdate = ref_find_update,
     dv_UpdateOne = ref_update_one, dv_UpdateMany = ref_update_many, dv_BulkWrite = ref_bulk,
     dv_DeleteOne = ref_delete,
     dv_Find = (\<lambda>c f srt lim ps s. Inr (map (project ps) (limited lim (ref_find f srt (docs_of c s))))),
     dv_FindOne = (\<lambda>c f srt ps s. case ref_find f srt (docs_of c s) of
        [] \<Rightarrow> Inl NoDocuments | d # _ \<Rightarrow> Inr (project ps d)),
     dv_Count = (\<lambda>c f s. Inr (int (length (filter (fmatch f) (docs_of c s))))),
     dv_GroupSum = (\<lambda>c f k ks s. ref_group k ks (filter (fmatch f) (docs_of c s))),
     dv_CreateMetricsIndexes = (\<lambda>ttl s. (None, s)), dv_CollModTTL = (\<lambda>ttl s. (None, s))\<rparr>"

section \<open>Its view\<close>

definition ref_table :: "bdoc list \<Rightarrow> table" where
  "ref_table ds = map_of (map (\<lambda>d. (doc_id d, d)) ds)"

definition ref_view :: "refserver mview" where
  "ref_view = \<lparr>mv_ok = (\<lambda>s. \<forall>c. ref_valid c (docs_of c s)), mv_db = (\<lambda>s c. ref_table (docs_of c s)),
     mv_ids = (\<lambda>s. {1..rs_next s}), mv_tokens = (\<lambda>s. ref_uuid ` {..<rs_tokens s})\<rparr>"

definition ref_init :: refserver where
  "ref_init = \<lparr>rs_tasks = [], rs_queues = [], rs_metrics = [], rs_next = 0, rs_tokens = 0\<rparr>"

lemma docs_put [simp]: "docs_of c (put_docs b ds s) = (if c = b then ds else docs_of c s)"
  by (cases b; cases c) simp_all

lemma put_counters [simp]: "rs_next (put_docs b ds s) = rs_next s" "rs_tokens (put_docs b ds s) = rs_tokens s"
  by (cases b; simp)+

lemma docs_counters [simp]: "docs_of c (s\<lparr>rs_next := n\<rparr>) = docs_of c s" "docs_of c (s\<lparr>rs_tokens := n\<rparr>) = docs_of c s"
  by (cases c; simp)+

lemma ref_view_sel [simp]:
  "mv_ok ref_view s \<longleftrightarrow> (\<forall>c. ref_valid c (docs_of c s))" "mv_db ref_view s c = ref_table (docs_of c s)"
  "mv_ids ref_view s = {1..rs_next s}" "mv_tokens ref_view s = ref_uuid ` {..<rs_tokens s}"
  by (simp_all add: ref_view_def)

lemma clash_sym: "clash c d e \<longleftrightarrow> clash c e d"
  by (cases c) (auto simp: list_all_iff, metis+)

lemma ref_table_iff:
  assumes "ref_valid c ds"
  shows "ref_table ds i = Some d \<longleftrightarrow> d \<in> set ds \<and> doc_id d = i"
proof -
  have "distinct (map fst (map (\<lambda>d. (doc_id d, d)) ds))" using assms by (simp add: ref_valid_def comp_def)
  then show ?thesis unfolding ref_table_def by (subst map_of_eq_Some_iff) auto
qed

lemma ref_valid_id: "ref_valid c ds \<Longrightarrow> d \<in> set ds \<Longrightarrow> map_of d ''_id'' = Some (doc_id d)"
  by (auto simp: ref_valid_def list_all_iff doc_id_def)

lemma ref_valid_clash:
  assumes "ref_valid c ds" "d \<in> set ds" "e \<in> set ds" "clash c d e"
  shows "d = e"
proof (rule ccontr)
  assume "d \<noteq> e"
  obtain j k where jk: "j < length ds" "k < length ds" "d = ds ! j" "e = ds ! k"
    using assms(2,3) by (metis in_set_conv_nth)
  with \<open>d \<noteq> e\<close> have "j < k \<or> k < j" by (metis linorder_neqE_nat)
  then show False
    using assms(1,4) jk clash_sym [of c d e] by (auto simp: ref_valid_def sorted_wrt_iff_nth_less)
qed

lemma writes_put:
  assumes "\<forall>c. ref_valid c (docs_of c s)" "ref_valid c ds" "rs_next s \<le> rs_next s'" "rs_tokens s' = rs_tokens s"
    and "\<And>b. docs_of b s' = (if b = c then ds else docs_of b s)"
  shows "writes_to ref_view c s s'"
  using assms by (auto simp: writes_to_def)

lemma writes_same: "\<forall>c. ref_valid c (docs_of c s) \<Longrightarrow> writes_to ref_view c s s"
  by (simp add: writes_to_def)

section \<open>The laws\<close>

lemma with_id_simps:
  "stored_doc d (with_id s d)" "k \<noteq> ''_id'' \<Longrightarrow> map_of (with_id s d) k = map_of d k"
  "map_of (with_id s d) ''_id'' \<noteq> None"
  by (auto simp: with_id_def stored_doc_def)

lemma clash_with_id: "clash c (with_id s d) e = clash c d e"
  by (cases c) (simp_all add: with_id_simps(2))

lemma table_snoc:
  assumes "ref_valid c (ds @ [e])"
  shows "inserted [e] (ref_table ds) (ref_table (ds @ [e]))"
proof -
  have new: "doc_id e \<notin> doc_id ` set ds" using assms by (simp add: ref_valid_def)
  then have none: "ref_table ds (doc_id e) = None"
    by (simp add: ref_table_def map_of_eq_None_iff image_image)
  have "ref_table (ds @ [e]) = ref_table ds ++ [doc_id e \<mapsto> e]"
  proof
    fix i show "ref_table (ds @ [e]) i = (ref_table ds ++ [doc_id e \<mapsto> e]) i"
      using none by (auto simp: ref_table_def map_add_def split: option.split)
  qed
  with none show ?thesis by (simp add: inserted_def)
qed

lemma taken_table: "ref_valid c ds \<Longrightarrow> ref_taken c d ds \<longleftrightarrow> taken c d (ref_table ds)"
  by (auto simp: ref_taken_def taken_def list_ex_iff ref_table_iff)

lemma ref_insert_law:
  assumes "\<forall>c. ref_valid c (docs_of c s)" "ref_insert c d s = (r, s')"
  shows "writes_to ref_view c s s' \<and> stored_doc d (with_id s d) \<and>
    (if r = None then inserted [with_id s d] (ref_table (docs_of c s)) (ref_table (docs_of c s'))
     else s' = s \<and> (\<forall>x. r = Some x \<longrightarrow> is_dup_key x \<longrightarrow> taken c d (ref_table (docs_of c s))))"
proof (cases "ref_valid c (docs_of c s @ [with_id s d])")
  case True
  then have r: "r = None" "s' = put_docs c (docs_of c s @ [with_id s d]) (s\<lparr>rs_next := Suc (rs_next s)\<rparr>)"
    using assms(2) by (simp_all add: ref_insert_def Let_def)
  have "writes_to ref_view c s s'"
    by (rule writes_put [OF assms(1) True]) (simp_all add: r(2))
  with True show ?thesis by (simp add: r with_id_simps(1) table_snoc)
next
  case False
  then have r: "r = Some (if ref_taken c d (docs_of c s) then DuplicateKey ''E11000'' else ServerErr ''insert'')" "s' = s"
    using assms(2) by (auto simp add: ref_insert_def Let_def)
  have "ref_valid c (docs_of c s)" using assms(1) by blast
  with assms(1) show ?thesis by (simp add: r with_id_simps(1) writes_same taken_table)
qed

lemma writes_trans: "writes_to mv c s s1 \<Longrightarrow> writes_to mv c s1 s2 \<Longrightarrow> writes_to mv c s s2"
  by (auto simp: writes_to_def)

lemma inserted_append:
  assumes "inserted es m m1" "inserted fs m1 m2"
  shows "inserted (es @ fs) m m2"
proof -
  let ?t = "\<lambda>es. map_of (map (\<lambda>e. (doc_id e, e)) es)"
  have m1: "m1 = m ++ ?t es" and m2: "m2 = m1 ++ ?t fs" using assms by (simp_all add: inserted_def)
  have fresh: "\<forall>f \<in> set fs. doc_id f \<notin> doc_id ` set es \<and> m (doc_id f) = None"
  proof
    fix f assume "f \<in> set fs"
    then have "m1 (doc_id f) = None" using assms(2) by (simp add: inserted_def)
    then show "doc_id f \<notin> doc_id ` set es \<and> m (doc_id f) = None"
      unfolding m1 by (simp add: map_add_None map_of_eq_None_iff image_image)
  qed
  have disj: "doc_id ` set es \<inter> doc_id ` set fs = {}"
  proof (rule equals0I)
    fix i assume "i \<in> doc_id ` set es \<inter> doc_id ` set fs"
    then obtain f where "f \<in> set fs" "i = doc_id f" "i \<in> doc_id ` set es" by blast
    with fresh show False by blast
  qed
  then have "?t es ++ ?t fs = ?t fs ++ ?t es"
    by (intro map_add_comm) (simp add: dom_map_of_conv_image_fst image_image)
  then have "m2 = m ++ ?t (es @ fs)" unfolding m1 m2 by (simp add: map_add_assoc [symmetric] del: map_add_assoc)
  with fresh disj assms show ?thesis by (auto simp: inserted_def)
qed

lemma taken_later: "taken c d m \<Longrightarrow> inserted es m m' \<Longrightarrow> taken c d m'"
  using inserted_keeps by (fastforce simp: taken_def)

lemma taken_with_id: "taken c d m \<Longrightarrow> taken c (with_id s d) m"
proof -
  assume "taken c d m"
  then obtain i e where e: "m i = Some e" "map_of d ''_id'' = Some i \<or> clash c d e" by (auto simp: taken_def)
  then have "map_of (with_id s d) ''_id'' = Some i \<or> clash c (with_id s d) e"
    by (auto simp: clash_with_id) (simp add: with_id_def)
  with e(1) show "taken c (with_id s d) m" by (auto simp: taken_def)
qed

lemma ref_insert_all_law:
  assumes "\<forall>c. ref_valid c (docs_of c s)" "ref_insert_all c ds s = (rs, s')"
  shows "writes_to ref_view c s s' \<and> length rs = length ds \<and> (\<exists>es. list_all2 stored_doc ds es \<and>
    inserted (map fst (filter (\<lambda>(e, r). r = None) (zip es rs))) (ref_table (docs_of c s)) (ref_table (docs_of c s')) \<and>
    (\<forall>(e, r) \<in> set (zip es rs). \<forall>x. r = Some x \<longrightarrow> is_dup_key x \<longrightarrow> taken c e (ref_table (docs_of c s'))))"
  using assms
proof (induction ds arbitrary: s rs)
  case Nil
  then show ?case by (auto simp: writes_same inserted_def)
next
  case (Cons d ds)
  obtain r s1 where r: "ref_insert c d s = (r, s1)" by fastforce
  obtain rs' where rs': "ref_insert_all c ds s1 = (rs', s')" "rs = r # rs'"
    using Cons.prems(2) r by (auto split: prod.splits)
  note one = ref_insert_law [OF Cons.prems(1) r]
  have ok: "\<forall>c. ref_valid c (docs_of c s1)" using one by (simp add: writes_to_def)
  obtain es where es: "writes_to ref_view c s1 s'" "length rs' = length ds" "list_all2 stored_doc ds es"
    "inserted (map fst (filter (\<lambda>(e, r). r = None) (zip es rs'))) (ref_table (docs_of c s1)) (ref_table (docs_of c s'))"
    "\<forall>(e, r) \<in> set (zip es rs'). \<forall>x. r = Some x \<longrightarrow> is_dup_key x \<longrightarrow> taken c e (ref_table (docs_of c s'))"
    using Cons.IH [OF ok rs'(1)] by blast
  have w: "writes_to ref_view c s s'" by (rule writes_trans [OF conjunct1 [OF one] es(1)])
  let ?es = "with_id s d # es"
  have ins: "inserted (map fst (filter (\<lambda>(e, r). r = None) (zip ?es rs))) (ref_table (docs_of c s)) (ref_table (docs_of c s'))"
  proof (cases r)
    case None
    with one have "inserted [with_id s d] (ref_table (docs_of c s)) (ref_table (docs_of c s1))" by simp
    from inserted_append [OF this es(4)] None show ?thesis by (simp add: rs'(2))
  next
    case (Some x)
    with one es(4) show ?thesis by (simp add: rs'(2))
  qed
  have "taken c (with_id s d) (ref_table (docs_of c s'))" if "r = Some x" "is_dup_key x" for x
    using one that taken_later [OF taken_with_id es(4)] by simp
  with es w ins one show ?case
    by (intro conjI exI [of _ ?es]) (auto simp: rs'(2))
qed

lemma write_errors_law:
  "distinct (map fst (write_errors rs))" "fst ` set (write_errors rs) = {j. j < length rs \<and> rs ! j \<noteq> None}"
  "(j, code, msg) \<in> set (write_errors rs) \<Longrightarrow> code = 11000 \<Longrightarrow> j < length rs \<and> (\<exists>x. rs ! j = Some x \<and> is_dup_key x)"
  by (auto simp: write_errors_def comp_def image_image split: if_splits)

lemma nths_filter_zip:
  "length es = length rs \<Longrightarrow> map fst (filter (\<lambda>(e, r). r = None) (zip es rs)) = nths es {j. j < length rs \<and> rs ! j = None}"
proof (induction es arbitrary: rs)
  case (Cons e es)
  then obtain r rs' where rs: "rs = r # rs'" "length es = length rs'" by (cases rs) auto
  with Cons.IH [OF rs(2)] show ?case by (simp add: nths_Cons)
qed simp

lemma ref_insert_many_law:
  assumes "\<forall>c. ref_valid c (docs_of c s)" "ref_insert_many c ds s = (r, s')"
  shows "writes_to ref_view c s s' \<and> (\<exists>es J. list_all2 stored_doc ds es \<and> J \<subseteq> {..<length ds} \<and>
    inserted (nths es J) (ref_table (docs_of c s)) (ref_table (docs_of c s')) \<and> (r = None \<longrightarrow> J = {..<length ds}) \<and>
    (\<forall>ws. r = Some (BulkWriteErrors ws) \<longrightarrow> ws \<noteq> [] \<longrightarrow> distinct (map fst ws) \<and> fst ` set ws = {..<length ds} - J \<and>
      (\<forall>j msg. (j, 11000, msg) \<in> set ws \<longrightarrow> taken c (es ! j) (ref_table (docs_of c s')))))"
proof -
  obtain rs where rs: "ref_insert_all c ds s = (rs, s')"
      "r = (if write_errors rs = [] then None else Some (BulkWriteErrors (write_errors rs)))"
    using assms(2) by (auto simp: ref_insert_many_def split: prod.splits)
  obtain es where es: "writes_to ref_view c s s'" "length rs = length ds" "list_all2 stored_doc ds es"
    "inserted (map fst (filter (\<lambda>(e, r). r = None) (zip es rs))) (ref_table (docs_of c s)) (ref_table (docs_of c s'))"
    "\<forall>(e, r) \<in> set (zip es rs). \<forall>x. r = Some x \<longrightarrow> is_dup_key x \<longrightarrow> taken c e (ref_table (docs_of c s'))"
    using ref_insert_all_law [OF assms(1) rs(1)] by blast
  let ?J = "{j. j < length rs \<and> rs ! j = None}"
  have len: "length es = length rs" using list_all2_lengthD [OF es(3)] es(2) by simp
  have ins: "inserted (nths es ?J) (ref_table (docs_of c s)) (ref_table (docs_of c s'))"
    using es(4) unfolding nths_filter_zip [OF len] .
  have full: "?J = {..<length ds}" if "r = None"
  proof -
    have "fst ` set (write_errors rs) = {}" using that rs(2) by (simp split: if_splits)
    then have "{j. j < length rs \<and> rs ! j \<noteq> None} = {}" unfolding write_errors_law(2) .
    then show ?thesis using es(2) by auto
  qed
  have tk: "taken c (es ! j) (ref_table (docs_of c s'))" if h: "(j, 11000, msg) \<in> set (write_errors rs)" for j msg
  proof -
    obtain x where x: "j < length rs" "rs ! j = Some x" "is_dup_key x" using write_errors_law(3) [OF h refl] by blast
    then have "(es ! j, Some x) \<in> set (zip es rs)" using len by (auto simp: set_zip intro!: exI [of _ j])
    with es(5) x(3) show ?thesis by blast
  qed
  have wr: "distinct (map fst ws) \<and> fst ` set ws = {..<length ds} - ?J \<and>
      (\<forall>j msg. (j, 11000, msg) \<in> set ws \<longrightarrow> taken c (es ! j) (ref_table (docs_of c s')))"
    if "r = Some (BulkWriteErrors ws)" for ws
  proof -
    have ws: "ws = write_errors rs" using that rs(2) by (simp split: if_splits)
    have "{j. j < length rs \<and> rs ! j \<noteq> None} = {..<length ds} - ?J" using es(2) by auto
    then show ?thesis using write_errors_law(1,2) [of rs] tk unfolding ws by blast
  qed
  have J: "?J \<subseteq> {..<length ds}" using es(2) by auto
  show ?thesis
  proof (intro conjI exI [of _ es] exI [of _ ?J])
    show "r = None \<longrightarrow> ?J = {..<length ds}" using full by blast
    show "\<forall>ws. r = Some (BulkWriteErrors ws) \<longrightarrow> ws \<noteq> [] \<longrightarrow> distinct (map fst ws) \<and> fst ` set ws = {..<length ds} - ?J \<and>
      (\<forall>j msg. (j, 11000, msg) \<in> set ws \<longrightarrow> taken c (es ! j) (ref_table (docs_of c s')))" using wr by blast
  qed (fact es(1) es(3) J ins)+
qed

text \<open>Updates in place.\<close>

lemma table_map:
  assumes "\<forall>d \<in> set ds. doc_id (g d) = doc_id d"
  shows "ref_table (map g ds) = (\<lambda>i. map_option g (ref_table ds i))"
proof -
  have "map (\<lambda>d. (doc_id d, d)) (map g ds) = map (\<lambda>(k, v). (k, g v)) (map (\<lambda>d. (doc_id d, d)) ds)"
    using assms by simp
  then show ?thesis unfolding ref_table_def by (simp only: map_of_map comp_def)
qed

lemma ref_replace_law:
  assumes "\<forall>c. ref_valid c (docs_of c s)" "ref_replace c (map g (docs_of c s)) s = Some s'"
  shows "writes_to ref_view c s s'" "ref_table (docs_of c s') = (\<lambda>i. map_option g (ref_table (docs_of c s) i))"
    "docs_of c s' = map g (docs_of c s)"
proof -
  have r: "map doc_id (map g (docs_of c s)) = map doc_id (docs_of c s)" "ref_valid c (map g (docs_of c s))"
      "s' = put_docs c (map g (docs_of c s)) s"
    using assms(2) by (auto simp: ref_replace_def split: if_splits)
  show "writes_to ref_view c s s'" by (rule writes_put [OF assms(1) r(2)]) (simp_all add: r(3))
  show d: "docs_of c s' = map g (docs_of c s)" by (simp add: r(3))
  have "\<forall>d \<in> set (docs_of c s). doc_id (g d) = doc_id d" using r(1) by simp
  then show "ref_table (docs_of c s') = (\<lambda>i. map_option g (ref_table (docs_of c s) i))"
    unfolding d by (rule table_map)
qed

lemma ref_find_set: "set (ref_find f srt ds) = {d \<in> set ds. fmatch f d}"
  by (auto simp: ref_find_def)

lemma sort_le_refl: "sort_le srt d d"
  using sort_le_total by blast

lemma ref_find_sorted: "sorted_wrt (sort_le srt) (ref_find f srt ds)"
  unfolding ref_find_def by (rule sorted_sort_by) (use sort_le_total sort_le_trans in blast)+

lemma ref_find_hits:
  assumes "ref_valid c ds"
  shows "hits f (ref_table ds) = doc_id ` set (ref_find f srt ds)"
  using ref_table_iff [OF assms] by (auto simp: hits_def ref_find_set)

lemma ref_find_Cons:
  assumes "ref_valid c ds" "ref_find f srt ds = x # xs"
  shows "ref_table ds (doc_id x) = Some x" "fmatch f x"
    "ref_table ds j = Some e \<Longrightarrow> fmatch f e \<Longrightarrow> sort_le srt x e"
proof -
  have x: "x \<in> set ds \<and> fmatch f x" using ref_find_set [of f srt ds] assms(2) by auto
  then show "ref_table ds (doc_id x) = Some x" "fmatch f x" by (simp_all add: ref_table_iff [OF assms(1)])
  assume "ref_table ds j = Some e" "fmatch f e"
  then have "e \<in> set (x # xs)" unfolding assms(2) [symmetric] ref_find_set by (simp add: ref_table_iff [OF assms(1)])
  then show "sort_le srt x e" using ref_find_sorted [of srt f ds] sort_le_refl [of srt x] unfolding assms(2) by auto
qed

lemma ref_update1_law:
  assumes "\<forall>c. ref_valid c (docs_of c s)" "ref_update1 c f u srt s = (r, s')"
  shows "writes_to ref_view c s s' \<and> (case r of
     Inl e \<Rightarrow> e = ServerErr ''update'' \<and> s' = s
   | Inr None \<Rightarrow> s' = s \<and> hits f (ref_table (docs_of c s)) = {}
   | Inr (Some d') \<Rightarrow> (\<exists>x. ref_table (docs_of c s) (doc_id x) = Some x \<and> fmatch f x \<and> d' = uapply u x \<and>
       ref_table (docs_of c s') = (ref_table (docs_of c s))(doc_id x \<mapsto> d') \<and>
       (\<forall>j e. ref_table (docs_of c s) j = Some e \<longrightarrow> fmatch f e \<longrightarrow> sort_le srt x e)))"
proof (cases "ref_find f srt (docs_of c s)")
  case Nil
  have v: "ref_valid c (docs_of c s)" using assms(1) by blast
  have "r = Inr None" "s' = s" using assms(2) Nil by (simp_all add: ref_update1_def)
  then show ?thesis using Nil writes_same [OF assms(1)] ref_find_hits [OF v, of f srt] by simp
next
  case (Cons x xs)
  have v: "ref_valid c (docs_of c s)" using assms(1) by blast
  note fc = ref_find_Cons [OF v Cons]
  let ?g = "\<lambda>d. if doc_id d = doc_id x then uapply u d else d"
  show ?thesis
  proof (cases "ref_replace c (map ?g (docs_of c s)) s")
    case None
    then have "r = Inl (ServerErr ''update'')" "s' = s" using assms(2) Cons by (simp_all add: ref_update1_def)
    then show ?thesis using writes_same [OF assms(1)] by simp
  next
    case (Some s1)
    then have r: "r = Inr (Some (uapply u x))" "s1 = s'" using assms(2) Cons by (simp_all add: ref_update1_def)
    note rep = ref_replace_law [OF assms(1) Some [unfolded r(2)]]
    have "ref_table (docs_of c s') = (ref_table (docs_of c s))(doc_id x \<mapsto> uapply u x)"
    proof
      fix i show "ref_table (docs_of c s') i = ((ref_table (docs_of c s))(doc_id x \<mapsto> uapply u x)) i"
      proof (cases "ref_table (docs_of c s) i")
        case None
        with fc(1) show ?thesis unfolding rep(2) by auto
      next
        case (Some d)
        then have i: "doc_id d = i" by (simp add: ref_table_iff [OF v])
        show ?thesis
        proof (cases "i = doc_id x")
          case True
          with Some fc(1) have "d = x" by simp
          with True Some show ?thesis unfolding rep(2) by simp
        next
          case False
          with Some i show ?thesis unfolding rep(2) by simp
        qed
      qed
    qed
    with rep(1) fc r(1) show ?thesis by auto
  qed
qed

lemma update1_seq:
  assumes "\<forall>c. ref_valid c (docs_of c s)" "ref_update1 c f u srt s = (Inr r, s')"
    "update_seq ws (ref_table (docs_of c s')) n m"
  shows "update_seq ((f, u) # ws) (ref_table (docs_of c s)) (n + matched r) m"
proof (cases r)
  case None
  with ref_update1_law [OF assms(1,2)] assms(3) show ?thesis by (simp add: matched_def useq_miss)
next
  case (Some d')
  with ref_update1_law [OF assms(1,2)] obtain x where x: "ref_table (docs_of c s) (doc_id x) = Some x" "fmatch f x"
    "ref_table (docs_of c s') = (ref_table (docs_of c s))(doc_id x \<mapsto> uapply u x)" by auto
  from useq_hit [OF x(1,2) assms(3) [unfolded x(3)]] Some show ?thesis by (simp add: matched_def)
qed

lemma ref_valid_after: "writes_to ref_view c s s' \<Longrightarrow> \<forall>c. ref_valid c (docs_of c s')"
  by (simp add: writes_to_def)

lemma ref_bulk_law:
  assumes "\<forall>c. ref_valid c (docs_of c s)" "ref_bulk c ws s = (r, s')"
  shows "writes_to ref_view c s s' \<and>
    (\<exists>vs n. mset vs \<subseteq># mset ws \<and> update_seq vs (ref_table (docs_of c s)) n (ref_table (docs_of c s')) \<and>
      (\<forall>k. r = Inr k \<longrightarrow> vs = ws \<and> k = n))"
  using assms
proof (induction c ws s arbitrary: r rule: ref_bulk.induct)
  case (1 c s)
  then show ?case by (auto simp: writes_same)
next
  case (2 c f u ws s)
  obtain r1 s1 where u: "ref_update1 c f u [] s = (r1, s1)" by fastforce
  note one = ref_update1_law [OF "2.prems"(1) u]
  show ?case
  proof (cases r1)
    case (Inl e)
    with one u "2.prems" show ?thesis by (intro conjI exI [of _ "[]"] exI [of _ 0]) auto
  next
    case (Inr d)
    obtain r2 where b: "ref_bulk c ws s1 = (r2, s')" and r: "r = (case r2 of Inl e \<Rightarrow> Inl e | Inr n \<Rightarrow> Inr (n + matched d))"
      using "2.prems"(2) u Inr by (auto split: prod.splits sum.splits)
    have ok: "\<forall>c. ref_valid c (docs_of c s1)" using one by (intro ref_valid_after) blast
    from "2.IH" [OF u [symmetric] Inr ok b] obtain vs n where
      vs: "writes_to ref_view c s1 s'" "mset vs \<subseteq># mset ws" "update_seq vs (ref_table (docs_of c s1)) n (ref_table (docs_of c s'))"
        "\<forall>k. r2 = Inr k \<longrightarrow> vs = ws \<and> k = n"
      by blast
    have "update_seq ((f, u) # vs) (ref_table (docs_of c s)) (n + matched d) (ref_table (docs_of c s'))"
      using update1_seq [OF "2.prems"(1) u [unfolded Inr] vs(3)] .
    moreover have "writes_to ref_view c s s'" by (rule writes_trans [OF conjunct1 [OF one] vs(1)])
    moreover have "\<forall>k. r = Inr k \<longrightarrow> (f, u) # vs = (f, u) # ws \<and> k = n + matched d"
      using vs(4) r by (auto split: sum.splits)
    ultimately show ?thesis using vs(2) by (intro conjI exI [of _ "(f, u) # vs"] exI [of _ "n + matched d"]) simp_all
  qed
qed

lemma table_image:
  assumes "ref_valid c ds"
  shows "i \<in> doc_id ` set (filter P ds) \<longleftrightarrow> (\<exists>d. ref_table ds i = Some d \<and> P d)"
  by (auto simp: ref_table_iff [OF assms])

lemma card_ids:
  assumes "ref_valid c ds"
  shows "card (doc_id ` set (filter P ds)) = length (filter P ds)"
proof -
  have "distinct (map doc_id (filter P ds))" using assms by (simp add: ref_valid_def distinct_map_filter)
  from distinct_card [OF this] show ?thesis by simp
qed

lemma ref_update_many_law:
  assumes "\<forall>c. ref_valid c (docs_of c s)" "ref_update_many c f u s = (r, s')"
  shows "writes_to ref_view c s s' \<and> (case r of
     Inl e \<Rightarrow> s' = s
   | Inr n \<Rightarrow> ref_table (docs_of c s') = update_all f u (ref_table (docs_of c s)) \<and>
       n = int (card {i. ref_table (docs_of c s') i \<noteq> ref_table (docs_of c s) i}))"
proof (cases "ref_replace c (map (\<lambda>d. if fmatch f d then uapply u d else d) (docs_of c s)) s")
  case None
  with assms writes_same [OF assms(1)] show ?thesis by (auto simp: ref_update_many_def)
next
  case (Some s1)
  let ?ds = "docs_of c s" and ?g = "\<lambda>d. if fmatch f d then uapply u d else d"
  have r: "r = Inr (int (length (filter (\<lambda>d. fmatch f d \<and> uapply u d \<noteq> d) ?ds)))" "s1 = s'"
    using assms(2) Some by (simp_all add: ref_update_many_def)
  note rep = ref_replace_law [OF assms(1) Some [unfolded r(2)]]
  have v: "ref_valid c ?ds" using assms(1) by blast
  have tab: "ref_table (docs_of c s') = update_all f u (ref_table ?ds)"
    unfolding rep(2) update_all_def ..
  have "{i. ref_table (docs_of c s') i \<noteq> ref_table ?ds i} = doc_id ` set (filter (\<lambda>d. ?g d \<noteq> d) ?ds)"
  proof (rule set_eqI)
    fix i
    have "ref_table (docs_of c s') i \<noteq> ref_table ?ds i \<longleftrightarrow> (\<exists>d. ref_table ?ds i = Some d \<and> ?g d \<noteq> d)"
      unfolding rep(2) by (cases "ref_table ?ds i") auto
    then show "i \<in> {i. ref_table (docs_of c s') i \<noteq> ref_table ?ds i} \<longleftrightarrow> i \<in> doc_id ` set (filter (\<lambda>d. ?g d \<noteq> d) ?ds)"
      unfolding mem_Collect_eq by (simp only: table_image [OF v])
  qed
  moreover have "card (doc_id ` set (filter (\<lambda>d. ?g d \<noteq> d) ?ds)) = length (filter (\<lambda>d. ?g d \<noteq> d) ?ds)"
    by (rule card_ids [OF v])
  moreover have "filter (\<lambda>d. ?g d \<noteq> d) ?ds = filter (\<lambda>d. fmatch f d \<and> uapply u d \<noteq> d) ?ds"
    by (rule filter_cong) auto
  ultimately show ?thesis using rep(1) tab r(1) by simp
qed

lemma ref_delete_law:
  assumes "\<forall>c. ref_valid c (docs_of c s)" "ref_delete c f s = (rn, s')"
  shows "writes_to ref_view c s s' \<and>
    (ref_table (docs_of c s') = ref_table (docs_of c s) \<and> (\<forall>n. rn = Inr n \<longrightarrow> n = 0 \<and> hits f (ref_table (docs_of c s)) = {}) \<or>
     (\<exists>i \<in> hits f (ref_table (docs_of c s)). ref_table (docs_of c s') = (ref_table (docs_of c s))(i := None) \<and>
       (\<forall>n. rn = Inr n \<longrightarrow> n = 1)))"
proof (cases "filter (fmatch f) (docs_of c s)")
  case Nil
  have v: "ref_valid c (docs_of c s)" using assms(1) by blast
  have "hits f (ref_table (docs_of c s)) = {}"
    using Nil by (auto simp: ref_find_hits [OF v, of f "[]"] ref_find_set filter_empty_conv)
  with Nil assms writes_same [OF assms(1)] show ?thesis by (auto simp: ref_delete_def)
next
  case (Cons x xs)
  have v: "ref_valid c (docs_of c s)" using assms(1) by blast
  let ?ds = "filter (\<lambda>d. doc_id d \<noteq> doc_id x) (docs_of c s)"
  have r: "rn = Inr 1" "s' = put_docs c ?ds s" using assms(2) Cons by (simp_all add: ref_delete_def)
  have v': "ref_valid c ?ds"
    using v by (auto simp: ref_valid_def list_all_iff distinct_map_filter sorted_wrt_filter)
  have w: "writes_to ref_view c s s'" by (rule writes_put [OF assms(1) v']) (simp_all add: r(2))
  have x: "x \<in> set (docs_of c s)" "fmatch f x" using Cons by (auto simp: filter_eq_Cons_iff)
  then have "doc_id x \<in> hits f (ref_table (docs_of c s))" using ref_table_iff [OF v] by (auto simp: hits_def)
  moreover have "ref_table ?ds = (ref_table (docs_of c s))(doc_id x := None)"
  proof
    fix i
    have "ref_table ?ds i = Some d \<longleftrightarrow> ((ref_table (docs_of c s))(doc_id x := None)) i = Some d" for d
      by (auto simp: ref_table_iff [OF v] ref_table_iff [OF v'])
    then show "ref_table ?ds i = ((ref_table (docs_of c s))(doc_id x := None)) i"
      by (metis not_None_eq)
  qed
  ultimately show ?thesis using w r by auto
qed

lemma ref_find_listing:
  assumes "ref_valid c ds"
  shows "listing f srt (ref_table ds) (ref_find f srt ds)"
proof -
  have "mset (map doc_id (ref_find f srt ds)) = mset (map doc_id (filter (fmatch f) ds))"
    by (simp add: ref_find_def)
  then have "distinct (map doc_id (ref_find f srt ds)) \<longleftrightarrow> distinct (map doc_id (filter (fmatch f) ds))"
    by (rule mset_eq_imp_distinct_iff)
  moreover have "distinct (map doc_id (filter (fmatch f) ds))"
    using assms by (simp add: ref_valid_def distinct_map_filter)
  moreover have "set (ref_find f srt ds) = {d. \<exists>i. ref_table ds i = Some d \<and> fmatch f d}"
    by (auto simp: ref_find_set ref_table_iff [OF assms])
  ultimately show ?thesis using ref_find_sorted by (simp add: listing_def)
qed

lemma ref_filter_listing:
  assumes "ref_valid c ds"
  shows "listing f [] (ref_table ds) (filter (fmatch f) ds)"
proof -
  have "sorted_wrt (sort_le []) xs" for xs by (induction xs) simp_all
  moreover have "distinct (map doc_id (filter (fmatch f) ds))" using assms by (simp add: ref_valid_def distinct_map_filter)
  ultimately show ?thesis by (auto simp: listing_def ref_table_iff [OF assms])
qed

lemma ref_group_law:
  assumes "ref_group k ks all = Inr ds"
  shows "distinct (map doc_id ds)" "(\<lambda>d. map_of d ''_id'') ` set ds = (\<lambda>d. Some (or_null (map_of d k))) ` set all"
    "d \<in> set ds \<Longrightarrow> q \<in> set ks \<Longrightarrow> map_of d q =
      Some (BInt (sum_field q (filter (\<lambda>e. or_null (map_of e k) = doc_id d) all)))"
proof -
  let ?row = "\<lambda>v. (''_id'', v) # map (\<lambda>q. (q, BInt (sum_field q (filter (\<lambda>e. or_null (map_of e k) = v) all)))) ks"
  have ds: "ds = map ?row (remdups (map (\<lambda>d. or_null (map_of d k)) all))" "''_id'' \<notin> set ks"
    using assms by (auto simp: ref_group_def split: if_splits)
  have id: "doc_id (?row v) = v" for v by (simp add: doc_id_def)
  then show "distinct (map doc_id ds)" by (simp add: ds(1) comp_def)
  show "(\<lambda>d. map_of d ''_id'') ` set ds = (\<lambda>d. Some (or_null (map_of d k))) ` set all"
    by (simp add: ds(1) image_image)
  assume "d \<in> set ds" and q: "q \<in> set ks"
  then obtain v where d: "d = ?row v" by (auto simp: ds(1))
  have "q \<noteq> ''_id''" using q ds(2) by metis
  moreover have "map_of (map (\<lambda>q. (q, g q)) ks) q = Some (g q)" for g :: "string \<Rightarrow> bval"
    using q by (simp add: map_of_map_restrict)
  ultimately show "map_of d q = Some (BInt (sum_field q (filter (\<lambda>e. or_null (map_of e k) = doc_id d) all)))"
    by (simp add: d doc_id_def)
qed

section \<open>The interpretation\<close>

lemma ref_sel [simp]:
  "dv_ObjectID ref_driver s = (Suc (rs_next s), s\<lparr>rs_next := Suc (rs_next s)\<rparr>)"
  "dv_uuid ref_driver s = (ref_uuid (rs_tokens s), s\<lparr>rs_tokens := Suc (rs_tokens s)\<rparr>)"
  "dv_hex ref_driver = digits" "dv_unhex ref_driver = ref_unhex"
  "dv_InsertOne ref_driver = ref_insert" "dv_InsertMany ref_driver = ref_insert_many"
  "dv_FindOneAndUpdate ref_driver = ref_find_update" "dv_UpdateOne ref_driver = ref_update_one"
  "dv_UpdateMany ref_driver = ref_update_many" "dv_BulkWrite ref_driver = ref_bulk" "dv_DeleteOne ref_driver = ref_delete"
  "dv_Find ref_driver c f srt lim ps s = Inr (map (project ps) (limited lim (ref_find f srt (docs_of c s))))"
  "dv_FindOne ref_driver c f srt ps s = (case ref_find f srt (docs_of c s) of
     [] \<Rightarrow> Inl NoDocuments | d # _ \<Rightarrow> Inr (project ps d))"
  "dv_Count ref_driver c f s = Inr (int (length (filter (fmatch f) (docs_of c s))))"
  "dv_GroupSum ref_driver c f k ks s = ref_group k ks (filter (fmatch f) (docs_of c s))"
  "dv_CreateMetricsIndexes ref_driver ttl s = (None, s)" "dv_CollModTTL ref_driver ttl s = (None, s)"
  by (simp_all add: ref_driver_def)

lemma ref_uuid_inject [simp]: "ref_uuid m = ref_uuid n \<longleftrightarrow> m = n"
  by (simp add: ref_uuid_def)

lemma ref_find_update_law:
  assumes "\<forall>c. ref_valid c (docs_of c s)" "ref_find_update c f u srt s = (r, s')"
  shows "writes_to ref_view c s s' \<and> (case r of
     Inr d' \<Rightarrow> (\<exists>i d. ref_table (docs_of c s) i = Some d \<and> fmatch f d \<and> d' = uapply u d \<and>
        ref_table (docs_of c s') = (ref_table (docs_of c s))(i \<mapsto> d') \<and>
        (\<forall>j e. ref_table (docs_of c s) j = Some e \<longrightarrow> fmatch f e \<longrightarrow> sort_le srt d e))
   | Inl e \<Rightarrow> s' = s \<and> (e = NoDocuments \<longrightarrow> hits f (ref_table (docs_of c s)) = {}))"
proof -
  obtain r1 where r1: "ref_update1 c f u srt s = (r1, s')"
      "r = (case r1 of Inl e \<Rightarrow> Inl e | Inr None \<Rightarrow> Inl NoDocuments | Inr (Some d) \<Rightarrow> Inr d)"
    using assms(2) by (auto simp: ref_find_update_def split: prod.splits sum.splits option.splits)
  note one = ref_update1_law [OF assms(1) r1(1)]
  show ?thesis
  proof (cases r1)
    case (Inl e)
    with one r1(2) show ?thesis by auto
  next
    case (Inr d)
    show ?thesis
    proof (cases d)
      case None
      with one r1(2) Inr show ?thesis by auto
    next
      case (Some d')
      with one r1(2) Inr have w: "writes_to ref_view c s s'" "r = Inr d'" by simp_all
      obtain x where "ref_table (docs_of c s) (doc_id x) = Some x" "fmatch f x" "d' = uapply u x"
        "ref_table (docs_of c s') = (ref_table (docs_of c s))(doc_id x \<mapsto> d')"
        "\<forall>j e. ref_table (docs_of c s) j = Some e \<longrightarrow> fmatch f e \<longrightarrow> sort_le srt x e"
        using one unfolding Inr Some sum.case option.case by blast
      with w(1) show ?thesis unfolding w(2) sum.case by blast
    qed
  qed
qed

lemma ref_update_one_law:
  assumes "\<forall>c. ref_valid c (docs_of c s)" "ref_update_one c f u ups s = (r, s')"
  shows "writes_to ref_view c s s' \<and> (\<not> ups \<longrightarrow> (case r of
     Inl e \<Rightarrow> s' = s
   | Inr n \<Rightarrow> update_seq [(f, u)] (ref_table (docs_of c s)) n (ref_table (docs_of c s')))) \<and>
    (ups \<longrightarrow> (\<forall>n. r = Inr n \<longrightarrow> (if hits f (ref_table (docs_of c s)) = {}
         then \<exists>e. stored_doc (upsert_doc f u) e \<and> inserted [e] (ref_table (docs_of c s)) (ref_table (docs_of c s'))
         else update_seq [(f, u)] (ref_table (docs_of c s)) n (ref_table (docs_of c s')))))"
proof -
  obtain r1 s1 where r1: "ref_update1 c f u [] s = (r1, s1)" by fastforce
  note one = ref_update1_law [OF assms(1) r1]
  show ?thesis
  proof (cases r1)
    case (Inl e)
    with one r1 assms(2) show ?thesis by (auto simp: ref_update_one_def)
  next
    case (Inr d)
    have seq: "update_seq [(f, u)] (ref_table (docs_of c s)) (matched d) (ref_table (docs_of c s1))"
      using update1_seq [OF assms(1) r1 [unfolded Inr] useq_nil] by simp
    have hit: "hits f (ref_table (docs_of c s)) = {} \<longleftrightarrow> d = None" using one Inr by (cases d) (auto simp: hits_def)
    show ?thesis
    proof (cases "d = None \<and> ups")
      case True
      then have s1: "s1 = s" using one Inr by simp
      obtain r2 s2 where r2: "ref_insert c (upsert_doc f u) s = (r2, s2)" by fastforce
      note ins = ref_insert_law [OF assms(1) r2]
      have "r = (case r2 of None \<Rightarrow> Inr 0 | Some e \<Rightarrow> Inl e)" "s' = s2"
        using assms(2) r1 Inr True s1 r2 by (auto simp: ref_update_one_def split: option.splits)
      with ins hit True show ?thesis by (cases r2) auto
    next
      case False
      then have "r = Inr (matched d)" "s' = s1" using assms(2) r1 Inr by (auto simp: ref_update_one_def)
      with seq one hit False show ?thesis by auto
    qed
  qed
qed

interpretation ref: mongo_store ref_driver ref_view 2 clk for clk :: "refserver \<Rightarrow> gtime"
proof (unfold_locales, goal_cases)
  case (1 s c)
  then have v: "ref_valid c (docs_of c s)" by simp
  have "dom (ref_table (docs_of c s)) \<subseteq> doc_id ` set (docs_of c s)" by (auto simp: ref_table_iff [OF v])
  then have "finite (dom (ref_table (docs_of c s)))" by (rule finite_subset) simp
  then show ?case using ref_valid_id [OF v] by (auto simp: ref_table_iff [OF v])
next
  case (2 s c i d j e)
  then have v: "ref_valid c (docs_of c s)" by simp
  show ?case using 2 ref_valid_clash [OF v] by (auto simp: ref_table_iff [OF v])
next
  case 3 then show ?case by (simp add: ref_unhex_def)
next
  case 4 then show ?case by auto
next
  case 5 then show ?case by (auto simp: lessThan_Suc ref_uuid_def)
next
  case (6 s c d r s')
  then show ?case using ref_insert_law [of s c d r s'] by (cases r) auto
next
  case 7 then show ?case using ref_insert_many_law by simp
next
  case 8 then show ?case using ref_find_update_law by fastforce
next
  case 9 then show ?case using ref_find_update_law by fastforce
next
  case 10 then show ?case using ref_find_update_law by fastforce
next
  case 11 then show ?case using ref_update_one_law by fastforce
next
  case 12 then show ?case using ref_update_one_law by fastforce
next
  case 13 then show ?case using ref_update_one_law by fastforce
next
  case 14 then show ?case using ref_update_many_law by fastforce
next
  case 15 then show ?case using ref_update_many_law by (fastforce simp: partly_updated_def)
next
  case 16 then show ?case using ref_bulk_law by fastforce
next
  case 17 then show ?case using ref_bulk_law by fastforce
next
  case 18 then show ?case using ref_delete_law by simp
next
  case 19 then show ?case using ref_find_listing by fastforce
next
  case (20 s c f srt ps d)
  then obtain x xs where x: "ref_find f srt (docs_of c s) = x # xs" "d = project ps x" by (auto split: list.splits)
  have v: "ref_valid c (docs_of c s)" using 20 by simp
  from ref_find_Cons [OF v x(1)] x(2) show ?case by auto
next
  case (21 s c f srt ps)
  then have v: "ref_valid c (docs_of c s)" and "ref_find f srt (docs_of c s) = []" by (auto split: list.splits)
  with ref_find_hits [OF v, of f srt] show ?case by simp
next
  case (22 s c f n)
  then have v: "ref_valid c (docs_of c s)" and n: "n = int (length (filter (fmatch f) (docs_of c s)))" by simp_all
  with n card_ids [OF v, of "fmatch f"] ref_find_hits [OF v, of f "[]"] show ?case by (simp add: ref_find_set)
next
  case (23 s c f k ks ds)
  then have v: "ref_valid c (docs_of c s)" and g: "ref_group k ks (filter (fmatch f) (docs_of c s)) = Inr ds" by simp_all
  let ?all = "filter (fmatch f) (docs_of c s)"
  have "\<forall>d \<in> set ds. \<forall>q \<in> set ks. map_of d q =
      Some (BInt (sum_field q (filter (\<lambda>e. or_null (map_of e k) = doc_id d) ?all)))"
    using ref_group_law(3) [OF g] by blast
  with ref_filter_listing [OF v, of f] ref_group_law(1,2) [OF g] show ?case
    unfolding ref_view_sel by (intro exI [of _ ?all] conjI)
next
  case 24 then show ?case by simp
next
  case 25 then show ?case by simp
next
  case 26 then show ?case by (auto simp: ref_unhex_def Let_def split: if_splits)
next
  case 27 then show ?case by simp
qed

end
