(* ===== verification/Mongo_Runs.thy ===== *)
theory Mongo_Runs
  imports Mongo_Reference Memstore_Claims
begin

text \<open>
  The MongoDB store as a whole: what a program of calls on it can observe, from the contract its
  refinement gives, for every driver and server that behave as documented (\<open>mongo dr mv\<close>). The
  witnesses run it on the reference server.
\<close>

section \<open>Runs\<close>

definition mg_ops :: "'s driver \<Rightarrow> nat \<Rightarrow> ('s \<Rightarrow> gtime) \<Rightarrow> 's store" where
  "mg_ops dr chunk clk = mongostore_ops (strict_ids dr) chunk clk"

text \<open>A server with an empty tasks collection.\<close>

definition mongo_fresh :: "'s driver \<Rightarrow> 's mview \<Rightarrow> nat \<Rightarrow> 's \<Rightarrow> bool" where
  "mongo_fresh dr mv chunk s \<longleftrightarrow> mongo dr mv \<and> 0 < chunk \<and> mv_ok mv s \<and> mv_db mv s TasksCol = Map.empty"

lemma msim_init: "mongo_fresh dr mv chunk s \<Longrightarrow> msim dr mv s cinit"
  by (simp add: mongo_fresh_def msim_def tsim_def cinit_def)

lemma fresh_contract: "mongo_fresh dr mv chunk s \<Longrightarrow> store_contract (mg_ops dr chunk clk) (msim dr mv)"
  unfolding mg_ops_def mongo_fresh_def by (rule mongo_contract) simp_all

lemma mg_run_sim:
  assumes "mongo_fresh dr mv chunk s0" "calls_ok ks"
  shows "\<exists>es c. set es \<subseteq> (\<Union>(now, k) \<in> set ks. call_events now k) \<and> cexec cinit es c \<and>
    msim dr mv (run_calls (mg_ops dr chunk clk) ks s0) c"
  using store_contract.run_sim [OF fresh_contract [OF assms(1)] msim_init [OF assms(1)] assms(2)]
  by (auto simp: may_advance_def advances_def)

text \<open>What a document says of a task.\<close>

definition doc_task :: "bdoc option \<Rightarrow> atask option" where
  "doc_task d = (case d of None \<Rightarrow> None | Some d \<Rightarrow> map_option abs_doc (td_decode d))"

lemma msim_docs:
  assumes "msim dr mv s c" "inj (dv_hex dr)"
  shows "c_tasks c (dv_hex dr k) = doc_task (mv_db mv s TasksCol (BOid k))"
proof (cases "mv_db mv s TasksCol (BOid k)")
  case None
  then have "c_tasks c (dv_hex dr k) = None"
    using msim_tsim [OF assms(1)] assms(2) unfolding tsim_def by (metis inj_eq not_Some_eq option.distinct(1))
  with None show ?thesis by (simp add: doc_task_def)
next
  case (Some d)
  obtain q t where "BOid k = BOid q" "doc_ok (mv_tokens mv s) d t" "c_tasks c (dv_hex dr q) = Some (abs_doc t)"
    by (rule tsim_lookup [OF msim_tsim [OF assms(1)] Some])
  with Some show ?thesis by (simp add: doc_task_def doc_ok_def)
qed

section \<open>A small server\<close>

definition demo_ref :: "(gtime \<times> call) list \<Rightarrow> refserver" where
  "demo_ref ks = run_calls (mg_ops ref_driver 2 (\<lambda>_. 5)) ks ref_init"

lemma ref_fresh: "mongo_fresh ref_driver ref_view 2 ref_init"
proof -
  have "ref_valid c (docs_of c ref_init)" "docs_of c ref_init = []" for c
    by (cases c; simp add: ref_init_def ref_valid_def)+
  then show ?thesis using ref.mongo_axioms by (simp add: mongo_fresh_def ref_table_def)
qed

section \<open>Refinement and types\<close>

text \<open>
  C2: refinement. Every program of calls on the MongoDB store, started on an empty collection, is a
  run of the abstract machine the \<open>Store\<close> interface documents: the documents of the collection are
  that machine's tasks.
\<close>

theorem mongostore_refines_contract:
  assumes "mongo_fresh dr mv chunk s0" "calls_ok ks"
  shows "\<exists>es c. cexec cinit es c \<and> set es \<subseteq> (\<Union>(now, k) \<in> set ks. call_events now k) \<and>
    (\<forall>k. c_tasks c (dv_hex dr k) = doc_task (mv_db mv (run_calls (mg_ops dr chunk clk) ks s0) TasksCol (BOid k)))"
proof -
  have "inj (dv_hex dr)" using assms(1) mongo.inj_hex by (auto simp: mongo_fresh_def)
  with mg_run_sim [OF assms] msim_docs show ?thesis by metis
qed

lemma mongostore_refines_contract_witness:
  "\<exists>es c. cexec cinit es c \<and> set es \<subseteq> (\<Union>(now, k) \<in> set demo_calls. call_events now k) \<and>
    (\<forall>k. c_tasks c (digits k) = doc_task (ref_table (rs_tasks (demo_ref demo_calls)) (BOid k)))"
proof -
  have "dv_hex ref_driver = digits" "mv_db ref_view s TasksCol = ref_table (rs_tasks s)" for s
    by (simp_all add: ref_driver_def)
  with mongostore_refines_contract [OF ref_fresh demo_ok] show ?thesis by (simp add: demo_ref_def)
qed

text \<open>
  C19: documents are well typed. In every store a program reaches, each document of the tasks
  collection decodes to a task under its own id with one of the four states, and carries a lease
  token exactly while it is running.
\<close>

theorem mongo_documents_typed:
  assumes "mongo_fresh dr mv chunk s0" "calls_ok ks"
    and "mv_db mv (run_calls (mg_ops dr chunk clk) ks s0) TasksCol i = Some d"
  shows "\<exists>t st. td_decode d = Some t \<and> i = BOid (td_ID t) \<and> status_of (td_Status t) = Some st \<and>
    (td_LeaseToken t \<noteq> [] \<longleftrightarrow> st = StatusRunning)"
proof -
  obtain c where c: "msim dr mv (run_calls (mg_ops dr chunk clk) ks s0) c" using mg_run_sim [OF assms(1,2)] by blast
  obtain k t where t: "i = BOid k" "doc_ok (mv_tokens mv (run_calls (mg_ops dr chunk clk) ks s0)) d t" "td_ID t = k"
    by (rule tsim_lookup [OF msim_tsim [OF c] assms(3)])
  obtain st where "td_Status t = status_str st" using t(2) by (auto simp: doc_ok_def statuses_def)
  then have "status_of (td_Status t) = Some st" "td_Status t = ''running'' \<longleftrightarrow> st = StatusRunning"
    by (cases st; simp add: status_of_def)+
  with t show ?thesis by (auto simp: doc_ok_def)
qed

lemma mongo_documents_typed_witness:
  "\<exists>t. td_decode (hd (rs_tasks (demo_ref demo_calls))) = Some t \<and> td_ID t = 1"
proof -
  have 1: "map_of (hd (rs_tasks (demo_ref demo_calls))) ''_id'' = Some (BOid 1)" by code_simp
  have "rs_tasks (demo_ref demo_calls) \<noteq> []" by code_simp
  then have "ref_table (rs_tasks (demo_ref demo_calls)) (BOid 1) = Some (hd (rs_tasks (demo_ref demo_calls)))"
    using 1 by (cases "rs_tasks (demo_ref demo_calls)") (simp_all add: ref_table_def doc_id_def)
  then have "mv_db ref_view (run_calls (mg_ops ref_driver 2 (\<lambda>_. 5)) demo_calls ref_init) TasksCol (BOid 1) =
      Some (hd (rs_tasks (demo_ref demo_calls)))" by (simp add: demo_ref_def)
  from mongo_documents_typed [OF ref_fresh demo_ok this] show ?thesis by auto
qed

end
