(* ===== verification/Mongo_Listing.thy ===== *)
theory Mongo_Listing
  imports Mongo_Runs
begin

text \<open>
  \<open>ListTasks\<close> of the MongoDB store (\<open>stores/mongostore/introspection.go\<close>): its pages are consecutive
  pieces of the matching tasks, newest first.
\<close>

section \<open>Listing tasks page by page\<close>

definition doc_oid :: "bdoc \<Rightarrow> oid" where
  "doc_oid d = (case doc_id d of BOid k \<Rightarrow> k | _ \<Rightarrow> 0)"

text \<open>The ids of the tasks a query matches, below its cursor when it has one.\<close>

definition query_ids :: "table \<Rightarrow> task_query \<Rightarrow> oid option \<Rightarrow> oid set" where
  "query_ids m q cur = {k. \<exists>d. m (BOid k) = Some d \<and> fmatch (FAnd (query_filter q)) d \<and> (\<forall>b. cur = Some b \<longrightarrow> k < b)}"

lemma newest_first:
  assumes "map_of d ''_id'' = Some (BOid k)" "map_of e ''_id'' = Some (BOid j)"
  shows "sort_le [(''_id'', False)] d e \<longleftrightarrow> j \<le> k"
  using assms by (auto simp: vlt_def)

lemma newest_listing:
  assumes "\<forall>i d. m i = Some d \<longrightarrow> (\<exists>k. i = BOid k \<and> map_of d ''_id'' = Some i)" "listing f [(''_id'', False)] m all"
  shows "sorted_wrt (>) (map doc_oid all)" "set (map doc_oid all) = {k. \<exists>d. m (BOid k) = Some d \<and> fmatch f d}"
    "d \<in> set all \<Longrightarrow> m (BOid (doc_oid d)) = Some d"
proof -
  have id: "\<exists>k. d = d \<and> m (BOid k) = Some d \<and> map_of d ''_id'' = Some (BOid k) \<and> doc_id d = BOid k \<and> doc_oid d = k \<and> fmatch f d"
    if d: "d \<in> set all" for d
  proof -
    obtain i where i: "m i = Some d" "fmatch f d" using assms(2) d by (auto simp: listing_def)
    then obtain k where "i = BOid k" "map_of d ''_id'' = Some (BOid k)" using assms(1) by blast
    with i show ?thesis by (simp add: doc_id_def doc_oid_def)
  qed
  show "d \<in> set all \<Longrightarrow> m (BOid (doc_oid d)) = Some d" using id by blast
  have "sorted_wrt (sort_le [(''_id'', False)]) all" "distinct (map doc_id all)" using assms(2) by (simp_all add: listing_def)
  then show "sorted_wrt (>) (map doc_oid all)" using id
  proof (induction all)
    case (Cons d all)
    have "doc_oid e < doc_oid d" if e: "e \<in> set all" for e
    proof -
      obtain k where k: "map_of d ''_id'' = Some (BOid k)" "doc_id d = BOid k" "doc_oid d = k"
        using Cons.prems(3) [of d] by auto
      obtain j where j: "map_of e ''_id'' = Some (BOid j)" "doc_id e = BOid j" "doc_oid e = j"
        using Cons.prems(3) [of e] e by auto
      have "sort_le [(''_id'', False)] d e" using Cons.prems(1) e by simp
      then have "j \<le> k" unfolding newest_first [OF k(1) j(1)] .
      moreover have "doc_id d \<noteq> doc_id e" using Cons.prems(2) e by (metis distinct.simps(2) image_eqI list.set_map list.simps(9))
      ultimately show ?thesis using k j by simp
    qed
    with Cons show ?case by auto
  qed simp
  show "set (map doc_oid all) = {k. \<exists>d. m (BOid k) = Some d \<and> fmatch f d}"
  proof (intro set_eqI iffI)
    fix k assume "k \<in> set (map doc_oid all)"
    then show "k \<in> {k. \<exists>d. m (BOid k) = Some d \<and> fmatch f d}" using id by fastforce
  next
    fix k assume "k \<in> {k. \<exists>d. m (BOid k) = Some d \<and> fmatch f d}"
    then obtain d where d: "m (BOid k) = Some d" "fmatch f d" by blast
    then have "d \<in> set all" using assms(2) by (auto simp: listing_def)
    moreover from id [OF this] have "doc_oid d = k" using d(1) assms(1) by (metis bval.inject(4) option.inject)
    ultimately show "k \<in> set (map doc_oid all)" by force
  qed
qed

lemma sorted_page:
  assumes "sorted_wrt (>) (ks :: nat list)"
  shows "distinct ks" "\<forall>k \<in> set ks - set (take n ks). \<forall>j \<in> set (take n ks). k < j"
proof -
  show "distinct ks" using assms by (induction ks) auto
  have "sorted_wrt (>) (take n ks @ drop n ks)" using assms by simp
  then have "\<forall>j \<in> set (take n ks). \<forall>k \<in> set (drop n ks). k < j" unfolding sorted_wrt_append by blast
  moreover have "set ks - set (take n ks) \<subseteq> set (drop n ks)" by (metis Diff_subset_conv append_take_drop_id order_refl set_append)
  ultimately show "\<forall>k \<in> set ks - set (take n ks). \<forall>j \<in> set (take n ks). k < j" by blast
qed

text \<open>The decoded tasks of a page carry the ids of its documents.\<close>

lemma decoded_page:
  assumes "tsim (dv_hex dr) toks m c" "\<forall>d \<in> set ds. m (BOid (doc_oid d)) = Some d"
    and "all_results (map (decode_task dr what) ds) = Inr ts"
  shows "map t_ID ts = map (dv_hex dr) (map doc_oid ds)"
proof (rule nth_equalityI)
  have dec: "map (decode_task dr what) ds = map Inr ts" using assms(3) by (simp add: all_results_Inr)
  have lt: "length ts = length ds" using arg_cong [OF dec, of length] by simp
  then show "length (map t_ID ts) = length (map (dv_hex dr) (map doc_oid ds))" by simp
  fix j assume "j < length (map t_ID ts)"
  then have j: "j < length ts" "j < length ds" using lt by simp_all
  have "decode_task dr what (ds ! j) = Inr (ts ! j)" using arg_cong [OF dec, of "\<lambda>xs. xs ! j"] j by simp
  moreover have "m (BOid (doc_oid (ds ! j))) = Some (ds ! j)" using assms(2) nth_mem [OF j(2)] by blast
  ultimately obtain k where "BOid (doc_oid (ds ! j)) = BOid k" "t_ID (ts ! j) = dv_hex dr k"
    using decoded_task [OF assms(1)] by blast
  with j show "map t_ID ts ! j = map (dv_hex dr) (map doc_oid ds) ! j" by simp
qed

lemma list_page:
  assumes "mongo_fresh dr mv chunk s0" "calls_ok cs" "s = run_calls (mg_ops dr chunk clk) cs s0"
    and "mg_ListTasks dr q s = Inr (ts, cnt)"
  shows "\<exists>ks cur. (tq_Before q = [] \<longrightarrow> cur = None) \<and> (tq_Before q \<noteq> [] \<longrightarrow> cur \<noteq> None \<and> dv_unhex dr (tq_Before q) = cur) \<and>
    map t_ID ts = map (dv_hex dr) ks \<and> sorted_wrt (>) ks \<and> set ks \<subseteq> query_ids (mv_db mv s TasksCol) q cur \<and>
    length ks = min (nat (clamp_limit (tq_Limit q))) (card (query_ids (mv_db mv s TasksCol) q cur)) \<and>
    (\<forall>k \<in> query_ids (mv_db mv s TasksCol) q cur - set ks. \<forall>j \<in> set ks. k < j) \<and>
    cnt = int (card (query_ids (mv_db mv s TasksCol) q None))"
proof -
  have m: "mongo dr mv" using assms(1) by (simp add: mongo_fresh_def)
  obtain c where "msim dr mv (run_calls (mg_ops dr chunk clk) cs s0) c" using mg_run_sim [OF assms(1,2)] by blast
  then have c: "msim dr mv s c" by (simp add: assms(3))
  let ?m = "mv_db mv s TasksCol" and ?L = "nat (clamp_limit (tq_Limit q))"
  have oids: "\<forall>i d. ?m i = Some d \<longrightarrow> (\<exists>k. i = BOid k \<and> map_of d ''_id'' = Some i)"
    using msim_tsim [OF c] unfolding tsim_def by blast
  obtain cursor ds where r: "dv_Count dr TasksCol (FAnd (query_filter q)) s = Inr cnt" "before_filter dr q = Inr cursor"
      "dv_Find dr TasksCol (FAnd (query_filter q @ cursor)) [(''_id'', False)] (Some ?L) [] s = Inr ds"
      "all_results (map (decode_task dr ''list tasks'') ds) = Inr ts"
    using assms(4) by (auto simp: mg_ListTasks_def split: sum.splits)
  define cur where "cur = (if tq_Before q = [] then None else dv_unhex dr (tq_Before q))"
  have cur: "(tq_Before q = [] \<longrightarrow> cur = None) \<and> (tq_Before q \<noteq> [] \<longrightarrow> cur \<noteq> None \<and> dv_unhex dr (tq_Before q) = cur)"
      "cursor = (case cur of None \<Rightarrow> [] | Some b \<Rightarrow> [FField ''_id'' (CLt (BOid b))])"
    using r(2) by (auto simp: before_filter_def oid_of_def cur_def split: if_splits option.splits)
  obtain all where all: "listing (FAnd (query_filter q @ cursor)) [(''_id'', False)] ?m all" "ds = take ?L all"
    using mongo.find_docs [OF m msim_ok [OF c] r(3)] by (auto simp: limited_def)
  note new = newest_listing [OF oids all(1)]
  have ids: "{k. \<exists>d. ?m (BOid k) = Some d \<and> fmatch (FAnd (query_filter q @ cursor)) d} = query_ids ?m q cur"
  proof (rule set_eqI)
    fix k
    have "map_of d ''_id'' = Some (BOid k)" if "?m (BOid k) = Some d" for d using oids that by blast
    then show "k \<in> {k. \<exists>d. ?m (BOid k) = Some d \<and> fmatch (FAnd (query_filter q @ cursor)) d} \<longleftrightarrow> k \<in> query_ids ?m q cur"
      unfolding cur(2) by (cases cur) (auto simp: query_ids_def)
  qed
  let ?all = "map doc_oid all"
  have M: "set ?all = query_ids ?m q cur" using new(2) ids by simp
  note page = sorted_page(1) [OF new(1)] sorted_page(2) [OF new(1), of ?L]
  have "card (query_ids ?m q cur) = length ?all" using distinct_card [OF page(1)] unfolding M .
  then have len: "length (take ?L ?all) = min ?L (card (query_ids ?m q cur))" by (simp add: min.commute)
  have "\<forall>d \<in> set ds. ?m (BOid (doc_oid d)) = Some d" using new(3) in_set_takeD [of _ ?L all] unfolding all(2) by blast
  from decoded_page [OF msim_tsim [OF c] this r(4)]
  have "map t_ID ts = map (dv_hex dr) (take ?L ?all)" by (simp add: all(2) take_map)
  moreover have "sorted_wrt (>) (take ?L ?all)" using new(1) by (rule sorted_wrt_take)
  moreover have "set (take ?L ?all) \<subseteq> query_ids ?m q cur" using set_take_subset M by metis
  moreover have "cnt = int (card (query_ids ?m q None))"
  proof -
    have "hits (FAnd (query_filter q)) ?m = BOid ` query_ids ?m q None"
      using oids by (fastforce simp: hits_def query_ids_def)
    then show ?thesis using mongo.count [OF m msim_ok [OF c] r(1)] by (simp add: card_image inj_on_def)
  qed
  ultimately show ?thesis using cur(1) page(2) len unfolding M by blast
qed

text \<open>
  C31: a page of tasks. \<open>ListTasks\<close> returns, newest first and without repetition, the newest matching
  tasks below the cursor, as many as the clamped limit allows, and leaves out only older ones; its
  total counts all matching tasks. Following the last id of each page as the next cursor therefore
  visits every matching task once.
\<close>

theorem mongo_list_page:
  assumes "mongo_fresh dr mv chunk s0" "calls_ok cs" "s = run_calls (mg_ops dr chunk clk) cs s0"
    and "mg_ListTasks dr q s = Inr (ts, cnt)"
  shows "\<exists>ks cur. (tq_Before q = [] \<longrightarrow> cur = None) \<and> (tq_Before q \<noteq> [] \<longrightarrow> cur \<noteq> None \<and> dv_unhex dr (tq_Before q) = cur) \<and>
    map t_ID ts = map (dv_hex dr) ks \<and> sorted_wrt (>) ks \<and> set ks \<subseteq> query_ids (mv_db mv s TasksCol) q cur \<and>
    length ks = min (nat (clamp_limit (tq_Limit q))) (card (query_ids (mv_db mv s TasksCol) q cur)) \<and>
    (\<forall>k \<in> query_ids (mv_db mv s TasksCol) q cur - set ks. \<forall>j \<in> set ks. k < j) \<and>
    cnt = int (card (query_ids (mv_db mv s TasksCol) q None))"
  using assms by (rule list_page)

definition demo_query :: task_query where
  "demo_query = \<lparr>tq_Queue = ''q'', tq_Status = [], tq_Type = [], tq_Limit = 1, tq_Before = digits 2\<rparr>"

lemma demo_page: "case mg_ListTasks ref_driver demo_query (demo_ref demo_calls) of Inr (ts, cnt) \<Rightarrow> length ts = 1 \<and> cnt = 2 | _ \<Rightarrow> False"
  by code_simp

lemma mongo_list_page_witness:
  "\<exists>k. map t_ID (fst (projr (mg_ListTasks ref_driver demo_query (demo_ref demo_calls)))) = [digits k]"
proof -
  obtain ts where r: "mg_ListTasks ref_driver demo_query (demo_ref demo_calls) = Inr (ts, 2)" "length ts = 1"
    using demo_page by (auto split: sum.splits)
  from mongo_list_page [OF ref_fresh demo_ok demo_ref_def r(1)]
  obtain ks where ks: "map t_ID ts = map (dv_hex ref_driver) ks" by blast
  moreover from this r(2) have "length ks = 1" by (metis length_map)
  then obtain k where "ks = [k]" by (auto simp: length_Suc_conv)
  ultimately show ?thesis using r(1) by (auto simp: ref_driver_def)
qed

end
