(* ===== verification/Dashboard_Pages.thy ===== *)
theory Dashboard_Pages
  imports Mongo_Listing Dashboard
begin

text \<open>
  Paging through the dashboard's task list (\<open>dashboard/dashboard.go\<close>): a client that follows \<open>next\<close>
  sees every matching task once and comes to an end.
\<close>

definition tasks_request :: "(string \<Rightarrow> string) \<Rightarrow> string \<Rightarrow> http_request" where
  "tasks_request q before = \<lparr>rq_Method = ''GET'', rq_Path = [''api'', ''tasks''], rq_Query = q(''before'' := before)\<rparr>"

text \<open>
  At most \<open>n\<close> requests, each with the last answer's \<open>next\<close>, up to an empty one: the tasks they list
  and whether \<open>next\<close> came back empty; \<open>None\<close> when an answer is an error.
\<close>

fun walk ::
  "'s driver \<Rightarrow> (string \<Rightarrow> duration option) \<Rightarrow> gtime \<Rightarrow> (string \<Rightarrow> string) \<Rightarrow> nat \<Rightarrow> string \<Rightarrow> 's \<Rightarrow>
    (task list \<times> bool) option" where
  "walk dr dur now q 0 before s = Some ([], False)"
| "walk dr dur now q (Suc n) before s = (case fst (serve dr dur now (tasks_request q before) s) of
     (_, TasksBody ts next _) \<Rightarrow>
       (if next = [] then Some (ts, True)
        else map_option (\<lambda>(us, fin). (ts @ us, fin)) (walk dr dur now q n next s))
   | _ \<Rightarrow> None)"

lemma serve_tasks: "serve dr dur now (tasks_request q b) s = (listTasks dr (tasks_request q b) s, s)"
proof -
  have "find_route (tasks_request q b) = Some (ListTasks, [])"
    by (simp add: find_route_def tasks_request_def routes_def method_match_def)
  then show ?thesis by (simp add: serve_def)
qed

definition base_query :: "(string \<Rightarrow> string) \<Rightarrow> string \<Rightarrow> task_query" where
  "base_query q before = request_query (tasks_request q before)"

lemma base_query_sel [simp]:
  "tq_Before (base_query q b) = b" "b \<noteq> [] \<Longrightarrow> query_filter (base_query q b) = query_filter (base_query q [])"
  "tq_Limit (base_query q b) = atoi (q ''limit'')"
  by (simp_all add: base_query_def request_query_def tasks_request_def query_filter_def)

lemma query_ids_before [simp]:
  "b \<noteq> [] \<Longrightarrow> query_ids m (base_query q b) cur = query_ids m (base_query q []) cur"
  unfolding query_ids_def by simp

lemma clamp_pos: "0 < nat (clamp_limit n)"
  by (simp add: clamp_limit_def Let_def)

lemma walk_Suc:
  assumes "walk dr dur now q (Suc n) b s = Some (us, fin)"
  obtains ts cnt where "mg_ListTasks dr (base_query q b) s = Inr (ts, cnt)" "ts = []" "us = []" "fin"
  | ts cnt vs where "mg_ListTasks dr (base_query q b) s = Inr (ts, cnt)" "ts \<noteq> []" "t_ID (last ts) \<noteq> []"
      "walk dr dur now q n (t_ID (last ts)) s = Some (vs, fin)" "us = ts @ vs"
  | ts cnt where "mg_ListTasks dr (base_query q b) s = Inr (ts, cnt)" "ts \<noteq> []" "t_ID (last ts) = []"
  using assms unfolding walk.simps serve_tasks
  by (auto simp: listTasks_def base_query_def writeErr_def next_before_def split: sum.splits gerror.splits if_splits)

lemma below_last:
  assumes "sorted_wrt (>) (ks @ [k])" "set (ks @ [k]) \<subseteq> R" "\<forall>x \<in> R - set (ks @ [k]). \<forall>j \<in> set (ks @ [k]). x < (j::nat)"
  shows "{x \<in> R. x < k} = R - set (ks @ [k])"
  using assms by (auto simp: sorted_wrt_append)

text \<open>The walk from a cursor, over the ids below it.\<close>

text \<open>One page of the walk: of the tasks \<open>R\<close> below the cursor, the newest.\<close>

lemma walk_page:
  assumes fresh: "mongo_fresh dr mv chunk s0" "calls_ok cs" "s = run_calls (mg_ops dr chunk clk) cs s0"
    and ids: "\<forall>k. dv_hex dr k \<noteq> []"
    and cur: "cur = None \<and> b = [] \<or> (\<exists>k. cur = Some k \<and> b = dv_hex dr k)"
    and R: "R = query_ids (mv_db mv s TasksCol) (base_query q []) cur"
    and l: "mg_ListTasks dr (base_query q b) s = Inr (us, cnt)"
  shows "\<exists>ks. map t_ID us = map (dv_hex dr) ks \<and> sorted_wrt (>) ks \<and> set ks \<subseteq> R \<and>
    length ks = min (nat (clamp_limit (atoi (q ''limit'')))) (card R) \<and> (\<forall>k \<in> R - set ks. \<forall>j \<in> set ks. k < j)"
proof -
  let ?m = "mv_db mv s TasksCol"
  have m: "mongo dr mv" using fresh(1) by (simp add: mongo_fresh_def)
  have unhex: "dv_unhex dr (dv_hex dr k) = Some k" for k using mongo.hex [OF m] .
  obtain ks cur' where p: "(tq_Before (base_query q b) = [] \<longrightarrow> cur' = None) \<and>
      (tq_Before (base_query q b) \<noteq> [] \<longrightarrow> cur' \<noteq> None \<and> dv_unhex dr (tq_Before (base_query q b)) = cur')"
    "map t_ID us = map (dv_hex dr) ks" "sorted_wrt (>) ks" "set ks \<subseteq> query_ids ?m (base_query q b) cur'"
    "length ks = min (nat (clamp_limit (tq_Limit (base_query q b)))) (card (query_ids ?m (base_query q b) cur'))"
    "\<forall>k \<in> query_ids ?m (base_query q b) cur' - set ks. \<forall>j \<in> set ks. k < j"
    using list_page [OF fresh l] by blast
  have "cur' = cur" using p(1) cur unhex ids by auto
  moreover have "query_ids ?m (base_query q b) cur = R" unfolding R by (cases "b = []") simp_all
  ultimately show ?thesis using p(2-) by auto
qed

lemma query_finite:
  assumes "mongo_fresh dr mv chunk s0" "calls_ok cs" "s = run_calls (mg_ops dr chunk clk) cs s0"
  shows "finite (query_ids (mv_db mv s TasksCol) q cur)"
proof -
  have m: "mongo dr mv" using assms(1) by (simp add: mongo_fresh_def)
  obtain c where "msim dr mv (run_calls (mg_ops dr chunk clk) cs s0) c" using mg_run_sim [OF assms(1,2)] by blast
  then have "msim dr mv s c" using assms(3) by simp
  then have "finite (dom (mv_db mv s TasksCol))" using mongo.view [OF m msim_ok] by blast
  then have "finite (BOid -` dom (mv_db mv s TasksCol))" by (rule finite_vimageI) (simp add: inj_on_def)
  moreover have "query_ids (mv_db mv s TasksCol) q cur \<subseteq> BOid -` dom (mv_db mv s TasksCol)" by (auto simp: query_ids_def)
  ultimately show ?thesis by (rule finite_subset [rotated])
qed

lemma walk_below:
  assumes fresh: "mongo_fresh dr mv chunk s0" "calls_ok cs" "s = run_calls (mg_ops dr chunk clk) cs s0"
    and ids: "\<forall>k. dv_hex dr k \<noteq> []"
    and "walk dr dur now q n b s = Some (ts, fin)" "cur = None \<and> b = [] \<or> (\<exists>k. cur = Some k \<and> b = dv_hex dr k)"
    and R: "R = query_ids (mv_db mv s TasksCol) (base_query q []) cur"
    and fin: "n \<noteq> 0" "card R \<le> (n - 1) * nat (clamp_limit (atoi (q ''limit'')))"
  shows "fin \<and> (\<exists>ks. map t_ID ts = map (dv_hex dr) ks \<and> sorted_wrt (>) ks \<and> set ks = R)"
  using assms(5-)
proof (induction n arbitrary: b cur ts R)
  case (Suc n)
  let ?m = "mv_db mv s TasksCol" and ?L = "nat (clamp_limit (atoi (q ''limit'')))"
  have finR: "finite R" unfolding Suc.prems(3) by (rule query_finite [OF fresh])
  note page = walk_page [OF fresh ids Suc.prems(2,3)]
  show ?case using Suc.prems(1)
  proof (cases rule: walk_Suc)
    case (1 us cnt)
    with page [OF 1(1)] have "card R = 0" using clamp_pos [of "atoi (q ''limit'')"] by (auto simp: min_def split: if_splits)
    with finR 1 show ?thesis by simp
  next
    case (2 us cnt vs)
    obtain ks where ks: "map t_ID us = map (dv_hex dr) ks" "sorted_wrt (>) ks" "set ks \<subseteq> R"
      "length ks = min ?L (card R)" "\<forall>k \<in> R - set ks. \<forall>j \<in> set ks. k < j" using page [OF 2(1)] by blast
    have ne: "ks \<noteq> []" using ks(1) 2(2) by auto
    then obtain js k where k: "ks = js @ [k]" by (metis append_butlast_last_id)
    have last: "t_ID (last us) = dv_hex dr k" using ks(1) 2(2) k by (metis last_map last_snoc map_is_Nil_conv)
    let ?R = "{x \<in> R. x < k}"
    have rest: "?R = R - set ks" using below_last ks(2,3,5) unfolding k by blast
    have "k \<in> R" using ks(3) k by simp
    then have "?R = query_ids ?m (base_query q []) (Some k)"
      unfolding Suc.prems(3) using Suc.prems(2) by (auto simp: query_ids_def)
    moreover have "card ?R = card R - length ks"
      using ks(2,3) finR by (simp add: rest card_Diff_subset distinct_card [symmetric] sorted_page(1) [OF ks(2)] finite_subset)
    then have small: "card ?R \<le> (n - 1) * ?L \<and> n \<noteq> 0"
      using ks(4) Suc.prems(5) ne by (cases n) (auto simp: min_def split: if_splits)
    ultimately obtain ls where fin and ls: "map t_ID vs = map (dv_hex dr) ls" "sorted_wrt (>) ls" "set ls = ?R"
      using Suc.IH [OF 2(4), of "Some k" ?R] last by auto
    have "sorted_wrt (>) (ks @ ls)" using ks(2,5) ls(2,3) unfolding rest sorted_wrt_append by auto
    moreover have "set (ks @ ls) = R" using ls(3) rest ks(3) by auto
    ultimately show ?thesis using \<open>fin\<close> ks(1) ls(1) 2(5) by (metis map_append)
  next
    case (3 us cnt)
    obtain ks where "map t_ID us = map (dv_hex dr) ks" using page [OF 3(1)] by blast
    with 3(2,3) ids show ?thesis by (metis last_map map_is_Nil_conv)
  qed
next
  case 0
  from 0(4) show ?case by simp
qed


definition demo_walk :: "(task list \<times> bool) option" where
  "demo_walk = walk ref_driver (\<lambda>_. None) 9 (\<lambda>k. if k = ''limit'' then ''1'' else []) 3 [] (demo_ref demo_calls)"

lemma demo_walked: "map_option (\<lambda>(ts, fin). (map t_ID ts, fin)) demo_walk = Some ([''2'', ''1''], True)"
  by code_simp

lemma query_ids_ref: "card (query_ids (ref_table ds) q cur) \<le> length ds"
proof -
  have "BOid ` query_ids (ref_table ds) q cur \<subseteq> doc_id ` set ds"
    by (fastforce simp: query_ids_def ref_table_def dest: map_of_SomeD)
  then have "card (BOid ` query_ids (ref_table ds) q cur) \<le> card (doc_id ` set ds)" by (rule card_mono [rotated]) simp
  also have "\<dots> \<le> card (set ds)" by (rule card_image_le) simp
  also have "\<dots> \<le> length ds" by (rule card_length)
  finally show ?thesis by (simp add: card_image inj_on_def)
qed

lemma demo_two: "length (rs_tasks (demo_ref demo_calls)) = 2"
  by code_simp


end
