(* ===== verification/Fleet.thy ===== *)
theory Fleet
  imports Fetcher
begin

text \<open>
  Many processes on one store. A node is a process: its manager and what each worker goroutine holds
  at the moment. A step of a node is one round of one goroutine, built from the functions of the
  theories \<open>Manager\<close>, \<open>Worker\<close> and \<open>Fetcher\<close> and cut at the store calls, which are atomic; steps of
  all goroutines of all nodes interleave freely, with any clock readings, and a process can die
  between any two of them, which loses all it holds. The fleet also records every run of a handler.
\<close>

section \<open>Nodes\<close>

text \<open>A worker has nothing, a task it took from the channel, a task it may run, or an outcome.\<close>

datatype phase = PIdle | PTaken task | POwned task | PDone outcome

record node =
  nd_man :: manager
  nd_work :: "phase list"

abbreviation with_worker :: "node \<Rightarrow> nat \<Rightarrow> phase \<Rightarrow> manager \<Rightarrow> node" where
  "with_worker N w p m \<equiv> N\<lparr>nd_man := m, nd_work := (nd_work N)[w := p]\<rparr>"

abbreviation worker_in :: "node \<Rightarrow> nat \<Rightarrow> phase \<Rightarrow> bool" where
  "worker_in N w p \<equiv> w < length (nd_work N) \<and> nd_work N ! w = p"

text \<open>
  A process that has just made its manager. This is also what is left of one that died and was
  started again.
\<close>

definition fresh_node :: "node \<Rightarrow> bool" where
  "fresh_node N \<longleftrightarrow> (\<exists>opts rnd h h'. New opts rnd h = (Inr (nd_man N), h')) \<and>
     nd_work N = replicate (nat (c_Workers (m_cfg (nd_man N)))) PIdle"

section \<open>Steps of a node\<close>

text \<open>
  \<open>node_step st N s rs N' s'\<close>: from node \<open>N\<close> and store \<open>s\<close>, running the handlers of the tasks
  \<open>rs\<close> (none or one).
\<close>

inductive node_step :: "'s store \<Rightarrow> node \<Rightarrow> 's \<Rightarrow> task list \<Rightarrow> node \<Rightarrow> 's \<Rightarrow> bool" for st where
  claim: "m_started (nd_man N) \<Longrightarrow> worker_in N w PIdle \<Longrightarrow> m_pipeline (nd_man N) = None \<Longrightarrow>
    worker_round st now cancelled (worker_id (nd_man N) w) (nd_man N) s = (Process t, m', s') \<Longrightarrow>
    node_step st N s [] (with_worker N w (POwned t) m') s'"
| no_claim: "m_started (nd_man N) \<Longrightarrow> worker_in N w PIdle \<Longrightarrow> m_pipeline (nd_man N) = None \<Longrightarrow>
    worker_round st now cancelled (worker_id (nd_man N) w) (nd_man N) s = (nx, m', s') \<Longrightarrow>
    nx = IdleWait \<or> nx = Exit \<Longrightarrow>
    node_step st N s [] (with_worker N w PIdle m') s'"
| fetch: "m_started (nd_man N) \<Longrightarrow> m_pipeline (nd_man N) = Some p \<Longrightarrow>
    fetch_round st now cancelled cancel_at p (nd_man N) s = (nx, m', s') \<Longrightarrow>
    node_step st N s [] (N\<lparr>nd_man := m'\<rparr>) s'"
| take: "m_started (nd_man N) \<Longrightarrow> worker_in N w PIdle \<Longrightarrow> take_task (nd_man N) = Some (t, m') \<Longrightarrow>
    node_step st N s [] (with_worker N w (PTaken t) m') s"
| start_own: "worker_in N w (PTaken t) \<Longrightarrow>
    startOfWork st now clock t (nd_man N) s = (Some t', s') \<Longrightarrow>
    node_step st N s [] (with_worker N w (POwned t') (nd_man N)) s'"
| start_drop: "worker_in N w (PTaken t) \<Longrightarrow>
    startOfWork st now clock t (nd_man N) s = (None, s') \<Longrightarrow>
    node_step st N s [] (with_worker N w PIdle (nd_man N)) s'"
| run: "worker_in N w (POwned t) \<Longrightarrow> map_of (m_handlers (nd_man N)) (t_Type t) = Some entry \<Longrightarrow>
    attempt_outcome rnd (worker_id (nd_man N) w) now dur t (invoke entry ctx t) (nd_man N) = Inr (r, m') \<Longrightarrow>
    node_step st N s [t] (with_worker N w (PDone r) m') s"
| unknown: "worker_in N w (POwned t) \<Longrightarrow> map_of (m_handlers (nd_man N)) (t_Type t) = None \<Longrightarrow>
    node_step st N s [] (with_worker N w PIdle (nd_man N)) s"
| heartbeat: "worker_in N w (POwned t) \<Longrightarrow> heartbeat_tick st now t (nd_man N) s = (lost, s') \<Longrightarrow>
    node_step st N s [] N s'"
| extend: "worker_in N w (POwned t) \<Longrightarrow> ExtendLease st now t (nd_man N) s = (Inr t', s') \<Longrightarrow>
    node_step st N s [] (with_worker N w (POwned t') (nd_man N)) s'"
| no_extend: "worker_in N w (POwned t) \<Longrightarrow> ExtendLease st now t (nd_man N) s = (Inl e, s') \<Longrightarrow>
    node_step st N s [] N s'"
| buffer: "worker_in N w (PDone r) \<Longrightarrow> shouldBufferOutcome n1 (o_Task r) (nd_man N) \<Longrightarrow>
    node_step st N s [] (with_worker N w PIdle (bufferOutcome n2 r (nd_man N))) s"
| finalize: "worker_in N w (PDone r) \<Longrightarrow> \<not> shouldBufferOutcome n1 (o_Task r) (nd_man N) \<Longrightarrow>
    finalizeNow st now r s = (e, s') \<Longrightarrow>
    node_step st N s [] (with_worker N w PIdle (nd_man N)) s'"
| flush: "m_started (nd_man N) \<Longrightarrow> m_pipeline (nd_man N) = Some p \<Longrightarrow>
    flusher_round st now clock workersDone p (nd_man N) s = (nx, m', s') \<Longrightarrow>
    node_step st N s [] (N\<lparr>nd_man := m'\<rparr>) s'"
| janitor_start: "m_started (nd_man N) \<Longrightarrow> janitor_init st now (nd_man N) s = (j, s') \<Longrightarrow> node_step st N s [] N s'"
| janitor: "m_started (nd_man N) \<Longrightarrow> janitor_round st n0 n1 n2 n3 j (nd_man N) s = (j', m', s') \<Longrightarrow>
    node_step st N s [] (N\<lparr>nd_man := m'\<rparr>) s'"
| janitor_stop: "m_started (nd_man N) \<Longrightarrow> janitor_drain st j (nd_man N) s = (m', s') \<Longrightarrow>
    node_step st N s [] (N\<lparr>nd_man := m'\<rparr>) s'"
| enqueue: "EnqueueMany st now q ty payloads policy (nd_man N) s = (r, m', s') \<Longrightarrow>
    node_step st N s [] (N\<lparr>nd_man := m'\<rparr>) s'"
| register: "\<not> m_started (nd_man N) \<Longrightarrow>
    node_step st N s [] (N\<lparr>nd_man := (nd_man N)\<lparr>m_handlers := hs\<rparr>\<rparr>) s"
| start: "Start st watch (nd_man N) s = (e, m', s') \<Longrightarrow>
    node_step st N s [] (N\<lparr>nd_man := m'\<rparr>) s'"
| stop: "node_step st N s [] (N\<lparr>nd_man := stop_claiming (nd_man N)\<rparr>) s"

section \<open>Fleets\<close>

record 's fleet =
  fl_store :: 's
  fl_nodes :: "node list"
  fl_runs :: "task list"
  fl_requeued :: "string \<Rightarrow> bool"

text \<open>
  \<open>purge\<close> is what removes expired tasks behind the store's back (MongoDB's TTL index); an operator
  may requeue dead tasks; a node may join, or die and be replaced. A panic outside the handler's
  recovery (in \<open>Backoff.Next\<close>) kills the process after the handler ran.
\<close>

inductive fleet_step :: "'s store \<Rightarrow> ('s \<Rightarrow> 's \<Rightarrow> bool) \<Rightarrow> 's fleet \<Rightarrow> 's fleet \<Rightarrow> bool" for st purge where
  node: "n < length (fl_nodes F) \<Longrightarrow> node_step st (fl_nodes F ! n) (fl_store F) rs N' s' \<Longrightarrow>
    fleet_step st purge F
      (F\<lparr>fl_store := s', fl_nodes := (fl_nodes F)[n := N'], fl_runs := fl_runs F @ rs\<rparr>)"
| join: "fresh_node N \<Longrightarrow> fleet_step st purge F (F\<lparr>fl_nodes := fl_nodes F @ [N]\<rparr>)"
| crash: "n < length (fl_nodes F) \<Longrightarrow> fresh_node N \<Longrightarrow>
    fleet_step st purge F (F\<lparr>fl_nodes := (fl_nodes F)[n := N]\<rparr>)"
| panic: "n < length (fl_nodes F) \<Longrightarrow> worker_in (fl_nodes F ! n) w (POwned t) \<Longrightarrow> fresh_node N \<Longrightarrow>
    map_of (m_handlers (nd_man (fl_nodes F ! n))) (t_Type t) = Some entry \<Longrightarrow>
    attempt_outcome rnd (worker_id (nd_man (fl_nodes F ! n)) w) now dur t (invoke entry ctx t)
      (nd_man (fl_nodes F ! n)) = Inl p \<Longrightarrow>
    fleet_step st purge F (F\<lparr>fl_nodes := (fl_nodes F)[n := N], fl_runs := fl_runs F @ [t]\<rparr>)"
| requeue: "Requeue st now i (fl_store F) = (e, s') \<Longrightarrow>
    fleet_step st purge F (F\<lparr>fl_store := s', fl_requeued := (fl_requeued F)(i := True)\<rparr>)"
| requeue_dead: "RequeueDead st now ty (fl_store F) = (n, s') \<Longrightarrow>
    fleet_step st purge F (F\<lparr>fl_store := s', fl_requeued := (\<lambda>_. True)\<rparr>)"
| expire: "purge (fl_store F) s' \<Longrightarrow> fleet_step st purge F (F\<lparr>fl_store := s'\<rparr>)"

inductive fleet_reach :: "'s store \<Rightarrow> ('s \<Rightarrow> 's \<Rightarrow> bool) \<Rightarrow> 's \<Rightarrow> 's fleet \<Rightarrow> bool" for st purge s0 where
  fleet_init: "fleet_reach st purge s0
    \<lparr>fl_store = s0, fl_nodes = [], fl_runs = [], fl_requeued = (\<lambda>_. False)\<rparr>"
| fleet_next: "fleet_reach st purge s0 F \<Longrightarrow> fleet_step st purge F G \<Longrightarrow> fleet_reach st purge s0 G"

end
