(* ===== verification/Fleet_Inv.thy ===== *)
theory Fleet_Inv
  imports Fleet Config_Props
begin

text \<open>
  The invariant of a fleet over any store that keeps the contract: the store is the image of a
  disciplined history of the contract machine, every copy of a task that a goroutine holds agrees
  with the store as long as its lease is live, and no claim is held or run twice.
\<close>

section \<open>Copies of tasks\<close>

definition claim_of :: "task \<Rightarrow> string \<times> string" where
  "claim_of t = (t_ID t, t_LeaseToken t)"

definition copy_ok :: "cstore \<Rightarrow> task \<Rightarrow> bool" where
  "copy_ok c t \<longleftrightarrow> claim_of t \<in> c_issued c \<and> c_limit c (t_ID t) = Some (t_MaxAttempts t) \<and>
     (\<forall>a u. c_tasks c (t_ID t) = Some a \<longrightarrow> a_state a = ARunning (t_LeaseToken t) u \<longrightarrow>
        a_attempts a = t_Attempts t \<and> a_max a = t_MaxAttempts t)"

lemma copy_ok_lease [simp]: "copy_ok c (t\<lparr>t_LeasedUntil := u\<rparr>) = copy_ok c t"
  "claim_of (t\<lparr>t_LeasedUntil := u\<rparr>) = claim_of t"
  by (simp_all add: copy_ok_def claim_of_def)

lemma copy_step:
  assumes "cstep c e d" "copy_ok c t"
  shows "copy_ok d t"
proof -
  have "claim_of t \<in> c_issued d" "c_limit d (t_ID t) = Some (t_MaxAttempts t)"
    using issued_mono [OF assms(1)] limit_mono [OF assms(1)] assms(2) by (auto simp: copy_ok_def)
  moreover have "a_attempts a = t_Attempts t \<and> a_max a = t_MaxAttempts t"
    if "c_tasks d (t_ID t) = Some a" "a_state a = ARunning (t_LeaseToken t) u" for a u
    using assms that unfolding copy_ok_def claim_of_def
    by (cases e) (auto elim!: cstep_elims split: if_splits)
  ultimately show ?thesis by (auto simp: copy_ok_def)
qed

lemma copy_exec: "cexec c es d \<Longrightarrow> copy_ok c t \<Longrightarrow> copy_ok d t"
  by (induction rule: cexec.induct) (auto intro: copy_step)

section \<open>Disciplined events\<close>

text \<open>Events that keep the discipline of the contract's callers, now and later.\<close>

definition good_event :: "cstore \<Rightarrow> cevent \<Rightarrow> bool" where
  "good_event c e = (case e of
     Enqueued i a \<Rightarrow> a_attempts a = 0 \<and> 1 \<le> a_max a
   | Retried i tok \<Rightarrow> \<exists>t. claim_of t = (i, tok) \<and> copy_ok c t \<and> t_Attempts t < t_MaxAttempts t
   | _ \<Rightarrow> True)"

lemma good_step: "cstep c e d \<Longrightarrow> good_event c f \<Longrightarrow> good_event d f"
  by (cases f) (auto simp: good_event_def dest: copy_step)

lemma good_disciplined: "cstep c e d \<Longrightarrow> good_event c e \<Longrightarrow> disciplined c e"
  by (cases e) (auto simp: good_event_def disciplined_def claim_of_def copy_ok_def elim!: retriedE)

lemma good_exec:
  "cexec c fs d \<Longrightarrow> creach es c \<Longrightarrow> \<forall>e \<in> set fs. good_event c e \<Longrightarrow> creach (es @ fs) d"
proof (induction arbitrary: es rule: cexec.induct)
  case (cexec_nil c)
  then show ?case by simp
next
  case (cexec_cons c e d fs d')
  have "creach (es @ [e]) d"
    using cexec_cons good_disciplined [OF cexec_cons.hyps(1)] by (auto intro: creach.creach_step)
  moreover have "\<forall>f \<in> set fs. good_event d f"
    using cexec_cons.prems good_step [OF cexec_cons.hyps(1)] by simp
  ultimately have "creach ((es @ [e]) @ fs) d'" by (rule cexec_cons.IH)
  then show ?case by simp
qed

lemma issued_exec: "cexec c es d \<Longrightarrow> c_issued c \<subseteq> c_issued d"
  by (induction rule: cexec.induct) (use issued_mono in blast)+

section \<open>What nodes hold\<close>

fun phase_tasks :: "phase \<Rightarrow> task list" where
  "phase_tasks (PTaken t) = [t]"
| "phase_tasks (POwned t) = [t]"
| "phase_tasks _ = []"

fun phase_outcomes :: "phase \<Rightarrow> outcome list" where
  "phase_outcomes (PDone r) = [r]"
| "phase_outcomes _ = []"

text \<open>Tasks a node has claimed and not run, and outcomes it has not written.\<close>

definition unrun :: "node \<Rightarrow> task list" where
  "unrun N = m_taskCh (nd_man N) @ concat (map phase_tasks (nd_work N))"

definition unwritten :: "node \<Rightarrow> outcome list" where
  "unwritten N = m_finBuf (nd_man N) @ concat (map phase_outcomes (nd_work N))"

abbreviation claims_of :: "task list \<Rightarrow> (string \<times> string) multiset" where
  "claims_of ts \<equiv> mset (map claim_of ts)"

text \<open>A retry is only asked for while the copy has attempts left.\<close>

definition outcome_ok :: "cstore \<Rightarrow> outcome \<Rightarrow> bool" where
  "outcome_ok c r \<longleftrightarrow> copy_ok c (o_Task r) \<and>
     (o_Failure r \<noteq> None \<longrightarrow> \<not> o_Terminal r \<longrightarrow> t_Attempts (o_Task r) < t_MaxAttempts (o_Task r))"

definition node_ok :: "cstore \<Rightarrow> node \<Rightarrow> bool" where
  "node_ok c N \<longleftrightarrow> (\<forall>t \<in> set (unrun N). copy_ok c t) \<and> (\<forall>r \<in> set (unwritten N). outcome_ok c r) \<and>
     (\<forall>p. m_pipeline (nd_man N) = Some p \<longrightarrow> 0 \<le> sint (pc_QueueLease p))"

lemma outcome_ok_exec: "cexec c es d \<Longrightarrow> outcome_ok c r \<Longrightarrow> outcome_ok d r"
  by (auto simp: outcome_ok_def intro: copy_exec)

lemma node_ok_exec: "cexec c es d \<Longrightarrow> node_ok c N \<Longrightarrow> node_ok d N"
  by (auto simp: node_ok_def intro: copy_exec outcome_ok_exec)

lemma outcome_good: "outcome_ok c r \<Longrightarrow> good_event c (outcome_event r)"
  by (auto simp: outcome_event_def good_event_def outcome_ok_def claim_of_def Let_def split: option.split)

lemma mset_concat_update:
  "w < length xs \<Longrightarrow> mset (map h (concat (map f (xs[w := y])))) + mset (map h (f (xs ! w))) =
    mset (map h (concat (map f xs))) + mset (map h (f y))"
proof (induction xs arbitrary: w)
  case (Cons x xs)
  then show ?case by (cases w) (simp_all add: add.assoc)
qed simp

lemma set_concat_update:
  "set (concat (map f (xs[w := y]))) \<subseteq> set (f y) \<union> set (concat (map f xs))"
  using set_update_subset_insert [of xs w y] by auto

lemma unrun_worker:
  assumes "worker_in N w p" "m_taskCh m = m_taskCh (nd_man N)"
  shows "claims_of (unrun (with_worker N w q m)) + claims_of (phase_tasks p) =
      claims_of (unrun N) + claims_of (phase_tasks q)"
    "set (unrun (with_worker N w q m)) \<subseteq> set (phase_tasks q) \<union> set (unrun N)"
  using assms mset_concat_update [of w "nd_work N" claim_of phase_tasks q]
    set_concat_update [of phase_tasks "nd_work N" w q]
  by (auto simp: unrun_def simp del: mset_map map_concat)

lemma unwritten_worker:
  assumes "set (m_finBuf m) \<subseteq> B \<union> set (m_finBuf (nd_man N))"
  shows "set (unwritten (with_worker N w q m)) \<subseteq> B \<union> set (phase_outcomes q) \<union> set (unwritten N)"
  using assms set_concat_update [of phase_outcomes "nd_work N" w q] by (auto simp: unwritten_def)

lemma worker_in_unrun: "worker_in N w p \<Longrightarrow> set (phase_tasks p) \<subseteq> set (unrun N)"
  using nth_mem [of w "nd_work N"] by (auto simp: unrun_def)

lemma worker_in_unwritten: "worker_in N w p \<Longrightarrow> set (phase_outcomes p) \<subseteq> set (unwritten N)"
  using nth_mem [of w "nd_work N"] by (auto simp: unwritten_def)

section \<open>What operations leave alone\<close>

text \<open>An operation that keeps the channel, the buffer and the settings of its manager.\<close>

definition keeps :: "manager \<Rightarrow> manager \<Rightarrow> bool" where
  "keeps m m' \<longleftrightarrow> m_taskCh m' = m_taskCh m \<and> m_finBuf m' = m_finBuf m \<and> m_pipeline m' = m_pipeline m"

lemma keeps_refl [simp]: "keeps m m"
  by (simp add: keeps_def)

lemma keeps_trans: "keeps m m' \<Longrightarrow> keeps m' m'' \<Longrightarrow> keeps m m''"
  by (simp add: keeps_def)

lemma keeps_count [simp]: "keeps m (count q f m)"
  by (simp add: keeps_def count_def split: option.split)

lemma keeps_hook [simp]: "keeps m (fireHook b e m)"
  by (simp add: keeps_def fireHook_def)

lemma keeps_claimed [simp]: "keeps m (note_claimed t m)"
  unfolding note_claimed_def by (rule keeps_trans [OF keeps_count keeps_hook])

lemma keeps_inserted: "keeps m (snd (note_inserted ids ts n m))"
  by (induction ids ts n m rule: note_inserted.induct) (auto intro: keeps_trans [OF keeps_hook])

lemma keeps_registered: "keeps m (fst (snd (ensureRegistered st m s)))"
  by (simp add: keeps_def ensureRegistered_def split: prod.split option.split)

lemma keeps_outcome:
  "attempt_outcome rnd wid now dur t r m = Inr (r', m') \<Longrightarrow> keeps m m'"
  by (auto simp: attempt_outcome_def Let_def split: prod.splits option.splits sum.splits if_splits
      intro!: keeps_trans [OF keeps_trans [OF keeps_count keeps_hook] keeps_hook]
        keeps_trans [OF keeps_count keeps_hook])

lemma outcome_facts:
  "attempt_outcome rnd wid now dur t r m = Inr (r', m') \<Longrightarrow> o_Task r' = t \<and>
    (o_Failure r' \<noteq> None \<longrightarrow> \<not> o_Terminal r' \<longrightarrow> t_Attempts t < t_MaxAttempts t)"
  by (auto simp: attempt_outcome_def terminal_def Let_def split: prod.splits option.splits sum.splits if_splits)

end
