(* ===== verification/Fleet_Sim.thy ===== *)
theory Fleet_Sim
  imports Fleet_Inv
begin

text \<open>
  Every step of a node is a disciplined move of the contract machine that runs or holds no claim
  twice. The lemmas live in the locale \<open>store_contract\<close>: they hold for every conforming store.
\<close>

definition goes ::
  "('s \<Rightarrow> cstore \<Rightarrow> bool) \<Rightarrow> cevent list \<Rightarrow> cstore \<Rightarrow> 's \<Rightarrow> node \<Rightarrow> node \<Rightarrow> task list \<Rightarrow> bool" where
  "goes R es c s' N N' rs \<longleftrightarrow> (\<exists>fs d new. creach (es @ fs) d \<and> cexec c fs d \<and> R s' d \<and>
     (\<forall>i. Requeued i \<notin> set fs) \<and> node_ok d N' \<and> (\<forall>t \<in> set rs. copy_ok d t) \<and>
     distinct new \<and> set new \<inter> c_issued c = {} \<and> set new \<subseteq> c_issued d \<and>
     claims_of (unrun N') + claims_of rs \<subseteq># claims_of (unrun N) + mset new)"

definition quiet :: "cstore \<Rightarrow> cevent set \<Rightarrow> bool" where
  "quiet c E \<longleftrightarrow> (\<forall>e \<in> E. good_event c e \<and> (\<forall>i. e \<noteq> Requeued i))"

lemma quiet_simps [simp]:
  "quiet c {}" "quiet c {Claimed i tok now u | i tok u. True}" "quiet c {Completed i tok}"
  "quiet c {Died i tok}" "quiet c {Extended i tok}" "quiet c {Reaped i now | i. True}"
  "quiet c {e. \<exists>i tok u. e = Claimed i tok now u}" "quiet c {e. \<exists>i. e = Reaped i now}"
  by (auto simp: quiet_def good_event_def)

lemma goes_quiet:
  assumes "creach es c" "may_advance R c E s'" "quiet c E" "node_ok c N'" "\<forall>t \<in> set rs. copy_ok c t"
    and "claims_of (unrun N') + claims_of rs \<subseteq># claims_of (unrun N)"
  shows "goes R es c s' N N' rs"
proof -
  obtain fs d where fs: "set fs \<subseteq> E" "cexec c fs d" "R s' d"
    using assms(2) by (auto simp: may_advance_def advances_def)
  have "creach (es @ fs) d"
    using fs(1) assms(3) by (intro good_exec [OF fs(2) assms(1)]) (auto simp: quiet_def)
  moreover have "\<forall>i. Requeued i \<notin> set fs" using fs(1) assms(3) by (auto simp: quiet_def)
  ultimately show ?thesis
    unfolding goes_def using fs assms(5,6) node_ok_exec [OF fs(2) assms(4)] copy_exec [OF fs(2)]
    by (intro exI [of _ fs] exI [of _ d] exI [of _ "[]"]) auto
qed

lemma node_ok_keeps:
  assumes "node_ok c N" "keeps (nd_man N) m"
  shows "node_ok c (N\<lparr>nd_man := m\<rparr>)" "unrun (N\<lparr>nd_man := m\<rparr>) = unrun N"
  using assms by (auto simp: node_ok_def keeps_def unrun_def unwritten_def)

text \<open>A move that only changes its manager's counters, log and flags, and the store.\<close>

lemma goes_keeps:
  assumes "creach es c" "node_ok c N" "may_advance R c E s'" "quiet c E" "keeps (nd_man N) m"
  shows "goes R es c s' N (N\<lparr>nd_man := m\<rparr>) []"
  using assms node_ok_keeps [OF assms(2,5)] by (intro goes_quiet [OF assms(1,3,4)]) auto

text \<open>A move of one worker: what it held before and holds after.\<close>

lemma node_ok_worker:
  assumes "node_ok c N" "m_taskCh m = m_taskCh (nd_man N)" "m_pipeline m = m_pipeline (nd_man N)"
    and "set (m_finBuf m) \<subseteq> B \<union> set (m_finBuf (nd_man N))"
    and "\<forall>t \<in> set (phase_tasks q). copy_ok c t" "\<forall>r \<in> B \<union> set (phase_outcomes q). outcome_ok c r"
  shows "node_ok c (with_worker N w q m)"
proof -
  have "set (unrun (with_worker N w q m)) \<subseteq> set (phase_tasks q) \<union> set (unrun N)"
    using assms(2) set_concat_update [of phase_tasks "nd_work N" w q] by (auto simp: unrun_def)
  moreover note unwritten_worker [OF assms(4), of w q]
  ultimately show ?thesis using assms(1,3,5,6) unfolding node_ok_def by auto
qed

lemma mset_exchange:
  assumes "A + P = B + Q" "Q + X \<subseteq># P"
  shows "A + X \<subseteq># (B :: 'a multiset)"
proof -
  have "(A + X) + P = B + (Q + X)"
    using assms(1) by (metis (no_types) add.assoc add.commute)
  also have "\<dots> \<subseteq># B + P" using assms(2) by simp
  finally show ?thesis by simp
qed

lemma goes_worker:
  assumes "creach es c" "node_ok c N" "may_advance R c E s'" "quiet c E" "worker_in N w p"
    and "m_taskCh m = m_taskCh (nd_man N)" "m_pipeline m = m_pipeline (nd_man N)"
    and "set (m_finBuf m) \<subseteq> B \<union> set (m_finBuf (nd_man N))"
    and "\<forall>t \<in> set (phase_tasks q). copy_ok c t" "\<forall>r \<in> B \<union> set (phase_outcomes q). outcome_ok c r"
    and "claims_of (phase_tasks q) + claims_of rs \<subseteq># claims_of (phase_tasks p)"
    and "\<forall>t \<in> set rs. copy_ok c t"
  shows "goes R es c s' N (with_worker N w q m) rs"
proof (rule goes_quiet [OF assms(1,3,4) _ assms(12)])
  show "node_ok c (with_worker N w q m)" by (rule node_ok_worker [OF assms(2,6-10)])
  have "claims_of (unrun (with_worker N w q m)) + claims_of (phase_tasks p) =
      claims_of (unrun N) + claims_of (phase_tasks q)" by (rule unrun_worker [OF assms(5,6)])
  from mset_exchange [OF this assms(11)]
  show "claims_of (unrun (with_worker N w q m)) + claims_of rs \<subseteq># claims_of (unrun N)" .
qed

lemma worker_ok:
  assumes "node_ok c N" "worker_in N w p"
  shows "\<forall>t \<in> set (phase_tasks p). copy_ok c t" "\<forall>r \<in> set (phase_outcomes p). outcome_ok c r"
  using assms worker_in_unrun [OF assms(2)] worker_in_unwritten [OF assms(2)] by (auto simp: node_ok_def)

section \<open>Claims\<close>

lemma copy_of_claim:
  assumes "limit_inv d" "c_tasks d (t_ID t) = Some (abs_task t)" "claim_of t \<in> c_issued d"
  shows "copy_ok d t"
  using assms by (auto simp: copy_ok_def limit_inv_def)

lemma claims_fresh:
  "cexec c (map (claim_event now) ts) d \<Longrightarrow>
    set (map claim_of ts) \<inter> c_issued c = {} \<and> set (map claim_of ts) \<subseteq> c_issued d"
proof (induction ts arbitrary: c)
  case Nil
  then show ?case by simp
next
  case (Cons t ts)
  then obtain m where m: "cstep c (claim_event now t) m" "cexec m (map (claim_event now) ts) d"
    by (auto elim!: cexec_ConsE)
  have "claim_of t \<notin> c_issued c" "c_issued m = insert (claim_of t) (c_issued c)"
    using m(1) by (auto simp: claim_event_def claim_of_def elim!: claimedE)
  with Cons.IH [OF m(2)] issued_exec [OF m(2)] show ?case by auto
qed

lemma deliver_spec:
  "deliver ts ca m = (nx, m') \<Longrightarrow> \<exists>us. prefix us ts \<and> m_taskCh m' = m_taskCh m @ us \<and>
    m_finBuf m' = m_finBuf m \<and> m_pipeline m' = m_pipeline m"
proof (induction ts ca m arbitrary: nx m' rule: deliver.induct)
  case (1 ca m)
  then show ?case by auto
next
  case (2 t ts ca m)
  have k: "keeps m (note_claimed t m)" by simp
  show ?case
  proof (cases "ca = Some 0 \<or> channel_free (note_claimed t m) \<le> 0")
    case True
    with 2(2) have "m' = note_claimed t m" by (auto simp: Let_def split: if_splits)
    with k show ?thesis by (auto simp: keeps_def)
  next
    case False
    with 2(2) have "deliver ts (map_option (\<lambda>n. n - 1) ca)
        ((note_claimed t m)\<lparr>m_taskCh := m_taskCh (note_claimed t m) @ [t]\<rparr>) = (nx, m')"
      by (auto simp: Let_def)
    from 2(1) [OF refl _ _ this] False obtain us where "prefix us ts"
      "m_taskCh m' = m_taskCh (note_claimed t m) @ [t] @ us" "m_finBuf m' = m_finBuf (note_claimed t m)"
      "m_pipeline m' = m_pipeline (note_claimed t m)" by auto
    with k show ?thesis by (intro exI [of _ "t # us"]) (simp add: keeps_def)
  qed
qed

context store_contract begin

lemma claims_go:
  assumes "creach es c" "R s c" "cexec c (map (claim_event now) ts) d" "R s' d"
    and "\<forall>t \<in> set ts. c_tasks d (t_ID t) = Some (abs_task t)" "distinct (map t_ID ts)"
    and "node_ok c N" "m_finBuf m = m_finBuf (nd_man N)" "m_pipeline m = m_pipeline (nd_man N)"
    and "set (m_taskCh m) \<subseteq> set ts \<union> set (m_taskCh (nd_man N))"
    and "set ws \<subseteq> set (nd_work N) \<union> POwned ` set ts"
    and "claims_of (m_taskCh m) + claims_of (concat (map phase_tasks ws)) \<subseteq># claims_of (unrun N) + claims_of ts"
  shows "goes R es c s' N (N\<lparr>nd_man := m, nd_work := ws\<rparr>) []"
proof -
  have cr: "creach (es @ map (claim_event now) ts) d"
    by (rule good_exec [OF assms(3,1)]) (auto simp: good_event_def claim_event_def)
  note fr = claims_fresh [OF assms(3)]
  have new: "\<forall>t \<in> set ts. copy_ok d t"
    using copy_of_claim [OF creach_limit [OF cr]] assms(5) fr by auto
  have old: "node_ok d N" by (rule node_ok_exec [OF assms(3,7)])
  have "set (unrun (N\<lparr>nd_man := m, nd_work := ws\<rparr>)) \<subseteq> set ts \<union> set (unrun N)"
    using assms(10,11) by (fastforce simp: unrun_def)
  moreover have "set (unwritten (N\<lparr>nd_man := m, nd_work := ws\<rparr>)) \<subseteq> set (unwritten N)"
    using assms(8,11) by (fastforce simp: unwritten_def)
  ultimately have "node_ok d (N\<lparr>nd_man := m, nd_work := ws\<rparr>)"
    using old new assms(9) unfolding node_ok_def by auto
  moreover have "distinct (map claim_of ts)"
    using assms(6) by (auto simp: distinct_map claim_of_def inj_on_def)
  ultimately show ?thesis
    unfolding goes_def using cr assms(3,4,12) fr
    by (intro exI [of _ "map (claim_event now) ts"] exI [of _ d] exI [of _ "map claim_of ts"])
      (auto simp: claim_event_def unrun_def)
qed

lemma claim_goes:
  assumes "creach es c" "R s c" "node_ok c N" "worker_in N w PIdle" "keeps (nd_man N) m"
    and "st_Claim st now opts s = (Inr t, s')"
  shows "goes R es c s' N (with_worker N w (POwned t) m) []"
proof -
  obtain d where d: "cstep c (claim_event now t) d" "R s' d" "c_tasks d (t_ID t) = Some (abs_task t)"
    using claim_ok [OF assms(2,6)] by blast
  have "m_taskCh m = m_taskCh (nd_man N)" using assms(5) by (simp add: keeps_def)
  from unrun_worker(1) [OF assms(4) this, of "POwned t"]
  have "claims_of (unrun (with_worker N w (POwned t) m)) = claims_of (unrun N) + claims_of [t]" by simp
  then have "claims_of (m_taskCh m) + claims_of (concat (map phase_tasks ((nd_work N)[w := POwned t])))
      \<subseteq># claims_of (unrun N) + claims_of [t]"
    by (simp add: unrun_def del: mset_map)
  moreover have "set ((nd_work N)[w := POwned t]) \<subseteq> set (nd_work N) \<union> POwned ` set [t]"
    using set_update_subset_insert [of "nd_work N" w "POwned t"] by auto
  ultimately have "goes R es c s' N (N\<lparr>nd_man := m, nd_work := (nd_work N)[w := POwned t]\<rparr>) []"
    using cexec_one [OF d(1)] d(2,3) assms(3,5)
    by (intro claims_go [OF assms(1,2), of now "[t]" d]) (auto simp: keeps_def)
  then show ?thesis by simp
qed

lemma worker_round_goes:
  assumes "creach es c" "R s c" "node_ok c N" "worker_in N w PIdle"
    and "worker_round st now canc wid (nd_man N) s = (nx, m', s')"
  shows "case nx of Process t \<Rightarrow> goes R es c s' N (with_worker N w (POwned t) m') []
    | _ \<Rightarrow> goes R es c s' N (with_worker N w PIdle m') []"
proof (cases "m_claimDone (nd_man N)")
  case True
  with assms(5) have r: "nx = Exit" "m' = nd_man N" "s' = s" by (auto simp: worker_round_def)
  have "goes R es c s N (with_worker N w PIdle (nd_man N)) []"
    using assms(2-4) by (intro goes_worker [OF assms(1,3) may_advance_stay [of R s c "{}"], where B = "{}"]) auto
  with r show ?thesis by simp
next
  case False
  let ?opts = "claimOptions wid (c_LeaseTime (m_cfg (nd_man N))) (nd_man N)"
  obtain r s1 where cl: "st_Claim st now ?opts s = (r, s1)" by fastforce
  show ?thesis
  proof (cases r)
    case (Inr t)
    with cl False assms(5) have "nx = Process t" "m' = note_claimed t (nd_man N)" "s1 = s'"
      by (auto simp: worker_round_def)
    with claim_goes [OF assms(1-4), of m' now ?opts t s'] cl Inr show ?thesis by simp
  next
    case (Inl e)
    with cl False assms(5) have r: "nx = IdleWait \<or> nx = Exit" "m' = nd_man N" "s1 = s'"
      by (auto simp: worker_round_def split: if_splits)
    have "may_advance R c {Claimed i tok now u | i tok u. True} s'"
      using claim_err [OF assms(2), of now ?opts e s'] cl Inl r(3) by simp
    then have "goes R es c s' N (with_worker N w PIdle (nd_man N)) []"
      using assms(4) by (intro goes_worker [OF assms(1,3), where B = "{}"]) auto
    with r show ?thesis by auto
  qed
qed

lemma batch_goes:
  assumes "creach es c" "R s c" "node_ok c N" "0 \<le> sint (co_Lease opts)"
    and "st_ClaimBatch st now opts k s = (Inr ts, s')" "deliver ts ca (nd_man N) = (nx, m)"
  shows "goes R es c s' N (N\<lparr>nd_man := m\<rparr>) []"
proof -
  obtain d where d: "cexec c (map (claim_event now) ts) d" "R s' d" "distinct (map t_ID ts)"
    "\<forall>t \<in> set ts. c_tasks d (t_ID t) = Some (abs_task t)"
    using batch_ok [OF assms(2,4,5)] by blast
  obtain us where us: "prefix us ts" "m_taskCh m = m_taskCh (nd_man N) @ us"
    "m_finBuf m = m_finBuf (nd_man N)" "m_pipeline m = m_pipeline (nd_man N)"
    using deliver_spec [OF assms(6)] by blast
  obtain vs where vs: "ts = us @ vs" using us(1) by (auto simp: prefix_def)
  have "goes R es c s' N (N\<lparr>nd_man := m, nd_work := nd_work N\<rparr>) []"
    using us(3,4) d(3,4) by (intro claims_go [OF assms(1,2) d(1,2)] assms(3)) (auto simp: us(2) vs unrun_def)
  moreover have "N\<lparr>nd_man := m, nd_work := nd_work N\<rparr> = N\<lparr>nd_man := m\<rparr>" by (cases N) simp
  ultimately show ?thesis by simp
qed

lemma fetch_goes:
  assumes "creach es c" "R s c" "node_ok c N" "m_pipeline (nd_man N) = Some p"
    and "fetch_round st now canc ca p (nd_man N) s = (nx, m', s')"
  shows "goes R es c s' N (N\<lparr>nd_man := m'\<rparr>) []"
proof (cases "m_claimDone (nd_man N) \<or> channel_free (nd_man N) < low_water p")
  case True
  with assms(5) have r: "m' = nd_man N" "s' = s" by (auto simp: fetch_round_def split: if_splits)
  have "goes R es c s N (N\<lparr>nd_man := nd_man N\<rparr>) []"
    using assms(2) by (intro goes_keeps [OF assms(1,3) may_advance_stay [of R s c "{}"]]) auto
  with r show ?thesis by simp
next
  case False
  let ?opts = "claimOptions (fetcher_id (nd_man N)) (pc_QueueLease p) (nd_man N)"
  let ?k = "min (pc_ClaimBatch p) (channel_free (nd_man N))"
  obtain r s1 where cl: "st_ClaimBatch st now ?opts ?k s = (r, s1)" by fastforce
  have lease: "0 \<le> sint (co_Lease ?opts)" using assms(3,4) by (simp add: node_ok_def claimOptions_def)
  show ?thesis
  proof (cases r)
    case (Inr ts)
    obtain nx1 where "deliver ts ca (nd_man N) = (nx1, m')" "s1 = s'"
      using cl False Inr assms(5) by (auto simp: fetch_round_def split: prod.splits)
    with batch_goes [OF assms(1-3) lease, of now ?k ts s' ca nx1 m'] cl Inr show ?thesis by simp
  next
    case (Inl e)
    with cl False assms(5) have r: "m' = nd_man N" "s1 = s'" by (auto simp: fetch_round_def split: if_splits)
    have "may_advance R c {Claimed i tok now u | i tok u. True} s'"
      using batch_err [OF assms(2), of now ?opts ?k e s'] cl Inl r(2) by simp
    from goes_keeps [OF assms(1,3) this _ keeps_refl] r show ?thesis by simp
  qed
qed

section \<open>The handshake, the heartbeat, the outcomes\<close>

lemma extend_advance:
  assumes "R s c" "st_ExtendLease st now t l s = (r, s')"
  shows "may_advance R c {Extended (t_ID t) (t_LeaseToken t)} s'"
  using apply_extend [OF assms(1), of t now l] assms(2) by simp

lemma start_tries_spec:
  "R s c \<Longrightarrow> start_tries st clock n t m s = (r, s') \<Longrightarrow>
    may_advance R c {Extended (t_ID t) (t_LeaseToken t)} s' \<and> (\<forall>t'. r = Some t' \<longrightarrow> (\<exists>u. t' = t\<lparr>t_LeasedUntil := u\<rparr>))"
proof (induction n arbitrary: s c)
  case 0
  then show ?case by (auto intro: may_advance_stay)
next
  case (Suc n)
  obtain x s1 where ex: "st_ExtendLease st (clock n) t (c_LeaseTime (m_cfg m)) s = (x, s1)" by fastforce
  note adv = extend_advance [OF Suc.prems(1) ex]
  show ?case
  proof (cases x)
    case (Inr u)
    with ex adv Suc.prems(2) show ?thesis by auto
  next
    case (Inl e)
    show ?thesis
    proof (cases "e = ErrLeaseLost")
      case True
      with Inl ex adv Suc.prems(2) show ?thesis by auto
    next
      case False
      with Inl ex Suc.prems(2) have rest: "start_tries st clock n t m s1 = (r, s')" by simp
      have "may_advance R c ({Extended (t_ID t) (t_LeaseToken t)} \<union> {Extended (t_ID t) (t_LeaseToken t)}) s'"
        by (rule may_advance_trans [OF adv]) (use Suc.IH [OF _ rest] in blast)
      moreover obtain d where "R s1 d" using adv by (auto simp: may_advance_def advances_def)
      ultimately show ?thesis using Suc.IH [OF _ rest] by auto
    qed
  qed
qed

lemma startOfWork_spec:
  assumes "R s c" "startOfWork st now clock t m s = (r, s')"
  shows "may_advance R c {Extended (t_ID t) (t_LeaseToken t)} s' \<and>
    (\<forall>t'. r = Some t' \<longrightarrow> (\<exists>u. t' = t\<lparr>t_LeasedUntil := u\<rparr>))"
  using assms start_tries_spec [OF assms(1), of clock 2 t m r s']
  by (auto simp: startOfWork_def intro: may_advance_stay split: if_splits)

lemma finalizeNow_advance:
  assumes "R s c" "finalizeNow st now r s = (e, s')"
  shows "may_advance R c {outcome_event r} s'"
proof (cases "o_Failure r")
  case None
  with assms apply_complete [OF assms(1), of "o_Task r" now "o_Result r"] show ?thesis
    by (simp add: finalizeNow_def outcome_event_def Let_def)
next
  case (Some f)
  with assms apply_fail [OF assms(1), of "o_Terminal r" "o_Task r" now f "o_RetryAt r"] show ?thesis
    by (simp add: finalizeNow_def outcome_event_def Let_def)
qed

lemma outcome_quiet: "outcome_ok c r \<Longrightarrow> quiet c {outcome_event r}"
  using outcome_good by (auto simp: quiet_def outcome_event_def Let_def split: option.splits if_splits)

lemma flush_goes:
  assumes "creach es c" "R s c" "node_ok c N" "flushOutcomes st clock (nd_man N) s = (r, m', s')"
  shows "goes R es c s' N (N\<lparr>nd_man := m'\<rparr>) []"
proof -
  let ?buf = "m_finBuf (nd_man N)"
  have m': "m' = (nd_man N)\<lparr>m_finBuf := []\<rparr>"
    using assms(4) by (auto simp: flushOutcomes_def Let_def split: prod.splits if_splits)
  have ok: "\<forall>r \<in> set ?buf. outcome_ok c r" using assms(3) by (auto simp: node_ok_def unwritten_def)
  have adv: "may_advance R c (outcome_event ` set ?buf) s'"
  proof (cases "?buf = []")
    case True
    with assms(2,4) show ?thesis by (auto simp: flushOutcomes_def intro: may_advance_stay)
  next
    case False
    with assms(4) apply_finalize [OF assms(2), of ?buf clock] show ?thesis
      by (auto simp: flushOutcomes_def Let_def split: prod.splits)
  qed
  have "quiet c (outcome_event ` set ?buf)" using ok outcome_quiet by (auto simp: quiet_def)
  moreover have "node_ok c (N\<lparr>nd_man := m'\<rparr>)"
    using assms(3) by (auto simp: node_ok_def m' unrun_def unwritten_def)
  moreover have "unrun (N\<lparr>nd_man := m'\<rparr>) = unrun N" by (simp add: unrun_def m')
  ultimately show ?thesis by (intro goes_quiet [OF assms(1) adv]) auto
qed

section \<open>The janitor and the enqueue API\<close>

lemma flushMetrics_spec:
  assumes "R s c" "flushMetrics st w drain mc m s = (e, m', s')"
  shows "R s' c \<and> keeps m m'"
proof -
  let ?s1 = "if \<not> drain then snd (st_SnapshotMetrics st (m_queueNames m) w (mc_Interval mc) s) else s"
  have "R ?s1 c" using assms(1) snapshot [OF assms(1)] by (auto simp: prod_eq_iff)
  with assms(2) record_counters [OF this] show ?thesis
    by (auto simp: flushMetrics_def Let_def keeps_def split: prod.splits if_splits)
qed

lemma reap_advance: "R s c \<Longrightarrow> may_advance R c {Reaped i now | i. True} (Worker.reap st now s)"
  using reap by (simp add: Worker.reap_def prod_eq_iff)

lemma janitor_reap_spec:
  assumes "R s c" "janitor_reap st n0 n1 n2 j m s = (j1, s1)"
  shows "may_advance R c {Reaped i n1 | i. True} s1"
  using assms(2) reap_advance [OF assms(1), of n1] may_advance_stay [of R, OF assms(1)]
  by (auto simp: janitor_reap_def split: if_splits)

lemma janitor_metrics_spec:
  assumes "R s c" "janitor_metrics st n3 j m s = (j', m', s')"
  shows "R s' c \<and> keeps m m'"
  using assms flushMetrics_spec [OF assms(1)]
  by (fastforce simp: janitor_metrics_def split: option.splits prod.splits if_splits)

lemma janitor_round_spec:
  assumes "R s c" "janitor_round st n0 n1 n2 n3 j m s = (j', m', s')"
  shows "may_advance R c {Reaped i n1 | i. True} s' \<and> keeps m m'"
proof -
  obtain j1 s1 where 1: "janitor_reap st n0 n1 n2 j m s = (j1, s1)" by fastforce
  then have 2: "janitor_metrics st n3 j1 m s1 = (j', m', s')" using assms(2) by (simp add: janitor_round_def)
  note adv = janitor_reap_spec [OF assms(1) 1]
  have "may_advance R c ({Reaped i n1 | i. True} \<union> {}) s'"
    by (rule may_advance_trans [OF adv], rule may_advance_stay [of R]) (use janitor_metrics_spec [OF _ 2] in blast)
  moreover obtain d where "R s1 d" using adv unfolding may_advance_def advances_def by blast
  ultimately show ?thesis using janitor_metrics_spec [OF _ 2] by simp
qed

lemma janitor_other:
  assumes "R s c"
  shows "janitor_init st now m s = (j, s') \<Longrightarrow> R s' c"
    "janitor_drain st j m s = (m', s') \<Longrightarrow> R s' c \<and> keeps m m'"
  using assms ensure_metrics [OF assms] flushMetrics_spec [OF assms]
  by (auto simp: janitor_init_def janitor_drain_def Let_def split: option.splits prod.splits if_splits)

lemma registered_R:
  "R s c \<Longrightarrow> ensureRegistered st m s = (e, m', s') \<Longrightarrow> R s' c"
  using register by (auto simp: ensureRegistered_def split: if_splits prod.splits option.splits)

definition fresh_tasks :: "cevent set" where
  "fresh_tasks = {Enqueued i a | i a. a_attempts a = 0 \<and> 1 \<le> a_max a}"

end

end
