(* ===== verification/Fleet_Safety.thy ===== *)
theory Fleet_Safety
  imports Fleet_Sim
begin

text \<open>
  The fleet's invariant, preserved by every step, and what follows for the runs of handlers: no claim
  is run twice, and a task that is never requeued runs at most as often as its attempts limit says.
\<close>

section \<open>Enqueue\<close>

definition fresh_task :: "task \<Rightarrow> bool" where
  "fresh_task t \<longleftrightarrow> t_Status t = StatusPending \<and> t_Attempts t = 0 \<and> 1 \<le> t_MaxAttempts t"

lemma build_tasks_spec:
  "build_tasks mk pls = Inr ts \<Longrightarrow> length ts = length pls \<and> (\<forall>t \<in> set ts. \<exists>raw. t = mk raw)"
  by (induction mk pls arbitrary: ts rule: build_tasks.induct) (auto split: sum.splits)

lemma plan_tasks_spec:
  assumes "plan_tasks cfg qp now q ty pls pol = Inr ts"
  shows "length ts = length pls \<and> (\<forall>t \<in> set ts. fresh_task t)"
proof (cases "pls = []")
  case True
  with assms show ?thesis by (simp add: plan_tasks_def)
next
  case False
  let ?p = "if length pol = 1 then hd pol else zero_policy"
  let ?run = "if is_zero (tp_RunAt ?p) then add_time now (tp_Delay ?p) else tp_RunAt ?p"
  have a: "1 \<le> resolve_attempts cfg qp ?p"
    and b: "build_tasks (new_task q ty ?p (resolve_attempts cfg qp ?p) ?run (expiry qp ?run) now) pls = Inr ts"
    using assms False by (simp_all add: plan_tasks_def Let_def split: if_splits)
  from build_tasks_spec [OF b] a show ?thesis by (auto simp: fresh_task_def new_task_def)
qed

lemma EnqueueMany_cases:
  assumes "EnqueueMany st now q ty pls pol m s = (r, m', s')"
  shows "(m' = m \<and> s' = s) \<or> (\<exists>e. ensureRegistered st m s = (e, m', s')) \<or>
    (\<exists>m1 s1 tasks ids e n m2. ensureRegistered st m s = (None, m1, s1) \<and> (\<forall>t \<in> set tasks. fresh_task t) \<and>
      st_Enqueue st tasks s1 = ((ids, e), s') \<and> note_inserted ids tasks 0 m1 = (n, m2) \<and>
      m' = count q (add_enqueued n) m2)"
proof (cases "ty = [] \<or> map_of (m_queues m) q = None")
  case True
  with assms show ?thesis by (auto simp: EnqueueMany_def split: if_splits)
next
  case False
  then obtain qp where qp: "map_of (m_queues m) q = Some qp" by blast
  obtain e m1 s1 where reg: "ensureRegistered st m s = (e, m1, s1)" by (metis prod.exhaust)
  let ?plan = "plan_tasks (m_cfg m1) qp now q ty pls pol"
  show ?thesis
  proof (cases "e \<noteq> None \<or> isl ?plan \<or> ?plan = Inr []")
    case True
    with assms False qp reg have "m' = m1 \<and> s' = s1"
      by (auto simp: EnqueueMany_def split: sum.splits option.splits)
    with reg show ?thesis by blast
  next
    case go: False
    then obtain tasks where tasks: "?plan = Inr tasks" "tasks \<noteq> []" by (cases ?plan) auto
    moreover obtain ids e2 s2 where en: "st_Enqueue st tasks s1 = ((ids, e2), s2)" by (metis prod.exhaust)
    moreover obtain n m2 where ni: "note_inserted ids tasks 0 m1 = (n, m2)" by fastforce
    ultimately have "m' = count q (add_enqueued n) m2 \<and> s' = s2"
      using assms False qp reg go by (auto simp: EnqueueMany_def)
    with plan_tasks_spec [OF tasks(1)] reg go en ni show ?thesis by auto
  qed
qed

lemma Start_spec:
  assumes "Start st watch m s = (e, m', s')"
  shows "(s' = s \<or> (\<exists>e1 m1. ensureRegistered st (m\<lparr>m_started := True\<rparr>) s = (e1, m1, s'))) \<and>
    m_finBuf m' = m_finBuf m \<and> m_pipeline m' = m_pipeline m \<and>
    (m_taskCh m' = m_taskCh m \<or> m_taskCh m' = [])"
proof (cases "keys (m_handlers m) = [] \<or> m_started m")
  case True
  with assms show ?thesis by (auto simp: Start_def split: if_splits)
next
  case False
  obtain e1 m1 s1 where reg: "ensureRegistered st (m\<lparr>m_started := True\<rparr>) s = (e1, m1, s1)" by (metis prod.exhaust)
  have k: "keeps (m\<lparr>m_started := True\<rparr>) m1" using keeps_registered [of "m\<lparr>m_started := True\<rparr>" st s] reg by simp
  show ?thesis
  proof (cases e1)
    case (Some x)
    with assms False reg k show ?thesis by (auto simp: Start_def keeps_def)
  next
    case None
    with assms False reg have s': "s' = s1" by (simp add: Start_def Let_def)
    from None assms False reg k show ?thesis
      unfolding s' by (auto simp: Start_def Let_def keeps_def split: option.splits if_splits)
  qed
qed

context store_contract begin

lemma enqueue_many_spec:
  assumes "R s c" "EnqueueMany st now q ty pls pol m s = (r, m', s')"
  shows "may_advance R c fresh_tasks s' \<and> keeps m m'"
proof -
  consider "m' = m" "s' = s" | e where "ensureRegistered st m s = (e, m', s')"
    | m1 s1 tasks ids e n m2 where "ensureRegistered st m s = (None, m1, s1)" "\<forall>t \<in> set tasks. fresh_task t"
      "st_Enqueue st tasks s1 = ((ids, e), s')" "note_inserted ids tasks 0 m1 = (n, m2)"
      "m' = count q (add_enqueued n) m2"
    using EnqueueMany_cases [OF assms(2)] by blast
  then show ?thesis
  proof cases
    case 1
    then show ?thesis using may_advance_stay [of R, OF assms(1)] by simp
  next
    case (2 e)
    then show ?thesis
      using may_advance_stay [of R, OF registered_R [OF assms(1) 2]] keeps_registered [of m st s] by simp
  next
    case (3 m1 s1 tasks ids e n m2)
    have R1: "R s1 c" by (rule registered_R [OF assms(1) 3(1)])
    have "list_all (\<lambda>t. t_Status t = StatusPending) tasks"
      using 3(2) by (auto simp: list_all_iff fresh_task_def)
    from apply_enqueue [OF R1 this] 3(3) have
      "may_advance R c (enqueue_events tasks) s'" by simp
    moreover have "enqueue_events tasks \<subseteq> fresh_tasks"
      using 3(2) by (auto simp: stored_as_def fresh_tasks_def fresh_task_def)
    moreover have "keeps m m'"
      using keeps_registered [of m st s] keeps_inserted [of m1 ids tasks 0] 3 keeps_count [of m2]
      by (auto intro: keeps_trans)
    ultimately show ?thesis using may_advance_mono [of R c _ s'] by blast
  qed
qed

lemma quiet_fresh: "quiet c fresh_tasks"
  by (auto simp: quiet_def fresh_tasks_def good_event_def)

section \<open>Every step of a node\<close>

lemma stay_goes:
  assumes "creach es c" "R s c" "node_ok c N" "keeps (nd_man N) m"
  shows "goes R es c s N (N\<lparr>nd_man := m\<rparr>) []"
  by (rule goes_keeps [OF assms(1,3) may_advance_stay [of R s c "{}"] _ assms(4)]) (use assms(2) in simp_all)

lemma move_goes:
  assumes "creach es c" "R s c" "node_ok c N" "worker_in N w p" "may_advance R c E s'" "quiet c E"
    and "claims_of (phase_tasks q) \<subseteq># claims_of (phase_tasks p)" "\<forall>t \<in> set (phase_tasks q). copy_ok c t"
    and "\<forall>r \<in> set (phase_outcomes q). outcome_ok c r" "keeps (nd_man N) m"
  shows "goes R es c s' N (with_worker N w q m) []"
  using assms by (intro goes_worker [OF assms(1,3,5,6,4), where B = "{}"]) (auto simp: keeps_def)

text \<open>The longer steps of a node: a worker's receive, and the start of the goroutines.\<close>

lemma take_goes:
  assumes "creach es c" "R s c" "node_ok c N" "worker_in N w PIdle" "take_task (nd_man N) = Some (t, m')"
  shows "goes R es c s N (with_worker N w (PTaken t) m') []"
proof -
  obtain ts where ch: "m_taskCh (nd_man N) = t # ts"
    and m': "m' = (nd_man N)\<lparr>m_taskCh := ts, m_fetchNudge := True\<rparr>"
    using assms(5) by (auto simp: take_task_def split: list.splits)
  have ok: "copy_ok c t" using assms(3) ch by (simp add: node_ok_def unrun_def)
  let ?N1 = "N\<lparr>nd_man := m'\<rparr>"
  have N1: "node_ok c ?N1" using assms(3) ch by (auto simp: node_ok_def unrun_def unwritten_def m')
  have "worker_in ?N1 w PIdle" using assms(4) by simp
  from node_ok_worker [OF N1, of m' "{}" "PTaken t" w] have "node_ok c (with_worker N w (PTaken t) m')"
    using ok by (simp add: m')
  moreover have "claims_of (unrun (with_worker N w (PTaken t) m')) = claims_of (unrun N)"
    using unrun_worker(1) [OF \<open>worker_in ?N1 w PIdle\<close>, of m' "PTaken t"] ch by (simp add: unrun_def m')
  ultimately show ?thesis
    using assms(2) by (auto intro!: goes_quiet [OF assms(1) may_advance_stay [of R s c "{}"]])
qed

lemma node_step_goes:
  assumes "node_step st N s rs N' s'" "creach es c" "R s c" "node_ok c N"
  shows "goes R es c s' N N' rs"
  using assms(1)
proof cases
  case (claim w now canc t m')
  then show ?thesis using worker_round_goes [OF assms(2-4)] by fastforce
next
  case (no_claim w now canc nx m')
  then show ?thesis using worker_round_goes [OF assms(2-4)] by fastforce
next
  case (fetch p now canc ca nx m')
  then show ?thesis using fetch_goes [OF assms(2-4)] by simp
next
  case (take w t m')
  then show ?thesis using take_goes [OF assms(2-4)] by simp
next
  case (start_own w t now clock t')
  note sp = startOfWork_spec [OF assms(3) start_own(4)]
  have "copy_ok c t" using worker_ok(1) [OF assms(4) start_own(3)] by simp
  with sp show ?thesis
    unfolding start_own(1,2) by (intro move_goes [OF assms(2-4) start_own(3) conjunct1 [OF sp]]) auto
next
  case (start_drop w t now clock)
  note sp = startOfWork_spec [OF assms(3) start_drop(4)]
  show ?thesis
    unfolding start_drop(1,2) by (intro move_goes [OF assms(2-4) start_drop(3) conjunct1 [OF sp]]) simp_all
next
  case (run w t entry rnd now dur ctx r m')
  have k: "keeps (nd_man N) m'" by (rule keeps_outcome [OF run(6)])
  have ok: "copy_ok c t" using worker_ok(1) [OF assms(4) run(4)] by simp
  with outcome_facts [OF run(6)] have "outcome_ok c r" by (simp add: outcome_ok_def)
  with k ok assms(3) show ?thesis
    unfolding run(1,2,3) by (intro goes_worker [OF assms(2,4) may_advance_stay [of R s c "{}"] _ run(4), where B = "{}"])
      (auto simp: keeps_def)
next
  case (unknown w t)
  show ?thesis
    unfolding unknown(1-3)
    using assms(3) by (intro move_goes [OF assms(2-4) unknown(4) may_advance_stay [of R s c "{}"]]) simp_all
next
  case (heartbeat w t now lost)
  have "may_advance R c {Extended (t_ID t) (t_LeaseToken t)} s'"
    using extend_advance [OF assms(3), of now t "c_LeaseTime (m_cfg (nd_man N))"] heartbeat(4)
    by (auto simp: heartbeat_tick_def split: prod.splits sum.splits)
  from goes_keeps [OF assms(2,4) this _ keeps_refl] heartbeat show ?thesis by simp
next
  case (extend w t now t')
  obtain u where u: "st_ExtendLease st now t (c_LeaseTime (m_cfg (nd_man N))) s = (Inr u, s')" "t' = t\<lparr>t_LeasedUntil := u\<rparr>"
    using extend(4) by (auto simp: ExtendLease_def split: prod.splits sum.splits)
  have "copy_ok c t" using worker_ok(1) [OF assms(4) extend(3)] by simp
  then show ?thesis
    unfolding extend(1,2) u(2) by (intro move_goes [OF assms(2-4) extend(3) extend_advance [OF assms(3) u(1)]]) simp_all
next
  case (no_extend w t now e)
  have "may_advance R c {Extended (t_ID t) (t_LeaseToken t)} s'"
    using extend_advance [OF assms(3), of now t "c_LeaseTime (m_cfg (nd_man N))"] no_extend(4)
    by (auto simp: ExtendLease_def split: prod.splits sum.splits)
  from goes_keeps [OF assms(2,4) this _ keeps_refl] no_extend show ?thesis by simp
next
  case (buffer w r n1 n2)
  have "outcome_ok c r" using worker_ok(2) [OF assms(4) buffer(4)] by simp
  with assms(3) show ?thesis
    unfolding buffer(1-3) by (intro goes_worker [OF assms(2,4) may_advance_stay [of R s c "{}"] _ buffer(4), where B = "{r}"])
      (auto simp: bufferOutcome_def Let_def)
next
  case (finalize w r n1 now e)
  have ok: "outcome_ok c r" using worker_ok(2) [OF assms(4) finalize(3)] by simp
  show ?thesis
    unfolding finalize(1,2)
    by (rule move_goes [OF assms(2-4) finalize(3) finalizeNow_advance [OF assms(3) finalize(5)] outcome_quiet [OF ok]])
      simp_all
next
  case (flush p now clock wd nx m')
  have "(\<exists>x. flushOutcomes st clock (nd_man N) s = (x, m', s')) \<or> (s' = s \<and> keeps (nd_man N) m')"
    using flush(5) by (auto simp: flusher_round_def keeps_def split: if_splits prod.splits)
  then show ?thesis
    using flush(1,2) flush_goes [OF assms(2-4)] stay_goes [OF assms(2-4)] by auto
next
  case (janitor_start now j)
  from goes_keeps [OF assms(2,4) may_advance_stay [of R, OF janitor_other(1) [OF assms(3) janitor_start(4)], of "{}"] _ keeps_refl]
    janitor_start show ?thesis by simp
next
  case (janitor n0 n1 n2 n3 j j' m')
  note sp = janitor_round_spec [OF assms(3) janitor(4)]
  from goes_keeps [OF assms(2,4) conjunct1 [OF sp] _ conjunct2 [OF sp]] janitor show ?thesis by simp
next
  case (janitor_stop j m')
  note sp = janitor_other(2) [OF assms(3) janitor_stop(4)]
  from goes_keeps [OF assms(2,4) may_advance_stay [of R, OF conjunct1 [OF sp], of "{}"] _ conjunct2 [OF sp]]
    janitor_stop show ?thesis by simp
next
  case (enqueue now q ty payloads policy r m')
  note sp = enqueue_many_spec [OF assms(3) enqueue(3)]
  from goes_keeps [OF assms(2,4) conjunct1 [OF sp] quiet_fresh conjunct2 [OF sp]] enqueue show ?thesis by simp
next
  case (register hs)
  then show ?thesis using stay_goes [OF assms(2-4)] by (auto simp: keeps_def)
next
  case (start watch e m')
  note sp = Start_spec [OF start(3)]
  have R': "R s' c" using sp registered_R [OF assms(3)] assms(3) by blast
  have "node_ok c (N\<lparr>nd_man := m'\<rparr>)"
    using assms(4) sp by (auto simp: node_ok_def unrun_def unwritten_def)
  moreover have "claims_of (unrun (N\<lparr>nd_man := m'\<rparr>)) \<subseteq># claims_of (unrun N)"
    using sp by (auto simp: unrun_def)
  ultimately show ?thesis
    unfolding start(1,2) by (intro goes_quiet [OF assms(2) may_advance_stay [of R, OF R', of "{}"]]) simp_all
next
  case stop
  then show ?thesis using stay_goes [OF assms(2-4)] by (auto simp: keeps_def stop_claiming_def)
qed

end

section \<open>The invariant\<close>

text \<open>The claims that were run or are held somewhere, with their multiplicities.\<close>

definition fleet_claims :: "'s fleet \<Rightarrow> (string \<times> string) multiset" where
  "fleet_claims F = claims_of (fl_runs F) + sum_list (map (\<lambda>N. claims_of (unrun N)) (fl_nodes F))"

definition once :: "'a multiset \<Rightarrow> bool" where
  "once M \<longleftrightarrow> (\<forall>p. Multiset.count M p \<le> 1)"

lemma once_mono: "once M \<Longrightarrow> M' \<subseteq># M \<Longrightarrow> once M'"
  unfolding once_def by (meson mset_subset_eq_count order_trans)

lemma once_add:
  assumes "once M" "distinct new" "set new \<inter> set_mset M = {}"
  shows "once (M + mset new)"
  unfolding once_def
proof
  fix p
  show "Multiset.count (M + mset new) p \<le> 1"
  proof (cases "p \<in> set new")
    case True
    then have "Multiset.count M p = 0" using assms(3) by (auto simp: not_in_iff [symmetric])
    with True assms(2) show ?thesis by (simp add: distinct_count_atmost_1)
  next
    case False
    then have "Multiset.count (mset new) p = 0" by (simp add: count_eq_zero_iff)
    then show ?thesis using assms(1) unfolding once_def count_union by (simp only: add_0_right)
  qed
qed

lemma once_distinct: "once (mset xs) \<Longrightarrow> distinct xs"
proof (induction xs)
  case (Cons x xs)
  have "once (mset xs)" using once_mono [OF Cons.prems] by simp
  moreover have "Multiset.count (mset (x # xs)) x \<le> 1" using Cons.prems unfolding once_def by blast
  then have "Multiset.count (mset xs) x = 0" by simp
  ultimately show ?case using Cons.IH by (simp add: count_eq_zero_iff)
qed simp

lemma sum_list_update_ms:
  "n < length xs \<Longrightarrow> sum_list (map f (xs[n := y])) + f (xs ! n) = sum_list (map f xs) + (f y :: 'b multiset)"
proof (induction xs arbitrary: n)
  case (Cons x xs)
  then show ?case by (cases n) (simp_all add: add.assoc add.left_commute add.commute)
qed simp

lemma in_sum_list: "p \<in># sum_list (map f xs) \<longleftrightarrow> (\<exists>x \<in> set xs. p \<in># (f x :: 'b multiset))"
  by (induction xs) auto

definition fleet_inv :: "('s \<Rightarrow> cstore \<Rightarrow> bool) \<Rightarrow> 's fleet \<Rightarrow> bool" where
  "fleet_inv R F \<longleftrightarrow> (\<exists>es c. creach es c \<and> R (fl_store F) c \<and>
     (\<forall>i. Requeued i \<in> set es \<longrightarrow> fl_requeued F i) \<and>
     (\<forall>N \<in> set (fl_nodes F). node_ok c N) \<and> (\<forall>t \<in> set (fl_runs F). copy_ok c t) \<and>
     once (fleet_claims F))"

lemma fleet_claims_issued:
  assumes "\<forall>N \<in> set (fl_nodes F). node_ok c N" "\<forall>t \<in> set (fl_runs F). copy_ok c t"
  shows "set_mset (fleet_claims F) \<subseteq> c_issued c"
  using assms by (auto simp: fleet_claims_def in_sum_list node_ok_def copy_ok_def)

lemma New_fresh: "New opts rnd h = (Inr m, h') \<Longrightarrow> m_taskCh m = [] \<and> m_finBuf m = []"
  by (auto simp: New_def split: sum.splits prod.splits)

lemma fresh_node_ok: "fresh_node N \<Longrightarrow> node_ok c N \<and> unrun N = []"
proof -
  assume "fresh_node N"
  then obtain opts rnd h h' where n: "New opts rnd h = (Inr (nd_man N), h')"
    and w: "nd_work N = replicate (nat (c_Workers (m_cfg (nd_man N)))) PIdle" by (auto simp: fresh_node_def)
  have "m_taskCh (nd_man N) = []" "m_finBuf (nd_man N) = []"
    using New_fresh [OF n] by simp_all
  moreover have "0 \<le> sint (pc_QueueLease p)" if "m_pipeline (nd_man N) = Some p" for p
    using settings_of_New [OF n] that by (auto simp: settings_valid_def valid_pipeline_def intro: less_imp_le)
  ultimately show ?thesis by (simp add: node_ok_def unrun_def unwritten_def w)
qed

lemma fleet_claims_replace:
  assumes "n < length (fl_nodes F)"
    and "claims_of (unrun N') + claims_of rs \<subseteq># claims_of (unrun (fl_nodes F ! n)) + X"
  shows "fleet_claims (F\<lparr>fl_store := s', fl_nodes := (fl_nodes F)[n := N'], fl_runs := fl_runs F @ rs\<rparr>)
    \<subseteq># fleet_claims F + X"
proof -
  let ?f = "\<lambda>N. claims_of (unrun N)" and ?xs = "fl_nodes F"
  have "sum_list (map ?f (?xs[n := N'])) + ?f (?xs ! n) = sum_list (map ?f ?xs) + ?f N'"
    by (rule sum_list_update_ms [OF assms(1)])
  then have "(claims_of (fl_runs F) + claims_of rs + sum_list (map ?f (?xs[n := N']))) + ?f (?xs ! n) =
      claims_of (fl_runs F) + sum_list (map ?f ?xs) + (?f N' + claims_of rs)"
    by (simp add: add.assoc add.left_commute add.commute)
  also have "\<dots> \<subseteq># claims_of (fl_runs F) + sum_list (map ?f ?xs) + (?f (?xs ! n) + X)"
    using assms(2) by (rule subset_mset.add_left_mono)
  finally show ?thesis
    unfolding fleet_claims_def by (simp add: add.assoc add.left_commute add.commute)
qed

context store_contract begin

lemma fleet_node_inv:
  assumes "fleet_inv R F" "n < length (fl_nodes F)" "node_step st (fl_nodes F ! n) (fl_store F) rs N' s'"
  shows "fleet_inv R (F\<lparr>fl_store := s', fl_nodes := (fl_nodes F)[n := N'], fl_runs := fl_runs F @ rs\<rparr>)"
proof -
  let ?G = "F\<lparr>fl_store := s', fl_nodes := (fl_nodes F)[n := N'], fl_runs := fl_runs F @ rs\<rparr>"
  obtain es c where inv: "creach es c" "R (fl_store F) c" "\<forall>i. Requeued i \<in> set es \<longrightarrow> fl_requeued F i"
    "\<forall>N \<in> set (fl_nodes F). node_ok c N" "\<forall>t \<in> set (fl_runs F). copy_ok c t" "once (fleet_claims F)"
    using assms(1) by (auto simp: fleet_inv_def)
  have "node_ok c (fl_nodes F ! n)" using inv(4) assms(2) by simp
  from node_step_goes [OF assms(3) inv(1,2) this] obtain fs d new where
    st: "creach (es @ fs) d" "cexec c fs d" "R s' d" "\<forall>i. Requeued i \<notin> set fs" "node_ok d N'"
      "\<forall>t \<in> set rs. copy_ok d t" "distinct new" "set new \<inter> c_issued c = {}"
      "claims_of (unrun N') + claims_of rs \<subseteq># claims_of (unrun (fl_nodes F ! n)) + mset new"
    unfolding goes_def by blast
  have "set new \<inter> set_mset (fleet_claims F) = {}"
    using fleet_claims_issued [OF inv(4,5)] st(8) by blast
  then have "once (fleet_claims ?G)"
    using once_add [OF inv(6) st(7)] fleet_claims_replace [OF assms(2) st(9)] once_mono by blast
  moreover have "\<forall>N \<in> set (fl_nodes ?G). node_ok d N"
    using inv(4) st(5) node_ok_exec [OF st(2)] set_update_subset_insert [of "fl_nodes F" n N'] by auto
  moreover have "\<forall>t \<in> set (fl_runs ?G). copy_ok d t" using inv(5) st(6) copy_exec [OF st(2)] by auto
  ultimately show ?thesis
    unfolding fleet_inv_def using st(1,3,4) inv(3)
    by (intro exI [of _ "es @ fs"] exI [of _ d]) auto
qed

lemma fleet_store_inv:
  assumes "fleet_inv R F" "\<And>c. R (fl_store F) c \<Longrightarrow> may_advance R c E s'"
    and "\<And>c. \<forall>e \<in> E. good_event c e" "\<forall>i. Requeued i \<in> E \<longrightarrow> q i" "\<forall>i. fl_requeued F i \<longrightarrow> q i"
  shows "fleet_inv R (F\<lparr>fl_store := s', fl_requeued := q\<rparr>)"
proof -
  obtain es c where inv: "creach es c" "R (fl_store F) c" "\<forall>i. Requeued i \<in> set es \<longrightarrow> fl_requeued F i"
    "\<forall>N \<in> set (fl_nodes F). node_ok c N" "\<forall>t \<in> set (fl_runs F). copy_ok c t" "once (fleet_claims F)"
    using assms(1) by (auto simp: fleet_inv_def)
  obtain fs d where fs: "set fs \<subseteq> E" "cexec c fs d" "R s' d"
    using assms(2) [OF inv(2)] by (auto simp: may_advance_def advances_def)
  have "creach (es @ fs) d" using fs(1) assms(3) by (intro good_exec [OF fs(2) inv(1)]) auto
  moreover have "fleet_claims (F\<lparr>fl_store := s', fl_requeued := q\<rparr>) = fleet_claims F"
    by (simp add: fleet_claims_def)
  ultimately show ?thesis
    unfolding fleet_inv_def using inv(3-6) fs(1,3) assms(4,5) node_ok_exec [OF fs(2)] copy_exec [OF fs(2)]
    by (intro exI [of _ "es @ fs"] exI [of _ d]) auto
qed

text \<open>A node replaced by a fresh one, after at most one more run of what it held.\<close>

lemma fleet_crash_inv:
  assumes "fleet_inv R F" "n < length (fl_nodes F)" "fresh_node N'" "mset ts \<subseteq># mset (unrun (fl_nodes F ! n))"
  shows "fleet_inv R (F\<lparr>fl_nodes := (fl_nodes F)[n := N'], fl_runs := fl_runs F @ ts\<rparr>)"
proof -
  let ?G = "F\<lparr>fl_nodes := (fl_nodes F)[n := N'], fl_runs := fl_runs F @ ts\<rparr>"
  obtain es c where inv: "creach es c" "R (fl_store F) c" "\<forall>i. Requeued i \<in> set es \<longrightarrow> fl_requeued F i"
    "\<forall>N \<in> set (fl_nodes F). node_ok c N" "\<forall>t \<in> set (fl_runs F). copy_ok c t" "once (fleet_claims F)"
    using assms(1) by (auto simp: fleet_inv_def)
  note fr = fresh_node_ok [OF assms(3), of c]
  have "claims_of (unrun N') + claims_of ts \<subseteq># claims_of (unrun (fl_nodes F ! n)) + {#}"
    using fr image_mset_subseteq_mono [OF assms(4), of claim_of] by simp
  from fleet_claims_replace [OF assms(2) this, of "fl_store F"] have "once (fleet_claims ?G)"
    using once_mono [OF inv(6)] by simp
  moreover have "\<forall>N \<in> set (fl_nodes ?G). node_ok c N"
    using inv(4) fr set_update_subset_insert [of "fl_nodes F" n N'] by auto
  moreover have "set ts \<subseteq> set (unrun (fl_nodes F ! n))" using set_mset_mono [OF assms(4)] by simp
  then have "\<forall>t \<in> set (fl_runs ?G). copy_ok c t"
    using inv(4,5) nth_mem [OF assms(2)] unfolding node_ok_def by fastforce
  ultimately show ?thesis
    unfolding fleet_inv_def using inv(1-3) by (intro exI [of _ es] exI [of _ c]) auto
qed

lemmas dead_letters = requeue_dead

lemma fleet_step_inv:
  assumes "fleet_inv R F" "fleet_step st purge F G"
    and purge: "\<And>s c s'. R s c \<Longrightarrow> purge s s' \<Longrightarrow> may_advance R c (range Purged) s'"
  shows "fleet_inv R G"
  using assms(2)
proof cases
  case (node n rs N' s')
  then show ?thesis using fleet_node_inv [OF assms(1)] by simp
next
  case (join N)
  have "fleet_claims G = fleet_claims F" using fresh_node_ok [OF join(2)] by (simp add: fleet_claims_def join(1))
  with assms(1) fresh_node_ok [OF join(2)] show ?thesis by (fastforce simp: fleet_inv_def join(1))
next
  case (crash n N)
  from fleet_crash_inv [OF assms(1) crash(2,3), of "[]"] show ?thesis by (simp add: crash(1))
next
  case (panic n w t N entry rnd now dur ctx p)
  have "mset [t] \<subseteq># mset (unrun (fl_nodes F ! n))"
    using worker_in_unrun [OF panic(3)] by simp
  from fleet_crash_inv [OF assms(1) panic(2,4) this] show ?thesis by (simp add: panic(1))
next
  case (requeue now i e s')
  have "may_advance R c {Requeued i} s'" if "R (fl_store F) c" for c
    using apply_requeue [OF that, of i now] requeue(2) by (simp add: Requeue_def)
  then show ?thesis
    unfolding requeue(1) by (rule fleet_store_inv [OF assms(1)]) (auto simp: good_event_def)
next
  case (requeue_dead now ty n s')
  have "may_advance R c (range Requeued) s'" if "R (fl_store F) c" for c
    using dead_letters [OF that] requeue_dead(2) by (simp add: RequeueDead_def)
  then show ?thesis
    unfolding requeue_dead(1) by (rule fleet_store_inv [OF assms(1)]) (auto simp: good_event_def)
next
  case (expire s')
  have "fleet_inv R (F\<lparr>fl_store := s', fl_requeued := fl_requeued F\<rparr>)"
    using purge [OF _ expire(2)] by (rule fleet_store_inv [OF assms(1)]) (auto simp: good_event_def)
  moreover have "F\<lparr>fl_store := s', fl_requeued := fl_requeued F\<rparr> = F\<lparr>fl_store := s'\<rparr>" by (cases F) simp
  ultimately show ?thesis unfolding expire(1) by simp
qed

lemma fleet_reach_inv:
  assumes "fleet_reach st purge s0 F" "R s0 cinit"
    and "\<And>s c s'. R s c \<Longrightarrow> purge s s' \<Longrightarrow> may_advance R c (range Purged) s'"
  shows "fleet_inv R F"
  using assms(1)
proof (induction rule: fleet_reach.induct)
  case fleet_init
  then show ?case
    using assms(2) creach_init
    by (auto simp: fleet_inv_def fleet_claims_def once_def intro!: exI [of _ "[]"] exI [of _ cinit])
next
  case (fleet_next F G)
  from fleet_step_inv [OF fleet_next.IH fleet_next.hyps(2) assms(3)] show ?case .
qed

lemma fleet_runs_distinct: "fleet_inv R F \<Longrightarrow> distinct (map claim_of (fl_runs F))"
  unfolding fleet_inv_def fleet_claims_def
  by (elim exE conjE) (rule once_distinct, erule once_mono, simp)

lemma fleet_runs_limit:
  assumes "fleet_inv R F" "t \<in> set (fl_runs F)" "\<not> fl_requeued F (t_ID t)"
  shows "int (length (filter (\<lambda>u. t_ID u = t_ID t) (fl_runs F))) \<le> t_MaxAttempts t"
proof -
  let ?i = "t_ID t" and ?us = "filter (\<lambda>u. t_ID u = t_ID t) (fl_runs F)"
  obtain es c where inv: "creach es c" "\<forall>i. Requeued i \<in> set es \<longrightarrow> fl_requeued F i"
    "\<forall>t \<in> set (fl_runs F). copy_ok c t" using assms(1) by (auto simp: fleet_inv_def)
  have "distinct (map claim_of ?us)"
    using fleet_runs_distinct [OF assms(1)] by (rule distinct_map_filter)
  then have "distinct (map t_LeaseToken ?us)"
    by (auto simp: distinct_map inj_on_def claim_of_def)
  then have "length ?us = card (set (map t_LeaseToken ?us))" by (metis distinct_card length_map)
  also have "\<dots> \<le> card (issued_for ?i c)"
    using creach_issued [OF inv(1), of ?i] inv(3)
    by (intro card_mono) (auto simp: issued_for_def copy_ok_def claim_of_def)
  also have "\<dots> \<le> claims ?i es" using creach_issued [OF inv(1)] by simp
  finally have "int (length ?us) \<le> int (claims ?i es)" by simp
  moreover have "c_limit c ?i = Some (t_MaxAttempts t)" using inv(3) assms(2) by (simp add: copy_ok_def)
  then have "int (claims ?i es) \<le> t_MaxAttempts t"
    using creach_claims [OF inv(1), of ?i] inv(2) assms(3) by (auto simp: claims_inv_def)
  ultimately show ?thesis by simp
qed

end

end
