(* ===== verification/Fleet_Claims.thy ===== *)
theory Fleet_Claims
  imports Fleet_Safety Memstore_Tables
begin

text \<open>
  What a fleet of managers guarantees, for every store that keeps the contract and for \<open>memstore\<close>
  in particular, whatever the interleaving of its goroutines and the crashes of its processes.
\<close>

text \<open>What a store's own expiry of tasks may do: remove them.\<close>

definition purge_ok :: "('s \<Rightarrow> cstore \<Rightarrow> bool) \<Rightarrow> ('s \<Rightarrow> 's \<Rightarrow> bool) \<Rightarrow> bool" where
  "purge_ok R purge \<longleftrightarrow> (\<forall>s c s'. R s c \<longrightarrow> purge s s' \<longrightarrow> may_advance R c (range Purged) s')"

lemma reach_inv:
  assumes "store_contract st R" "R s0 cinit" "purge_ok R purge" "fleet_reach st purge s0 F"
  shows "fleet_inv R F"
  using store_contract.fleet_reach_inv [OF assms(1,4,2)] assms(3) by (simp add: purge_ok_def)

section \<open>A small fleet\<close>

text \<open>One process on a fresh store: it enqueues a task, starts, claims it and runs it.\<close>

definition demo_entry :: handler_entry where
  "demo_entry = \<lparr>he_fn = (\<lambda>ctx t. Returned None None), he_timeout = 0\<rparr>"

definition demo_enqueued :: "'s store \<Rightarrow> 's \<Rightarrow> manager \<times> 's" where
  "demo_enqueued st s = snd (EnqueueMany st 1 ''q'' ''a'' [Inr ''{}''] [] (demo_manager []) s)"

definition demo_registered :: "'s store \<Rightarrow> 's \<Rightarrow> manager" where
  "demo_registered st s = (fst (demo_enqueued st s))\<lparr>m_handlers := [(''a'', demo_entry)]\<rparr>"

definition demo_started :: "'s store \<Rightarrow> 's \<Rightarrow> manager \<times> 's" where
  "demo_started st s = snd (Start st False (demo_registered st s) (snd (demo_enqueued st s)))"

definition demo_round :: "'s store \<Rightarrow> 's \<Rightarrow> worker_next \<times> manager \<times> 's" where
  "demo_round st s = (case demo_started st s of (m, s') \<Rightarrow> worker_round st 5 False (worker_id m 0) m s')"

definition demo_run_task :: "'s store \<Rightarrow> 's \<Rightarrow> task" where
  "demo_run_task st s = (case fst (demo_round st s) of Process t \<Rightarrow> t | _ \<Rightarrow> undefined)"

definition demo_outcome :: "'s store \<Rightarrow> 's \<Rightarrow> outcome \<times> manager" where
  "demo_outcome st s = (let m = fst (snd (demo_round st s)); t = demo_run_task st s in
     projr (attempt_outcome (\<lambda>_. 0) (worker_id m 0) 6 1 t (invoke demo_entry None t) m))"

definition demo_node :: "manager \<Rightarrow> phase \<Rightarrow> node" where
  "demo_node m p = \<lparr>nd_man = m, nd_work = [p, PIdle, PIdle, PIdle]\<rparr>"

definition demo_fleet :: "'s store \<Rightarrow> 's \<Rightarrow> 's fleet" where
  "demo_fleet st s = \<lparr>fl_store = snd (snd (demo_round st s)),
     fl_nodes = [demo_node (snd (demo_outcome st s)) (PDone (fst (demo_outcome st s)))],
     fl_runs = [demo_run_task st s], fl_requeued = (\<lambda>_. False)\<rparr>"

lemma demo_fresh: "fresh_node (demo_node (demo_manager []) PIdle)"
proof -
  have "isl (fst (New [OQueues [demo_queue]] (Inr [1, 2, 3, 4]) empty_heap)) = False" by code_simp
  then have "New [OQueues [demo_queue]] (Inr [1, 2, 3, 4]) empty_heap =
      (Inr (demo_manager []), snd (New [OQueues [demo_queue]] (Inr [1, 2, 3, 4]) empty_heap))"
    unfolding demo_manager_def by (intro prod_eqI) (simp_all add: sum.expand)
  moreover have "c_Workers (m_cfg (demo_manager [])) = 4" by code_simp
  then have "replicate (nat (c_Workers (m_cfg (demo_manager [])))) PIdle = [PIdle, PIdle, PIdle, PIdle]"
    by (simp add: numeral_eq_Suc)
  ultimately show ?thesis unfolding fresh_node_def demo_node_def by auto
qed

lemma keeps_handlers:
  "m_handlers (count q f m) = m_handlers m" "m_handlers (fireHook b e m) = m_handlers m"
  "m_handlers (fst (snd (ensureRegistered st m s))) = m_handlers m"
  by (simp_all add: count_def fireHook_def ensureRegistered_def split: option.split prod.split)

lemma worker_round_handlers: "m_handlers (fst (snd (worker_round st now cn wid m s))) = m_handlers m"
  by (simp add: worker_round_def note_claimed_def keeps_handlers split: prod.split sum.split)

lemma Start_handlers: "m_handlers (fst (snd (Start st w m s))) = m_handlers m"
  using keeps_handlers(3) [of st "m\<lparr>m_started := True\<rparr>" s]
  by (auto simp: Start_def Let_def split: prod.split option.split)

text \<open>The small fleet is a run of any store on which its manager starts and its claim finds the task.\<close>

definition demo_works :: "'s store \<Rightarrow> 's \<Rightarrow> bool" where
  "demo_works st s \<longleftrightarrow> \<not> m_started (fst (demo_enqueued st s)) \<and> m_started (fst (demo_started st s)) \<and>
     m_pipeline (fst (demo_started st s)) = None \<and>
     (case fst (demo_round st s) of Process t \<Rightarrow> t_Type t = ''a'' | _ \<Rightarrow> False)"

text \<open>The same in one pass.\<close>

lemma demo_works_once:
  "demo_works st s \<longleftrightarrow> (case demo_enqueued st s of (m1, s1) \<Rightarrow> \<not> m_started m1 \<and>
     (case Start st False (m1\<lparr>m_handlers := [(''a'', demo_entry)]\<rparr>) s1 of (_, m2, s2) \<Rightarrow>
        m_started m2 \<and> m_pipeline m2 = None \<and>
        (case worker_round st 5 False (worker_id m2 0) m2 s2 of (nx, _) \<Rightarrow>
           (case nx of Process t \<Rightarrow> t_Type t = ''a'' | _ \<Rightarrow> False))))"
  by (simp add: demo_works_def demo_round_def demo_started_def demo_registered_def split_beta)

lemma demo_reach:
  assumes "demo_works st s"
  shows "fleet_reach st purge s (demo_fleet st s)"
proof -
  let ?F = "\<lambda>s N rs. \<lparr>fl_store = s, fl_nodes = [N], fl_runs = rs, fl_requeued = (\<lambda>_. False)\<rparr>"
  let ?reach = "fleet_reach st purge s"
  let ?enq = "demo_enqueued st s" and ?reg = "demo_registered st s" and ?started = "demo_started st s"
    and ?m = "fst (snd (demo_round st s))" and ?s = "snd (snd (demo_round st s))" and ?t = "demo_run_task st s"
    and ?o = "demo_outcome st s"
  have step: "?reach (?F s2 N' (rs @ rs'))"
    if "?reach (?F s1 N rs)" "node_step st N s1 rs' N' s2" for s1 s2 N N' rs rs'
    using fleet_next [OF that(1) fleet_step.node [of 0]] that(2) by simp
  have 1: "?reach (?F s (demo_node (demo_manager []) PIdle) [])"
    using fleet_next [OF fleet_init fleet_step.join [OF demo_fresh]] by simp
  have 2: "?reach (?F (snd ?enq) (demo_node (fst ?enq) PIdle) ([] @ []))"
    by (rule step [OF 1])
      (use node_step.enqueue [of st 1 "''q''" "''a''" "[Inr ''{}'']" "[]" "demo_node (demo_manager []) PIdle" s
         "fst (EnqueueMany st 1 ''q'' ''a'' [Inr ''{}''] [] (demo_manager []) s)" "fst ?enq" "snd ?enq"]
       in \<open>simp add: demo_node_def demo_enqueued_def\<close>)
  have ns: "\<not> m_started (fst ?enq)" using assms by (simp add: demo_works_def)
  have 3: "?reach (?F (snd ?enq) (demo_node ?reg PIdle) ([] @ []))"
    by (rule step [OF 2 [simplified]])
      (use node_step.register [of "demo_node (fst ?enq) PIdle" st "snd ?enq" "[(''a'', demo_entry)]"] ns
       in \<open>simp add: demo_node_def demo_registered_def\<close>)
  have 4: "?reach (?F (snd ?started) (demo_node (fst ?started) PIdle) ([] @ []))"
    by (rule step [OF 3 [simplified]])
      (use node_step.start [of st False "demo_node ?reg PIdle" "snd ?enq"
         "fst (Start st False ?reg (snd ?enq))" "fst ?started" "snd ?started"]
       in \<open>simp add: demo_node_def demo_started_def\<close>)
  have started: "m_started (fst ?started)" "m_pipeline (fst ?started) = None" using assms by (simp_all add: demo_works_def)
  have found: "fst (demo_round st s) = Process ?t" "t_Type ?t = ''a''"
    using assms by (auto simp: demo_works_def demo_run_task_def split: worker_next.splits)
  then have round: "worker_round st 5 False (worker_id (fst ?started) 0) (fst ?started) (snd ?started) = (Process ?t, ?m, ?s)"
    by (intro prod_eqI) (simp_all add: demo_round_def split_beta)
  have 5: "?reach (?F ?s (demo_node ?m (POwned ?t)) ([] @ []))"
    by (rule step [OF 4 [simplified]])
      (use node_step.claim [of "demo_node (fst ?started) PIdle" 0 st 5 False "snd ?started" ?t ?m ?s] started round
       in \<open>simp add: demo_node_def\<close>)
  have e: "map_of (m_handlers ?m) ''a'' = Some demo_entry"
    by (simp add: demo_round_def split_beta worker_round_handlers demo_started_def Start_handlers demo_registered_def)
  have o: "isl (attempt_outcome (\<lambda>_. 0) (worker_id ?m 0) 6 1 ?t (invoke demo_entry None ?t) ?m) = False"
    by (simp add: attempt_outcome_def invoke_def demo_entry_def Let_def)
  have 6: "?reach (?F ?s (demo_node (snd ?o) (PDone (fst ?o))) ([] @ [?t]))"
    by (rule step [OF 5 [simplified]])
      (use node_step.run [of 0 "demo_node ?m (POwned ?t)" ?t demo_entry "\<lambda>_. 0" 6 1 None "fst ?o" "snd ?o" st ?s] e found(2) o
       in \<open>simp add: demo_node_def demo_outcome_def Let_def sum.expand\<close>)
  then show ?thesis by (simp add: demo_fleet_def)
qed

text \<open>On \<open>memstore\<close> the task it runs is this one.\<close>

abbreviation demo_mem :: "memstore store" where
  "demo_mem \<equiv> memstore_ops (\<lambda>_. [])"

definition demo_running :: task where
  "demo_running = (demo_task ''a'' [] 1)\<lparr>t_ID := ''task-1'', t_Status := StatusRunning, t_Attempts := 1,
     t_MaxAttempts := 3, t_LeasedBy := ''manager.01020304.worker.0'', t_LeaseToken := ''lease-2'',
     t_LeasedUntil := 60000000005, t_CreatedAt := 1, t_UpdatedAt := 5\<rparr>"

lemma demo_run_task_eq: "demo_run_task demo_mem ms_New = demo_running"
  by code_simp

lemma demo_stored: "ms_Task (snd (snd (demo_round demo_mem ms_New))) ''task-1'' = Some demo_running"
  by code_simp

lemma demo_running_sel:
  "t_Type demo_running = ''a''" "t_MaxAttempts demo_running = 3" "t_ID demo_running = ''task-1''"
  by (simp_all add: demo_running_def demo_task_def)

lemma demo_mem_works: "demo_works demo_mem ms_New"
  unfolding demo_works_once by code_simp

lemmas demo_mem_reach = demo_reach [OF demo_mem_works, of "\<lambda>_ _. False"]

section \<open>Safety of the fleet\<close>

lemma purge_none: "purge_ok R (\<lambda>_ _. False)"
  by (simp add: purge_ok_def)

lemmas mem_contract = mem.store_contract_axioms



text \<open>
  C5: the attempts limit bounds the runs. In every such fleet the handler of a task that no
  operator requeued runs at most \<open>MaxAttempts\<close> times; with a limit of 1 that is at most once.
\<close>

theorem fleet_runs_within_limit:
  assumes "store_contract st R" "R s0 cinit" "purge_ok R purge" "fleet_reach st purge s0 F"
    and "t \<in> set (fl_runs F)" "\<not> fl_requeued F (t_ID t)"
  shows "int (length (filter (\<lambda>u. t_ID u = t_ID t) (fl_runs F))) \<le> t_MaxAttempts t"
  by (rule store_contract.fleet_runs_limit [OF assms(1) reach_inv [OF assms(1-4)] assms(5,6)])

lemma fleet_runs_within_limit_witness:
  "int (length (filter (\<lambda>u. t_ID u = t_ID (demo_run_task demo_mem ms_New)) (fl_runs (demo_fleet demo_mem ms_New)))) \<le> 3"
proof -
  have "demo_run_task demo_mem ms_New \<in> set (fl_runs (demo_fleet demo_mem ms_New))" "\<not> fl_requeued (demo_fleet demo_mem ms_New) (t_ID (demo_run_task demo_mem ms_New))"
    by (simp_all add: demo_fleet_def)
  note fleet_runs_within_limit [OF mem_contract sim_init purge_none demo_mem_reach this]
  moreover have "t_MaxAttempts (demo_run_task demo_mem ms_New) = 3" by (simp add: demo_run_task_eq demo_running_sel)
  ultimately show ?thesis by simp
qed

text \<open>
  Attempts stay within the limit in the store. In every memstore a fleet reaches, each task has
  between 0 and \<open>MaxAttempts\<close> attempts, and a pending one has at least one left.
\<close>

lemma fleet_attempts_bounded:
  assumes "fleet_reach (memstore_ops tstr) (\<lambda>_ _. False) ms_New F"
    and "map_of (ms_tasks (fl_store F)) i = Some t"
  shows "0 \<le> t_Attempts t \<and> t_Attempts t \<le> t_MaxAttempts t \<and>
    (t_Status t = StatusPending \<longrightarrow> t_Attempts t < t_MaxAttempts t)"
proof -
  have "fleet_inv sim F" by (rule reach_inv [OF mem_contract sim_init purge_none assms(1)])
  then obtain es c where c: "creach es c" "sim (fl_store F) c" by (auto simp: fleet_inv_def)
  have "c_tasks c i = Some (abs_task t)" using sim_lookup [OF c(2)] assms(2) by simp
  with creach_budget [OF c(1)] show ?thesis unfolding budget_inv_def by fastforce
qed

end
