(* ===== verification/Time_Heap.thy ===== *)
theory Time_Heap
  imports Go_Time "HOL-Library.Multiset"
begin

text \<open>
  The deadline heap of \<open>stores/mongostore/watch.go\<close>: the slice type \<open>timeHeap\<close> and the operations of
  the standard library's \<open>container/heap\<close> that \<open>timerLoop\<close> calls on it. The slice is a list; the
  sift loops index it below its length only.
\<close>

section \<open>The operations\<close>

definition heap_less :: "gtime list \<Rightarrow> nat \<Rightarrow> nat \<Rightarrow> bool" where
  "heap_less h i j \<longleftrightarrow> h ! i < h ! j"

definition heap_swap :: "nat \<Rightarrow> nat \<Rightarrow> gtime list \<Rightarrow> gtime list" where
  "heap_swap i j h = h[i := h ! j, j := h ! i]"

definition parent :: "nat \<Rightarrow> nat" where
  "parent j = (j - 1) div 2"

function heap_up :: "gtime list \<Rightarrow> nat \<Rightarrow> gtime list" where
  "heap_up h j = (let i = parent j
     in if i = j \<or> \<not> heap_less h j i then h else heap_up (heap_swap i j h) i)"
  by pat_completeness auto
termination
  by (relation "measure snd") (auto simp: parent_def)

function heap_down :: "gtime list \<Rightarrow> nat \<Rightarrow> nat \<Rightarrow> gtime list" where
  "heap_down h i n = (let j1 = 2 * i + 1
     in if n \<le> j1 then h
        else let j = (if j1 + 1 < n \<and> heap_less h (j1 + 1) j1 then j1 + 1 else j1)
             in if \<not> heap_less h j i then h else heap_down (heap_swap i j h) j n)"
  by pat_completeness auto
termination
  by (relation "measure (\<lambda>(h, i, n). n - i)") (auto simp: Let_def split: if_splits)

declare heap_up.simps [simp del] heap_down.simps [simp del]

text \<open>\<open>heap.Push\<close> appends and sifts up; \<open>heap.Pop\<close> swaps the root to the end, sifts down and cuts it off.\<close>

definition heap_push :: "gtime \<Rightarrow> gtime list \<Rightarrow> gtime list" where
  "heap_push x h = heap_up (h @ [x]) (length h)"

definition heap_pop :: "gtime list \<Rightarrow> gtime \<times> gtime list" where
  "heap_pop h = (let n = length h - 1; h' = heap_down (heap_swap 0 n h) 0 n
     in (last h', butlast h'))"

section \<open>The heap order\<close>

definition heap_ordered :: "nat \<Rightarrow> gtime list \<Rightarrow> bool" where
  "heap_ordered n h \<longleftrightarrow> (\<forall>k. 0 < k \<longrightarrow> k < n \<longrightarrow> h ! parent k \<le> h ! k)"

abbreviation is_heap :: "gtime list \<Rightarrow> bool" where
  "is_heap h \<equiv> heap_ordered (length h) h"

lemma parent_less [simp]: "0 < k \<Longrightarrow> parent k < k"
  by (simp add: parent_def)

lemma parent_zero [simp]: "parent 0 = 0"
  by (simp add: parent_def)

lemma parent_iff: "0 < k \<Longrightarrow> parent k = i \<longleftrightarrow> k = 2 * i + 1 \<or> k = 2 * i + 2"
  unfolding parent_def by presburger

lemma swap_nth:
  assumes "i < length h" "j < length h"
  shows "heap_swap i j h ! k = (if k = i then h ! j else if k = j then h ! i else h ! k)"
  using assms by (auto simp: heap_swap_def nth_list_update)

lemma length_swap [simp]: "length (heap_swap i j h) = length h"
  by (simp add: heap_swap_def)

lemma mset_heap_swap: "i < length h \<Longrightarrow> j < length h \<Longrightarrow> mset (heap_swap i j h) = mset h"
  unfolding heap_swap_def by (rule mset_swap)

text \<open>The order but for one place: above it while sifting up, below it while sifting down.\<close>

definition up_hole :: "nat \<Rightarrow> gtime list \<Rightarrow> bool" where
  "up_hole j h \<longleftrightarrow> (\<forall>k. 0 < k \<longrightarrow> k < length h \<longrightarrow>
     (k \<noteq> j \<longrightarrow> h ! parent k \<le> h ! k) \<and> (parent k = j \<longrightarrow> 0 < j \<longrightarrow> h ! parent j \<le> h ! k))"

definition down_hole :: "nat \<Rightarrow> nat \<Rightarrow> gtime list \<Rightarrow> bool" where
  "down_hole i n h \<longleftrightarrow> (\<forall>k. 0 < k \<longrightarrow> k < n \<longrightarrow>
     (parent k \<noteq> i \<longrightarrow> h ! parent k \<le> h ! k) \<and> (parent k = i \<longrightarrow> 0 < i \<longrightarrow> h ! parent i \<le> h ! k))"

lemma up_hole_step:
  assumes hole: "up_hole j h" and j: "0 < j" "j < length h" and less: "h ! j < h ! parent j"
  shows "up_hole (parent j) (heap_swap (parent j) j h)"
  unfolding up_hole_def
proof (intro allI impI)
  let ?i = "parent j" and ?h = "heap_swap (parent j) j h"
  fix k assume k: "0 < k" "k < length ?h"
  have i: "?i < j" "?i < length h" using j parent_less [OF j(1)] by simp_all
  note sw = swap_nth [OF i(2) j(2)]
  have old: "h ! parent k \<le> h ! k" if "k \<noteq> j" using hole k that by (simp add: up_hole_def)
  have kids: "h ! ?i \<le> h ! k" if "parent k = j" using hole k that j by (simp add: up_hole_def)
  have 1: "?h ! parent k \<le> ?h ! k" if "k \<noteq> ?i"
    using that old kids less i parent_less [OF k(1)] unfolding sw by (auto split: if_splits)
  have 2: "?h ! parent ?i \<le> ?h ! k" if "parent k = ?i" "0 < ?i"
  proof -
    have "parent ?i < ?i" using that(2) by simp
    then have "?h ! parent ?i = h ! parent ?i" using i unfolding sw by simp
    moreover have "h ! parent ?i \<le> h ! ?i" using hole i j that(2) unfolding up_hole_def by (metis less_irrefl)
    moreover have "?h ! k = (if k = j then h ! ?i else h ! k)" using that parent_less [OF k(1)] unfolding sw by auto
    ultimately show ?thesis using old that(1) by (cases "k = j") auto
  qed
  show "(k \<noteq> ?i \<longrightarrow> ?h ! parent k \<le> ?h ! k) \<and> (parent k = ?i \<longrightarrow> 0 < ?i \<longrightarrow> ?h ! parent ?i \<le> ?h ! k)"
    using 1 2 by blast
qed

lemma heap_up_spec:
  assumes "up_hole j h" "j < length h"
  shows "is_heap (heap_up h j) \<and> mset (heap_up h j) = mset h"
  using assms
proof (induction h j rule: heap_up.induct)
  case (1 h j)
  show ?case
  proof (cases "parent j = j \<or> \<not> heap_less h j (parent j)")
    case True
    then have "j = 0 \<or> h ! parent j \<le> h ! j" using parent_less [of j] by (auto simp: heap_less_def)
    then have "is_heap h" using 1(2) unfolding heap_ordered_def up_hole_def by (metis neq0_conv)
    moreover have "heap_up h j = h" using True by (subst heap_up.simps) (auto simp: Let_def)
    ultimately show ?thesis by simp
  next
    case False
    then have less: "0 < j" "h ! j < h ! parent j" by (auto simp: heap_less_def intro: gr0I)
    then have i: "parent j < length h" using 1(3) parent_less [OF less(1)] by simp
    have up: "heap_up h j = heap_up (heap_swap (parent j) j h) (parent j)"
      using False by (subst heap_up.simps) (simp add: Let_def)
    have "is_heap (heap_up (heap_swap (parent j) j h) (parent j)) \<and>
        mset (heap_up (heap_swap (parent j) j h) (parent j)) = mset (heap_swap (parent j) j h)"
      by (rule 1(1) [OF refl False up_hole_step [OF 1(2) less(1) 1(3) less(2)]]) (simp add: i)
    then show ?thesis using mset_heap_swap [OF i 1(3)] unfolding up by simp
  qed
qed

lemma down_hole_step:
  assumes hole: "down_hole i n h" and n: "n \<le> length h" "i < n" "j < n" and j: "0 < j" "parent j = i"
    and least: "\<forall>k. 0 < k \<longrightarrow> k < n \<longrightarrow> parent k = i \<longrightarrow> h ! j \<le> h ! k" and less: "h ! j < h ! i"
  shows "down_hole j n (heap_swap i j h)"
  unfolding down_hole_def
proof (intro allI impI)
  let ?h = "heap_swap i j h"
  fix k assume k: "0 < k" "k < n"
  have ij: "i < j" using parent_less [OF j(1)] j(2) by simp
  have "i < length h" "j < length h" using n by simp_all
  note sw = swap_nth [OF this]
  have old: "h ! parent k \<le> h ! k" if "parent k \<noteq> i" using hole k that by (simp add: down_hole_def)
  have above: "h ! parent i \<le> h ! j" if "0 < i" using hole n j that by (simp add: down_hole_def)
  have 1: "?h ! parent k \<le> ?h ! k" if "parent k \<noteq> j"
  proof -
    consider "k = j" | "k = i" | "parent k = i" "k \<noteq> j" "k \<noteq> i" | "parent k \<noteq> i" "k \<noteq> j" "k \<noteq> i" by blast
    then show ?thesis
    proof cases
      case 1 then show ?thesis using j less ij unfolding sw by simp
    next
      case 2 then show ?thesis using above k parent_less [OF k(1)] ij unfolding sw by simp
    next
      case 3 then show ?thesis using least k unfolding sw by simp
    next
      case 4 then show ?thesis using old that unfolding sw by simp
    qed
  qed
  have 2: "?h ! parent j \<le> ?h ! k" if "parent k = j"
    using old that j ij parent_less [OF k(1)] unfolding sw by auto
  show "(parent k \<noteq> j \<longrightarrow> ?h ! parent k \<le> ?h ! k) \<and> (parent k = j \<longrightarrow> 0 < j \<longrightarrow> ?h ! parent j \<le> ?h ! k)"
    using 1 2 by blast
qed

lemma heap_down_spec:
  assumes "down_hole i n h" "n \<le> length h" "i < n \<or> n = 0"
  shows "heap_ordered n (heap_down h i n) \<and> mset (heap_down h i n) = mset h \<and>
    (\<forall>k \<ge> n. heap_down h i n ! k = h ! k)"
  using assms
proof (induction h i n rule: heap_down.induct)
  case (1 h i n)
  let ?j1 = "2 * i + 1"
  define j where "j = (if ?j1 + 1 < n \<and> heap_less h (?j1 + 1) ?j1 then ?j1 + 1 else ?j1)"
  note unfold = heap_down.simps [of h i n, unfolded Let_def, folded j_def]
  have stop: ?case if "\<forall>k. 0 < k \<longrightarrow> k < n \<longrightarrow> parent k = i \<longrightarrow> h ! i \<le> h ! k" "heap_down h i n = h"
    using 1(2) that unfolding heap_ordered_def down_hole_def by (metis (no_types, lifting))
  show ?case
  proof (cases "n \<le> ?j1")
    case True
    then have "heap_down h i n = h" unfolding unfold by simp
    with True show ?thesis by (intro stop) (auto simp: parent_iff)
  next
    case False
    have j: "0 < j" "j < n" "parent j = i" using False by (auto simp: j_def parent_iff)
    have least: "\<forall>k. 0 < k \<longrightarrow> k < n \<longrightarrow> parent k = i \<longrightarrow> h ! j \<le> h ! k"
      by (auto simp: j_def parent_iff heap_less_def)
    show ?thesis
    proof (cases "heap_less h j i")
      case less: False
      then have "heap_down h i n = h" using False unfolding unfold by simp
      moreover have "h ! i \<le> h ! j" using less by (simp add: heap_less_def)
      ultimately show ?thesis using least by (intro stop) (auto intro: order_trans)
    next
      case True
      have i: "i < n" using j parent_less [OF j(1)] by simp
      have "down_hole j n (heap_swap i j h)"
        by (rule down_hole_step [OF 1(2,3) i j(2,1,3) least]) (use True in \<open>simp add: heap_less_def\<close>)
      then have "heap_ordered n (heap_down (heap_swap i j h) j n) \<and>
          mset (heap_down (heap_swap i j h) j n) = mset (heap_swap i j h) \<and>
          (\<forall>k \<ge> n. heap_down (heap_swap i j h) j n ! k = heap_swap i j h ! k)"
        using 1(1) [OF refl False j_def] True 1(3) j(2) by simp
      moreover have "i < length h" "j < length h" using i j 1(3) by simp_all
      ultimately show ?thesis using False True mset_heap_swap [of i h j] swap_nth [of i h j] i j
        unfolding unfold by auto
    qed
  qed
qed

section \<open>What the operations guarantee\<close>

lemma heap_push_spec:
  assumes "is_heap h"
  shows "is_heap (heap_push x h) \<and> mset (heap_push x h) = add_mset x (mset h)"
proof -
  have "up_hole (length h) (h @ [x])"
    unfolding up_hole_def
  proof (intro allI impI)
    fix k assume k: "0 < k" "k < length (h @ [x])"
    then have "parent k < length h" using parent_less [OF k(1)] by simp
    then show "(k \<noteq> length h \<longrightarrow> (h @ [x]) ! parent k \<le> (h @ [x]) ! k) \<and>
        (parent k = length h \<longrightarrow> 0 < length h \<longrightarrow> (h @ [x]) ! parent (length h) \<le> (h @ [x]) ! k)"
      using assms k by (auto simp: heap_ordered_def nth_append)
  qed
  from heap_up_spec [OF this] show ?thesis by (simp add: heap_push_def)
qed

lemma heap_root_least:
  assumes "is_heap h" "k < length h"
  shows "h ! 0 \<le> h ! k"
  using assms(2)
proof (induction k rule: less_induct)
  case (less k)
  show ?case
  proof (cases "k = 0")
    case False
    then have "h ! 0 \<le> h ! parent k" using less parent_less [of k] by simp
    also have "\<dots> \<le> h ! k" using assms(1) less.prems False by (simp add: heap_ordered_def)
    finally show ?thesis .
  qed simp
qed

lemma heap_root_Min: "is_heap h \<Longrightarrow> x \<in> set h \<Longrightarrow> hd h \<le> x"
  using heap_root_least by (metis hd_conv_nth in_set_conv_nth length_greater_0_conv length_pos_if_in_set)

lemma heap_pop_spec:
  assumes "is_heap h" "h \<noteq> []"
  shows "fst (heap_pop h) = hd h" "is_heap (snd (heap_pop h))" "mset h = add_mset (hd h) (mset (snd (heap_pop h)))"
    "length (snd (heap_pop h)) = length h - 1"
proof -
  let ?n = "length h - 1"
  let ?s = "heap_swap 0 ?n h"
  let ?h = "heap_down ?s 0 ?n"
  have n: "0 < length h" "?n < length h" using assms(2) by simp_all
  note sw = swap_nth [OF n]
  have "down_hole 0 ?n ?s"
    unfolding down_hole_def
  proof (intro allI impI conjI)
    fix k assume k: "0 < k" "k < ?n" and p: "parent k \<noteq> 0"
    moreover have "parent k < ?n" using parent_less [OF k(1)] k(2) by simp
    ultimately show "?s ! parent k \<le> ?s ! k" using assms(1) unfolding sw by (simp add: heap_ordered_def)
  qed simp
  moreover have "?n \<le> length ?s" "0 < ?n \<or> ?n = 0" by auto
  ultimately have d: "heap_ordered ?n ?h" "mset ?h = mset ?s" "\<forall>k \<ge> ?n. ?h ! k = ?s ! k"
    using heap_down_spec [of 0 ?n ?s] by blast+
  have len: "length ?h = length h" using mset_eq_length [OF d(2)] by simp
  then have ne: "?h \<noteq> []" using assms(2) by auto
  have last: "last ?h = hd h"
    using d(3) n unfolding last_conv_nth [OF ne] len hd_conv_nth [OF assms(2)] sw by simp
  have pop: "heap_pop h = (last ?h, butlast ?h)" by (simp add: heap_pop_def Let_def)
  show "fst (heap_pop h) = hd h" using pop last by simp
  show l: "length (snd (heap_pop h)) = length h - 1" using pop len by simp
  have "parent k < ?n" if "k < ?n" for k
    by (rule le_less_trans [OF _ that]) (simp add: parent_def)
  then show "is_heap (snd (heap_pop h))"
    using d(1) l unfolding pop heap_ordered_def by (simp add: nth_butlast len)
  have "mset h = mset (butlast ?h @ [last ?h])"
    unfolding append_butlast_last_id [OF ne] d(2) by (rule mset_heap_swap [OF n, symmetric])
  then show "mset h = add_mset (hd h) (mset (snd (heap_pop h)))" unfolding pop last by simp
qed

end
