(* ===== verification/Watch.thy ===== *)
theory Watch
  imports Mongo_Ops Time_Heap
begin

text \<open>
  The change-stream watcher: \<open>stores/mongostore/watch.go\<close>. The pipeline it sends and the event it
  decodes are data, as in the other theories of the store; the two goroutines (\<open>watchLoop\<close> and
  \<open>timerLoop\<close>) and the channel between them are a step relation with one step per turn of a loop.
\<close>

section \<open>The stream\<close>

definition insert_match :: "string list \<Rightarrow> string list \<Rightarrow> bfilter" where
  "insert_match types queues = FAnd (
     [FField ''operationType'' (CEq (BStr ''insert'')),
      FField ''fullDocument.status'' (CEq (BStr (status_str StatusPending)))] @
     (if types \<noteq> [] then [FField ''fullDocument.type'' (CIn (map BStr types))] else []) @
     (if queues \<noteq> [] then [FField ''fullDocument.queue'' (CIn (map BStr queues))] else []))"

definition update_match :: bfilter where
  "update_match = FAnd
     [FField ''operationType'' (CEq (BStr ''update'')),
      FOr [FField ''updateDescription.updatedFields.run_at'' CExists,
           FField ''updateDescription.updatedFields.status'' (CEq (BStr (status_str StatusPending)))]]"

definition stream_match :: "string list \<Rightarrow> string list \<Rightarrow> bfilter" where
  "stream_match types queues = FOr [insert_match types queues, update_match]"

text \<open>
  A filter reads an embedded document by dotted paths; \<open>dotted\<close> lists the fields of an event under
  theirs.
\<close>

fun paths :: "string \<Rightarrow> bval \<Rightarrow> bdoc" where
  "paths p (BDoc fs) = (p, BDoc fs) # concat (map (\<lambda>(k, v). paths (p @ ''.'' @ k) v) fs)"
| "paths p v = [(p, v)]"

definition dotted :: "bdoc \<Rightarrow> bdoc" where
  "dotted d = concat (map (\<lambda>(k, v). paths k v) d)"

text \<open>What the loop decodes of an event.\<close>

record stream_event =
  ev_OperationType :: string
  ev_FullRunAt :: gtime
  ev_UpdatedRunAt :: "gtime option"

definition sub_doc :: "string \<Rightarrow> bdoc \<Rightarrow> bdoc option" where
  "sub_doc k d = map_option (\<lambda>b. case b of None \<Rightarrow> [] | Some e \<Rightarrow> e) (get_raw k d)"

definition ev_decode :: "bdoc \<Rightarrow> stream_event option" where
  "ev_decode d = do {
     op \<leftarrow> get_str ''operationType'' d;
     full \<leftarrow> sub_doc ''fullDocument'' d; fr \<leftarrow> get_time ''run_at'' full;
     desc \<leftarrow> sub_doc ''updateDescription'' d; fs \<leftarrow> sub_doc ''updatedFields'' desc;
     ur \<leftarrow> get_field as_time_ptr ''run_at'' fs;
     Some \<lparr>ev_OperationType = op, ev_FullRunAt = fr, ev_UpdatedRunAt = ur\<rparr> }"

definition ev_runAt :: "stream_event \<Rightarrow> gtime" where
  "ev_runAt e = (if ev_OperationType e = ''insert'' then ev_FullRunAt e
     else case ev_UpdatedRunAt e of Some t \<Rightarrow> t | None \<Rightarrow> 0)"

section \<open>The state\<close>

text \<open>
  One watch: the clock, whether its context is done, the nudge channel \<open>ch\<close> (capacity 1), the
  channel \<open>future\<close> (capacity 64), the local state of \<open>timerLoop\<close> (its heap, and the time its timer
  is set to), and which of the two goroutines still run. A send on the closed \<open>ch\<close> panics.
\<close>

record watch =
  w_now :: gtime
  w_done :: bool
  w_nudge :: bool
  w_closed :: bool
  w_panic :: bool
  w_future :: "gtime list"
  w_heap :: "gtime list"
  w_timer :: gtime
  w_loop :: bool
  w_timers :: bool

definition nudge :: "watch \<Rightarrow> watch" where
  "nudge w = (if w_closed w then w\<lparr>w_panic := True\<rparr> else w\<lparr>w_nudge := True\<rparr>)"

definition idle_timer :: duration where "idle_timer = hours 24"
definition maxDeadlines :: nat where "maxDeadlines = 4096"

text \<open>\<open>WatchRunnable\<close>, once the stream is open; \<open>open_err\<close> is its error.\<close>

definition WatchRunnable :: "serr option \<Rightarrow> gtime \<Rightarrow> serr + watch" where
  "WatchRunnable open_err now = (case open_err of
     Some e \<Rightarrow> Inl e
   | None \<Rightarrow> Inr (nudge \<lparr>w_now = now, w_done = False, w_nudge = False, w_closed = False, w_panic = False,
       w_future = [], w_heap = [], w_timer = add_time now idle_timer, w_loop = True, w_timers = True\<rparr>))"

section \<open>The loops\<close>

text \<open>One event of \<open>watchLoop\<close>: decoded, it feeds the timer or nudges.\<close>

definition watch_event :: "bdoc \<Rightarrow> watch \<Rightarrow> watch" where
  "watch_event d w = (case ev_decode d of
     None \<Rightarrow> nudge w
   | Some ev \<Rightarrow>
       if ev_runAt ev > w_now w
       then if length (w_future w) < 64 then w\<lparr>w_future := w_future w @ [ev_runAt ev]\<rparr> else w
       else nudge w)"

text \<open>
  The stream broke. With the context done the loop returns and closes \<open>ch\<close>; otherwise it opens the
  stream again, from the token and then from now, and nudges once one attempt worked. \<open>tries\<close> are
  the rounds of that loop, each with the answers of its two attempts and whether the context ended
  in the wait after it.
\<close>

definition loop_return :: "watch \<Rightarrow> watch" where
  "loop_return w = w\<lparr>w_loop := False, w_closed := True\<rparr>"

fun watch_reopen :: "(bool \<times> bool \<times> bool) list \<Rightarrow> watch \<Rightarrow> watch option" where
  "watch_reopen [] w = None"
| "watch_reopen ((resumed, fresh, cancelled) # tries) w =
     (if resumed \<or> fresh then Some (nudge w)
      else if cancelled then Some (loop_return w)
      else watch_reopen tries w)"

definition watch_broken :: "(bool \<times> bool \<times> bool) list \<Rightarrow> watch \<Rightarrow> watch option" where
  "watch_broken tries w = (if w_done w then Some (loop_return w) else watch_reopen tries w)"

text \<open>The turns of \<open>timerLoop\<close>; \<open>t\<close> is the clock when it arms the timer.\<close>

definition rearm :: "gtime \<Rightarrow> watch \<Rightarrow> watch" where
  "rearm t w = w\<lparr>w_timer := (case w_heap w of
     [] \<Rightarrow> add_time t idle_timer
   | d # _ \<Rightarrow> max d (add_time t (millis 1)))\<rparr>"

definition timer_take :: "watch \<Rightarrow> watch" where
  "timer_take w = (case w_future w of
     [] \<Rightarrow> w
   | at # rest \<Rightarrow>
       (let w1 = w\<lparr>w_future := rest\<rparr>
        in if length (w_heap w1) \<ge> maxDeadlines then w1
           else rearm (w_now w) (w1\<lparr>w_heap := heap_push at (w_heap w1)\<rparr>)))"

lemma length_heap_down: "length (heap_down h i n) = length h"
  by (induction h i n rule: heap_down.induct) (subst heap_down.simps, simp add: Let_def)

text \<open>The inner loop pops what is due.\<close>

function pop_due :: "gtime \<Rightarrow> gtime list \<Rightarrow> bool \<Rightarrow> gtime list \<times> bool" where
  "pop_due now h fired =
     (if h \<noteq> [] \<and> hd h \<le> now then pop_due now (snd (heap_pop h)) True else (h, fired))"
  by pat_completeness auto

termination
  by (relation "measure (\<lambda>(now, h, fired). length h)") (auto simp: heap_pop_def Let_def length_heap_down)

declare pop_due.simps [simp del]

definition timer_fire :: "gtime \<Rightarrow> watch \<Rightarrow> watch" where
  "timer_fire t w = (case pop_due (w_now w) (w_heap w) False of
     (h, fired) \<Rightarrow> let w1 = w\<lparr>w_heap := h\<rparr> in rearm t (if fired then nudge w1 else w1))"

text \<open>
  The turns interleave freely. When the context is done and the timer is due as well, \<open>select\<close>
  may choose either.
\<close>

inductive watch_step :: "watch \<Rightarrow> watch \<Rightarrow> bool" where
  tick: "w_now w \<le> t \<Longrightarrow> watch_step w (w\<lparr>w_now := t\<rparr>)"
| cancel: "watch_step w (w\<lparr>w_done := True\<rparr>)"
| recv: "w_nudge w \<Longrightarrow> watch_step w (w\<lparr>w_nudge := False\<rparr>)"
| event: "w_loop w \<Longrightarrow> watch_step w (watch_event d w)"
| broken: "w_loop w \<Longrightarrow> watch_broken tries w = Some w' \<Longrightarrow> (\<exists>x \<in> set tries. snd (snd x)) \<longrightarrow> w_done w \<Longrightarrow>
    watch_step w w'"
| timer_exit: "w_timers w \<Longrightarrow> w_done w \<Longrightarrow> watch_step w (w\<lparr>w_timers := False\<rparr>)"
| take: "w_timers w \<Longrightarrow> w_future w \<noteq> [] \<Longrightarrow> watch_step w (timer_take w)"
| fire: "w_timers w \<Longrightarrow> w_timer w \<le> w_now w \<Longrightarrow> w_now w \<le> t \<Longrightarrow>
    watch_step w ((timer_fire t w)\<lparr>w_now := t\<rparr>)"

inductive_cases watch_stepE: "watch_step w w'"

inductive watch_reach :: "watch \<Rightarrow> bool" where
  watch_init: "WatchRunnable None now = Inr w \<Longrightarrow> watch_reach w"
| watch_next: "watch_reach w \<Longrightarrow> watch_step w w' \<Longrightarrow> watch_reach w'"

end
