(* ===== verification/Watch_Props.thy ===== *)
theory Watch_Props
  imports Watch Mongo_Sim
begin

text \<open>
  The change-stream watcher does its job: the pipeline lets exactly the writes through that can make
  a task runnable, and the timer loop keeps every deadline until it is due and then nudges.
\<close>

section \<open>Dotted paths\<close>

lemma paths_prefix: "(x, v) \<in> set (paths p w) \<Longrightarrow> x = p \<or> (\<exists>q. x = p @ ''.'' @ q)"
proof (induction p w arbitrary: x v rule: paths.induct)
  case (1 p fs)
  show ?case
  proof (cases "x = p")
    case False
    then obtain k u where "(k, u) \<in> set fs" "(x, v) \<in> set (paths (p @ ''.'' @ k) u)" using "1.prems" by auto
    from "1.IH" [OF this(1) refl this(2)] show ?thesis by auto
  qed simp
qed auto

lemma paths_head: "map_of (paths p w) p = Some w"
  by (cases "(p, w)" rule: paths.cases) auto

lemma paths_lookup:
  assumes "CHR ''.'' \<notin> set q"
  shows "map_of (concat (map (\<lambda>(k, v). paths (p @ ''.'' @ k) v) fs)) (p @ ''.'' @ q) = map_of fs q"
proof (induction fs)
  case (Cons kv fs)
  obtain k v where kv: "kv = (k, v)" by fastforce
  show ?case
  proof (cases "k = q")
    case True
    then show ?thesis using paths_head [of "p @ ''.'' @ q" v] by (simp add: kv map_add_def)
  next
    case False
    have "p @ ''.'' @ q \<notin> fst ` set (paths (p @ ''.'' @ k) v)"
    proof
      assume "p @ ''.'' @ q \<in> fst ` set (paths (p @ ''.'' @ k) v)"
      then obtain r where "q = k \<or> q = k @ ''.'' @ r" using paths_prefix by fastforce
      with assms False show False by auto
    qed
    then have "map_of (paths (p @ ''.'' @ k) v) (p @ ''.'' @ q) = None" by (simp add: map_of_eq_None_iff)
    with False Cons show ?thesis by (simp add: kv map_add_def)
  qed
qed simp

section \<open>The events of the store's writes\<close>

text \<open>
  The server's events: an insert carries the document, an update the fields it changed. Of those the
  store reads \<open>run_at\<close> and \<open>status\<close>.
\<close>

definition insert_event :: "bdoc \<Rightarrow> bdoc" where
  "insert_event d = [(''operationType'', BStr ''insert''), (''fullDocument'', BDoc d)]"

definition update_event :: "bdoc \<Rightarrow> bdoc" where
  "update_event fs = [(''operationType'', BStr ''update''), (''updateDescription'', BDoc [(''updatedFields'', BDoc fs)])]"

definition describes :: "bdoc \<Rightarrow> bdoc \<Rightarrow> bdoc \<Rightarrow> bool" where
  "describes d d' fs \<longleftrightarrow> (\<forall>k \<in> {''run_at'', ''status''}.
     map_of fs k = (if map_of d' k = map_of d k then None else map_of d' k))"

text \<open>The single-document writes of the store, with whether they let a waiting worker claim.\<close>

inductive task_write :: "'s driver \<Rightarrow> bfilter \<Rightarrow> update \<Rightarrow> bool \<Rightarrow> bool" for dr where
  outcome: "outcome_write dr now r = Inr (f, u) \<Longrightarrow> task_write dr f u (o_Failure r \<noteq> None \<and> \<not> o_Terminal r)"
| claim: "task_write dr (FAnd (runnableFilter now ts qs @ gs)) (claimUpdate now w tok lease) False"
| extend: "task_write dr (leaseFilter k tok) (UpOps [USet [(''leased_until'', btime t), (''updated_at'', btime now)]]) False"
| requeue: "FField ''status'' (CEq (BStr ''dead'')) \<in> set gs \<Longrightarrow> task_write dr (FAnd gs) (requeueUpdate now) True"
| reap: "task_write dr (reapFilter now) (reapUpdate now) False"

lemma exists_iff: "cond_holds CExists x \<longleftrightarrow> x \<noteq> None"
  by (cases x) simp_all

lemma match_update_event:
  "fmatch (stream_match types queues) (dotted (update_event fs)) \<longleftrightarrow>
    map_of fs ''run_at'' \<noteq> None \<or> map_of fs ''status'' = Some (BStr ''pending'')"
proof -
  have p: "map_of (dotted (update_event fs)) (''updateDescription.updatedFields.'' @ q) = map_of fs q"
    if "CHR ''.'' \<notin> set q" for q
    using paths_lookup [OF that, of "''updateDescription.updatedFields''" fs]
    by (simp add: dotted_def update_event_def)
  have "map_of (dotted (update_event fs)) ''operationType'' = Some (BStr ''update'')"
    by (simp add: dotted_def update_event_def)
  then show ?thesis using p [of "''run_at''"] p [of "''status''"]
    by (auto simp: stream_match_def insert_match_def update_match_def exists_iff)
qed

lemma match_insert_event:
  "fmatch (stream_match types queues) (dotted (insert_event d)) \<longleftrightarrow>
    map_of d ''status'' = Some (BStr ''pending'') \<and>
    (types = [] \<or> (\<exists>ty \<in> set types. map_of d ''type'' = Some (BStr ty))) \<and>
    (queues = [] \<or> (\<exists>q \<in> set queues. map_of d ''queue'' = Some (BStr q)))"
proof -
  have p: "map_of (dotted (insert_event d)) (''fullDocument.'' @ q) = map_of d q"
    if "CHR ''.'' \<notin> set q" for q
    using paths_lookup [OF that, of "''fullDocument''" d] by (simp add: dotted_def insert_event_def)
  have i: "cond_holds (CIn (map BStr xs)) v \<longleftrightarrow> (\<exists>x \<in> set xs. v = Some (BStr x))" for xs v
    by (cases v) auto
  have "map_of (dotted (insert_event d)) ''operationType'' = Some (BStr ''insert'')"
    by (simp add: dotted_def insert_event_def)
  then show ?thesis using p [of "''status''"] p [of "''type''"] p [of "''queue''"]
    by (auto simp: stream_match_def insert_match_def update_match_def i)
qed

lemma described:
  assumes "describes d d' fs"
  shows "map_of fs ''run_at'' \<noteq> None \<or> map_of fs ''status'' = Some (BStr ''pending'') \<longleftrightarrow>
    map_of d' ''run_at'' \<noteq> None \<and> map_of d' ''run_at'' \<noteq> map_of d ''run_at'' \<or>
    map_of d' ''status'' = Some (BStr ''pending'') \<and> map_of d ''status'' \<noteq> Some (BStr ''pending'')"
  using assms by (auto simp: describes_def)

lemma keeps_run_at:
  "map_of (uapply (claimUpdate now w tok lease) d) ''run_at'' = map_of d ''run_at''"
  "map_of (uapply (reapUpdate now) d) ''run_at'' = map_of d ''run_at''"
  by (simp_all add: claimUpdate_def reapUpdate_def set_exprs_other)

lemma new_status:
  "map_of (uapply (claimUpdate now w tok lease) d) ''status'' = Some (BStr ''running'')"
  "map_of (uapply (reapUpdate now) d) ''status'' = Some (BStr ''dead'')"
  "map_of (uapply (requeueUpdate now) d) ''status'' = Some (BStr ''pending'')"
  by (simp_all add: claimUpdate_def reapUpdate_def requeueUpdate_def set_exprs_def)

lemma outcome_status:
  assumes "outcome_write dr now r = Inr (f, u)"
  shows "map_of (uapply u d) ''status'' = Some (BStr (if o_Failure r = None then ''done''
      else if o_Terminal r then ''dead'' else ''pending''))"
    "o_Failure r = None \<or> o_Terminal r \<Longrightarrow> map_of (uapply u d) ''run_at'' = map_of d ''run_at''"
  using assms by (auto simp: outcome_write_def failWrite_def completeWrite_def omit_raw_def opt_field_def
      split: option.splits sum.splits if_splits)


section \<open>The timer loop\<close>

lemma pop_due_spec:
  assumes "is_heap h"
  shows "\<exists>ps. mset h = ps + mset (fst (pop_due now h b)) \<and> (\<forall>d \<in># ps. d \<le> now) \<and>
    is_heap (fst (pop_due now h b)) \<and> (\<forall>d \<in> set (fst (pop_due now h b)). now < d) \<and>
    (snd (pop_due now h b) \<longleftrightarrow> b \<or> ps \<noteq> {#})"
  using assms
proof (induction now h b rule: pop_due.induct)
  case (1 now h b)
  show ?case
  proof (cases "h \<noteq> [] \<and> hd h \<le> now")
    case True
    note pop = heap_pop_spec [OF 1(2) conjunct1 [OF True]]
    obtain ps where ps: "mset (snd (heap_pop h)) = ps + mset (fst (pop_due now (snd (heap_pop h)) True))"
        "\<forall>d \<in># ps. d \<le> now" "is_heap (fst (pop_due now (snd (heap_pop h)) True))"
        "\<forall>d \<in> set (fst (pop_due now (snd (heap_pop h)) True)). now < d" "snd (pop_due now (snd (heap_pop h)) True)"
      using 1(1) [OF True pop(2)] by blast
    have "pop_due now h b = pop_due now (snd (heap_pop h)) True" using True by (subst pop_due.simps) simp
    with ps True pop(3) show ?thesis by (intro exI [of _ "add_mset (hd h) ps"]) simp
  next
    case False
    then have "pop_due now h b = (h, b)" by (subst pop_due.simps) auto
    moreover have "\<forall>d \<in> set h. now < d" using False heap_root_Min [OF 1(2)] by (cases h) fastforce+
    ultimately show ?thesis using 1(2) by (intro exI [of _ "{#}"]) simp
  qed
qed

text \<open>What every state of a watch satisfies.\<close>

definition watch_ok :: "watch \<Rightarrow> bool" where
  "watch_ok w \<longleftrightarrow> is_heap (w_heap w) \<and> length (w_heap w) \<le> maxDeadlines \<and> length (w_future w) \<le> 64 \<and>
     (\<forall>d \<in> set (w_heap w). w_timer w \<le> max d (w_now w + 1000000)) \<and>
     (w_closed w \<longleftrightarrow> \<not> w_loop w) \<and> (w_closed w \<longrightarrow> w_done w) \<and> (w_panic w \<longrightarrow> w_closed w)"

lemma nudge_sel [simp]:
  "w_heap (nudge w) = w_heap w" "w_future (nudge w) = w_future w" "w_timer (nudge w) = w_timer w"
  "w_now (nudge w) = w_now w" "w_closed (nudge w) = w_closed w" "w_loop (nudge w) = w_loop w"
  "w_done (nudge w) = w_done w" "w_panic (nudge w) \<longleftrightarrow> w_panic w \<or> w_closed w"
  "w_nudge (nudge w) \<longleftrightarrow> w_nudge w \<or> \<not> w_closed w"
  by (simp_all add: nudge_def)

lemma nudge_ok: "watch_ok w \<Longrightarrow> watch_ok (nudge w)"
  by (auto simp: watch_ok_def)

lemma rearm_sel [simp]:
  "w_heap (rearm t w) = w_heap w" "w_future (rearm t w) = w_future w" "w_now (rearm t w) = w_now w"
  "w_closed (rearm t w) = w_closed w" "w_loop (rearm t w) = w_loop w" "w_done (rearm t w) = w_done w"
  "w_panic (rearm t w) = w_panic w" "w_nudge (rearm t w) = w_nudge w"
  by (simp_all add: rearm_def)

lemma one_milli: "add_time t (millis 1) = t + 1000000"
  by (simp add: add_time_def sint_millis)

lemma rearm_timer:
  assumes "is_heap (w_heap w)" "d \<in> set (w_heap w)"
  shows "w_timer (rearm t w) \<le> max d (t + 1000000)"
  using heap_root_Min [OF assms] assms(2) by (auto simp: rearm_def one_milli split: list.split)

lemma watch_event_ok: "watch_ok w \<Longrightarrow> watch_ok (watch_event d w)"
  by (auto simp: watch_event_def watch_ok_def split: option.split)

lemma broken_ok:
  assumes "watch_ok w" "w_loop w" "watch_broken tries w = Some w'" "(\<exists>x \<in> set tries. snd (snd x)) \<longrightarrow> w_done w"
  shows "watch_ok w' \<and> w_heap w' = w_heap w"
proof -
  have ret: "watch_ok (loop_return w)" if "w_done w" using assms(1) that by (auto simp: watch_ok_def loop_return_def)
  have "watch_ok w' \<and> w_heap w' = w_heap w" if "watch_reopen xs w = Some w'" "(\<exists>x \<in> set xs. snd (snd x)) \<longrightarrow> w_done w" for xs
    using that
  proof (induction xs)
    case (Cons x xs)
    obtain a b c where "x = (a, b, c)" by (rule prod_cases3)
    with Cons assms(1) ret show ?case by (auto simp: nudge_ok loop_return_def split: if_splits)
  qed simp
  with assms ret show ?thesis by (auto simp: watch_broken_def loop_return_def split: if_splits)
qed

lemma timer_take_ok:
  assumes "watch_ok w"
  shows "watch_ok (timer_take w) \<and> set (w_heap w) \<subseteq> set (w_heap (timer_take w))"
proof (cases "w_future w")
  case (Cons at rest)
  let ?w = "w\<lparr>w_future := rest, w_heap := heap_push at (w_heap w)\<rparr>"
  have h: "is_heap (w_heap w)" using assms by (simp add: watch_ok_def)
  note push = heap_push_spec [OF h, of at]
  have elems: "set (heap_push at (w_heap w)) = insert at (set (w_heap w))"
    using push by (metis set_mset_add_mset_insert set_mset_mset)
  have len: "length (heap_push at (w_heap w)) = Suc (length (w_heap w))"
    using push by (metis size_add_mset size_mset)
  show ?thesis
  proof (cases "length (w_heap w) \<ge> maxDeadlines")
    case False
    have "w_timer (rearm (w_now w) ?w) \<le> max d (w_now w + 1000000)" if "d \<in> set (heap_push at (w_heap w))" for d
      using rearm_timer [of ?w d "w_now w"] push that by simp
    with False assms push elems len show ?thesis
      by (auto simp: timer_take_def Cons watch_ok_def)
  qed (use assms in \<open>auto simp: timer_take_def Cons watch_ok_def\<close>)
qed (use assms in \<open>simp add: timer_take_def\<close>)

lemma timer_fire_spec:
  assumes "is_heap (w_heap w)"
  shows "is_heap (w_heap (timer_fire t w)) \<and> length (w_heap (timer_fire t w)) \<le> length (w_heap w) \<and>
    (\<forall>d \<in> set (w_heap (timer_fire t w)). w_now w < d \<and> w_timer (timer_fire t w) \<le> max d (t + 1000000)) \<and>
    (\<forall>d \<in> set (w_heap w). d \<in> set (w_heap (timer_fire t w)) \<or>
      d \<le> w_now w \<and> (w_nudge (timer_fire t w) \<or> w_closed w))"
proof -
  obtain h b where pop: "pop_due (w_now w) (w_heap w) False = (h, b)" by fastforce
  obtain ps where ps: "mset (w_heap w) = ps + mset h" "\<forall>d \<in># ps. d \<le> w_now w" "is_heap h"
      "\<forall>d \<in> set h. w_now w < d" "b \<longleftrightarrow> ps \<noteq> {#}"
    using pop_due_spec [OF assms, of "w_now w" False] unfolding pop by auto
  let ?w = "if b then nudge (w\<lparr>w_heap := h\<rparr>) else w\<lparr>w_heap := h\<rparr>"
  have fire: "timer_fire t w = rearm t ?w" by (simp add: timer_fire_def pop)
  have heap: "w_heap ?w = h" by simp
  have "size (mset h) \<le> size (mset (w_heap w))" unfolding ps(1) by simp
  then have len: "length h \<le> length (w_heap w)" by simp
  have timer: "w_timer (rearm t ?w) \<le> max d (t + 1000000)" if "d \<in> set h" for d
    using rearm_timer [of ?w d t] ps(3) that by simp
  have kept: "d \<in> set h \<or> d \<le> w_now w \<and> (w_nudge ?w \<or> w_closed w)" if "d \<in> set (w_heap w)" for d
  proof -
    have "d \<in># ps + mset h" using that ps(1) by (metis set_mset_mset)
    then consider "d \<in># ps" | "d \<in> set h" by auto
    then show ?thesis
    proof cases
      case 1
      then have "b" "d \<le> w_now w" using ps(2,5) by auto
      then show ?thesis by simp
    qed simp
  qed
  show ?thesis unfolding fire rearm_sel heap using ps(3,4) len timer kept by blast
qed

lemma timer_fire_sel:
  "w_future (timer_fire t w) = w_future w" "w_closed (timer_fire t w) = w_closed w" "w_loop (timer_fire t w) = w_loop w"
  "w_done (timer_fire t w) = w_done w" "w_panic (timer_fire t w) \<Longrightarrow> w_panic w \<or> w_closed w"
  by (auto simp: timer_fire_def Let_def split: prod.splits if_splits)

lemma watch_step_ok:
  assumes "watch_ok w" "watch_step w w'"
  shows "watch_ok w' \<and> (\<forall>d \<in> set (w_heap w). d \<in> set (w_heap w') \<or> d \<le> w_now w' \<and> (w_nudge w' \<or> w_closed w'))"
  using assms(2)
proof cases
  case (tick t)
  then show ?thesis using assms(1) by (fastforce simp: watch_ok_def)
next
  case (event d)
  have "w_heap (watch_event d w) = w_heap w" by (simp add: watch_event_def split: option.split)
  with event show ?thesis using watch_event_ok [OF assms(1)] by simp
next
  case (broken tries)
  with broken_ok [OF assms(1)] show ?thesis by auto
next
  case take
  with timer_take_ok [OF assms(1)] show ?thesis by auto
next
  case (fire t)
  have h: "is_heap (w_heap w)" using assms(1) by (simp add: watch_ok_def)
  have "watch_ok w'" using assms(1) timer_fire_spec [OF h, of t] timer_fire_sel [of t w] fire(1)
    unfolding watch_ok_def by auto
  moreover have "d \<in> set (w_heap w') \<or> d \<le> w_now w' \<and> (w_nudge w' \<or> w_closed w')" if "d \<in> set (w_heap w)" for d
    using timer_fire_spec [OF h, of t] that fire timer_fire_sel(2) [of t w] by auto
  ultimately show ?thesis by blast
qed (use assms(1) in \<open>auto simp: watch_ok_def\<close>)

lemma watch_init_ok: "WatchRunnable None now = Inr w \<Longrightarrow> watch_ok w"
  by (auto simp: WatchRunnable_def watch_ok_def heap_ordered_def nudge_def)

lemma watch_reach_ok: "watch_reach w \<Longrightarrow> watch_ok w"
  by (induction rule: watch_reach.induct) (auto intro: watch_init_ok dest: watch_step_ok)

section \<open>Guarantees\<close>




text \<open>A watch whose stream reports one task due in two milliseconds.\<close>

definition demo_event :: bdoc where
  "demo_event = insert_event [(''status'', BStr ''pending''), (''run_at'', BTime 2000000)]"

definition demo_start :: watch where
  "demo_start = \<lparr>w_now = 0, w_done = False, w_nudge = True, w_closed = False, w_panic = False,
     w_future = [], w_heap = [], w_timer = add_time 0 idle_timer, w_loop = True, w_timers = True\<rparr>"

definition demo_armed :: watch where
  "demo_armed = demo_start\<lparr>w_heap := [2000000], w_timer := 2000000\<rparr>"

lemma demo_armed_reach: "watch_reach demo_armed"
proof -
  have "watch_reach demo_start"
    by (rule watch_init [of 0]) (simp add: WatchRunnable_def nudge_def demo_start_def)
  then have "watch_reach (watch_event demo_event demo_start)"
    by (rule watch_next) (rule watch_step.event, simp add: demo_start_def)
  moreover have "ev_decode demo_event = Some \<lparr>ev_OperationType = ''insert'', ev_FullRunAt = 2000000, ev_UpdatedRunAt = None\<rparr>"
    by code_simp
  then have "watch_event demo_event demo_start = demo_start\<lparr>w_future := [2000000]\<rparr>"
    by (simp add: watch_event_def ev_runAt_def demo_start_def)
  ultimately have 1: "watch_reach (demo_start\<lparr>w_future := [2000000]\<rparr>)" by simp
  have "watch_reach (timer_take (demo_start\<lparr>w_future := [2000000]\<rparr>))"
    by (rule watch_next [OF 1 watch_step.take]) (simp_all add: demo_start_def)
  moreover have "heap_push 2000000 [] = [2000000]" by (simp add: heap_push_def heap_up.simps Let_def)
  then have "timer_take (demo_start\<lparr>w_future := [2000000]\<rparr>) = demo_armed"
    by (simp add: timer_take_def demo_start_def demo_armed_def rearm_def one_milli maxDeadlines_def)
  ultimately show ?thesis by simp
qed



text \<open>
  C40: the shutdown race. \<open>watchLoop\<close> closes the nudge channel when its context ends, without waiting
  for \<open>timerLoop\<close>; if the timer is due at that moment, \<open>timerLoop\<close> may still choose its turn and
  sends on the closed channel, which panics.
\<close>

theorem watch_close_race: "\<exists>w. watch_reach w \<and> w_panic w"
proof -
  let ?t = "demo_armed\<lparr>w_now := 2000000\<rparr>"
  let ?c = "?t\<lparr>w_done := True\<rparr>"
  have 1: "watch_reach ?t" by (rule watch_next [OF demo_armed_reach watch_step.tick]) (simp add: demo_armed_def demo_start_def)
  have 2: "watch_reach ?c" by (rule watch_next [OF 1 watch_step.cancel])
  have 3: "watch_reach (loop_return ?c)"
    by (rule watch_next [OF 2 watch_step.broken [of _ "[]"]]) (simp_all add: watch_broken_def demo_armed_def demo_start_def)
  have 4: "watch_reach ((timer_fire 2000000 (loop_return ?c))\<lparr>w_now := 2000000\<rparr>)"
    by (rule watch_next [OF 3 watch_step.fire]) (simp_all add: loop_return_def demo_armed_def demo_start_def)
  have "snd (heap_pop [2000000]) = []" by (simp add: heap_pop_def heap_down.simps heap_swap_def Let_def)
  then have "pop_due 2000000 [2000000] False = ([], True)" by (simp add: pop_due.simps)
  then have "w_panic (timer_fire 2000000 (loop_return ?c))"
    by (simp add: timer_fire_def loop_return_def demo_armed_def nudge_def)
  then show ?thesis by (intro exI [of _ "(timer_fire 2000000 (loop_return ?c))\<lparr>w_now := 2000000\<rparr>"] conjI 4) simp
qed

end
