(* ===== verification/Mongo_Fleet.thy ===== *)
theory Mongo_Fleet
  imports Mongo_Runs Fleet_Claims
begin

text \<open>
  A fleet of managers over the MongoDB store: the fleet's safety holds with several processes sharing one
  collection, and while the server's TTL index removes expired documents.
\<close>

section \<open>Fleets\<close>

text \<open>
  The server's TTL index on \<open>expires_at\<close> removes documents that carry an expiry, at any time, and
  nothing else.
\<close>

definition ttl_purge :: "'s mview \<Rightarrow> 's \<Rightarrow> 's \<Rightarrow> bool" where
  "ttl_purge mv s s' \<longleftrightarrow> mv_ok mv s' \<and> mv_ids mv s \<subseteq> mv_ids mv s' \<and> mv_tokens mv s' = mv_tokens mv s \<and>
     (\<forall>i. mv_db mv s' TasksCol i = mv_db mv s TasksCol i \<or> mv_db mv s' TasksCol i = None \<and>
       (\<exists>d. mv_db mv s TasksCol i = Some d \<and> map_of d ''expires_at'' \<noteq> None))"

lemma purged_exec:
  "distinct js \<Longrightarrow> \<forall>j \<in> set js. c_tasks c j \<noteq> None \<Longrightarrow>
    cexec c (map Purged js) (c\<lparr>c_tasks := (\<lambda>j. if j \<in> set js then None else c_tasks c j)\<rparr>)"
proof (induction js arbitrary: c)
  case (Cons j js)
  let ?c = "c\<lparr>c_tasks := (c_tasks c)(j := None)\<rparr>"
  obtain a where "c_tasks c j = Some a" using Cons.prems(2) by auto
  then have step: "cstep c (Purged j) ?c" by (rule cstep.purged)
  have "cexec ?c (map Purged js) (?c\<lparr>c_tasks := (\<lambda>i. if i \<in> set js then None else c_tasks ?c i)\<rparr>)"
    using Cons.prems by (intro Cons.IH) auto
  moreover have "?c\<lparr>c_tasks := (\<lambda>i. if i \<in> set js then None else c_tasks ?c i)\<rparr> =
      c\<lparr>c_tasks := (\<lambda>i. if i \<in> set (j # js) then None else c_tasks c i)\<rparr>"
    by (simp add: fun_eq_iff)
  ultimately show ?case using cexec_cons [OF step] by simp
qed (simp add: cexec_nil)

lemma ttl_purge_ok:
  assumes "mongo dr mv"
  shows "purge_ok (msim dr mv) (ttl_purge mv)"
  unfolding purge_ok_def
proof (intro allI impI)
  fix s c s'
  assume sim: "msim dr mv s c" and purge: "ttl_purge mv s s'"
  let ?m = "mv_db mv s TasksCol" and ?m' = "mv_db mv s' TasksCol"
  note inj = mongo.inj_hex [OF assms]
  define K where "K = {k. ?m (BOid k) \<noteq> None \<and> ?m' (BOid k) = None}"
  have "BOid ` K \<subseteq> dom ?m" by (auto simp: K_def)
  then have "finite (BOid ` K)" by (rule finite_subset) (rule mongo.msim_finite [OF assms sim])
  then have "finite K" by (rule finite_imageD) (simp add: inj_on_def)
  then obtain ks where ks: "set ks = K" "distinct ks" using finite_distinct_list by blast
  let ?js = "map (dv_hex dr) ks"
  let ?c = "c\<lparr>c_tasks := (\<lambda>j. if j \<in> set ?js then None else c_tasks c j)\<rparr>"
  note t = msim_tsim [OF sim]
  have gone: "dv_hex dr k \<in> set ?js \<longleftrightarrow> k \<in> K" for k using ks(1) inj by (auto simp: inj_eq)
  have "\<forall>j \<in> set ?js. c_tasks c j \<noteq> None"
  proof
    fix j assume "j \<in> set ?js"
    then obtain k d where k: "j = dv_hex dr k" "?m (BOid k) = Some d" using ks(1) by (auto simp: K_def)
    obtain q td where "BOid k = BOid q" "c_tasks c (dv_hex dr q) = Some (abs_doc td)" by (rule tsim_lookup [OF t k(2)])
    with k(1) show "c_tasks c j \<noteq> None" by simp
  qed
  moreover have "distinct ?js" unfolding distinct_map using ks(2) inj_on_subset [OF inj subset_UNIV] by blast
  ultimately have exec: "cexec c (map Purged ?js) ?c" by (rule purged_exec [rotated])
  have kept: "?m' i = Some d \<Longrightarrow> ?m i = Some d" for i d using purge unfolding ttl_purge_def by (metis option.distinct(1))
  have "tsim (dv_hex dr) (mv_tokens mv s') ?m' ?c"
    unfolding tsim_def
  proof (intro conjI allI impI)
    fix i d assume d: "?m' i = Some d"
    obtain k td where k: "i = BOid k" "map_of d ''_id'' = Some (BOid k)" "doc_ok (mv_tokens mv s) d td"
        "c_tasks c (dv_hex dr k) = Some (abs_doc td)"
      by (rule tsim_lookup [OF t kept [OF d]])
    moreover have "k \<notin> K" using d k(1) by (simp add: K_def)
    ultimately show "\<exists>k t. i = BOid k \<and> map_of d ''_id'' = Some i \<and> doc_ok (mv_tokens mv s') d t \<and>
        c_tasks ?c (dv_hex dr k) = Some (abs_doc t)"
      using purge gone [of k] by (auto simp: ttl_purge_def)
  next
    fix j a assume "c_tasks ?c j = Some a"
    then have j: "c_tasks c j = Some a" "j \<notin> set ?js" by (auto split: if_splits)
    then obtain k d where k: "j = dv_hex dr k" "?m (BOid k) = Some d" using t unfolding tsim_def by blast
    with j(2) gone [of k] have "?m' (BOid k) \<noteq> None" by (auto simp: K_def)
    with k(1) show "\<exists>k d. j = dv_hex dr k \<and> ?m' (BOid k) = Some d" by blast
  qed
  then have "msim dr mv s' ?c" using sim purge unfolding msim_def ttl_purge_def
    by simp (metis image_mono subset_trans)
  then show "may_advance (msim dr mv) c (range Purged) s'" by (intro may_advance_exec [OF exec]) auto
qed


abbreviation ref_ops :: "refserver store" where
  "ref_ops \<equiv> mg_ops ref_driver 2 (\<lambda>_. 5)"

lemma demo_ref_enqueued: "\<not> m_started (fst (demo_enqueued ref_ops ref_init))"
  by code_simp

lemma demo_ref_round:
  "(case demo_started ref_ops ref_init of (m, s) \<Rightarrow> m_started m \<and> m_pipeline m = None \<and>
     (case fst (worker_round ref_ops 5 False (worker_id m 0) m s) of
        Process t \<Rightarrow> t_Type t = ''a'' \<and> t_MaxAttempts t = 3 | _ \<Rightarrow> False))"
  by code_simp

lemma demo_ref_works: "demo_works ref_ops ref_init" "t_MaxAttempts (demo_run_task ref_ops ref_init) = 3"
  using demo_ref_enqueued demo_ref_round
  by (auto simp: demo_works_def demo_run_task_def demo_round_def split: worker_next.splits)


end
