(* ===== verification/Mongo_Batch.thy ===== *)
theory Mongo_Batch
  imports Mongo_Runs
begin

text \<open>
  \<open>ClaimBatch\<close> of the MongoDB store (\<open>stores/mongostore/mongostore.go\<close>), whose three round trips other
  clients may come between: what it returns is still claimed for its caller alone.
\<close>

section \<open>Claims in batches, with other clients between the round trips\<close>

text \<open>What never changes about a task: its queue and type, and its id is never used again.\<close>

definition named :: "cstore \<Rightarrow> string \<Rightarrow> string \<Rightarrow> string \<Rightarrow> bool" where
  "named c i q ty \<longleftrightarrow> c_limit c i \<noteq> None \<and> pred_option (\<lambda>a. a_queue a = q \<and> a_type a = ty) (c_tasks c i)"

lemma named_step: "cstep c e d \<Longrightarrow> named c i q ty \<Longrightarrow> named d i q ty"
  by (induction rule: cstep.induct) (auto simp: named_def)

lemma named_exec: "cexec c es d \<Longrightarrow> named c i q ty \<Longrightarrow> named d i q ty"
  by (induction rule: cexec.induct) (auto dest: named_step)

lemma limited_step:
  "cstep c e d \<Longrightarrow> \<forall>i. c_limit c i = None \<longrightarrow> c_tasks c i = None \<Longrightarrow> \<forall>i. c_limit d i = None \<longrightarrow> c_tasks d i = None"
  by (erule cstep.cases) auto

lemma limited_exec:
  "cexec c es d \<Longrightarrow> \<forall>i. c_limit c i = None \<longrightarrow> c_tasks c i = None \<Longrightarrow> \<forall>i. c_limit d i = None \<longrightarrow> c_tasks d i = None"
proof (induction rule: cexec.induct)
  case (cexec_cons c e d es d')
  from limited_step [OF cexec_cons(1,4)] show ?case by (rule cexec_cons.IH)
qed

lemma named_task:
  assumes "cexec cinit es c" "c_tasks c i = Some a"
  shows "named c i (a_queue a) (a_type a)"
  using limited_exec [OF assms(1)] assms(2) by (force simp: named_def cinit_def)

lemma held_doc:
  assumes "doc_ok toks d td" "map_of d ''lease_token'' = Some (BStr tok)" "tok \<noteq> []" "decode_task dr what d = Inr t"
  shows "t_LeaseToken t = tok \<and> t_Status t = StatusRunning"
proof -
  have td: "td_LeaseToken td = tok" by (rule token_field [OF assms(1,2)])
  then have run: "td_Status td = ''running''" using assms(1,3) by (simp add: doc_ok_def)
  have "td_decode d = Some td" using assms(1) by (simp add: doc_ok_def)
  then have "toTask dr td = Inr t" using assms(4) by (simp add: decode_task_def)
  with td run show ?thesis by (auto simp: toTask_def status_of_def split: sum.splits)
qed

text \<open>
  A document the search found in \<open>s\<close>, with the batch's token in the later state \<open>s'\<close>: its task is
  wanted and runs under the token.
\<close>

lemma winner_ok:
  assumes "mongo dr mv" "cexec cinit es c" "msim dr mv s c" "cexec c es' d" "msim dr mv s' d" "tok \<noteq> []"
    and f: "mv_db mv s TasksCol (BOid q) = Some f" "fmatch (FAnd (runnableFilter now (co_Types opts) (co_Queues opts))) f"
    and e: "mv_db mv s' TasksCol (BOid q) = Some e" "fmatch (batch_winners ids tok) e" "decode_task (strict_ids dr) what e = Inr t"
    and t: "c_tasks d (t_ID t) = Some (abs_task t)" "t_ID t = dv_hex dr q"
  shows "t_LeaseToken t = tok \<and> t_Status t = StatusRunning \<and> accepts opts t \<and>
    doc_task (mv_db mv s' TasksCol (BOid q)) = Some (abs_task t)"
proof -
  have "map_of e ''lease_token'' = Some (BStr tok)" using e(2) by (simp add: batch_winners_def)
  moreover obtain td where "doc_ok (mv_tokens mv s') e td" by (rule tsim_lookup [OF msim_tsim [OF assms(5)] e(1)])
  ultimately have held: "t_LeaseToken t = tok \<and> t_Status t = StatusRunning" using held_doc assms(6) e(3) by blast
  obtain p td0 where p: "BOid q = BOid p" "doc_ok (mv_tokens mv s) f td0" "c_tasks c (dv_hex dr p) = Some (abs_doc td0)"
    by (rule tsim_lookup [OF msim_tsim [OF assms(3)] f(1)])
  have "named c (dv_hex dr p) (td_Queue td0) (td_Type td0)" using named_task [OF assms(2) p(3)] by simp
  then have "named d (t_ID t) (td_Queue td0) (td_Type td0)" using named_exec [OF assms(4)] p(1) t(2) by simp
  then have "t_Queue t = td_Queue td0" "t_Type t = td_Type td0" using t(1) by (auto simp: named_def)
  from accepts_doc [OF f(2) p(2) this] have "accepts opts t" .
  moreover have "doc_task (mv_db mv s' TasksCol (BOid q)) = Some (abs_task t)"
    using msim_docs [OF assms(5) mongo.inj_hex [OF assms(1)], of q] t by simp
  ultimately show ?thesis using held by blast
qed

text \<open>What the fetch of a batch returns, when the search was made in \<open>s\<close> and the fetch in \<open>s'\<close>.\<close>

lemma batch_returned:
  assumes "mongo dr mv" "cexec cinit es c" "msim dr mv s c" "cexec c es' d" "msim dr mv s' d" "tok \<noteq> []" "1 \<le> k"
    and cand: "batch_candidates (strict_ids dr) now opts k s = Inr ids"
    and ds: "dv_Find (strict_ids dr) TasksCol (batch_winners ids tok) [] None [] s' = Inr ds"
      "all_results (map (decode_task (strict_ids dr) ''claim batch fetch decode'') ds) = Inr ts"
  shows "int (length ts) \<le> max 0 k \<and> distinct (map t_ID ts) \<and>
    (\<forall>t \<in> set ts. t_LeaseToken t = tok \<and> t_Status t = StatusRunning \<and> accepts opts t \<and>
      (\<exists>q. t_ID t = dv_hex dr q \<and> doc_task (mv_db mv s' TasksCol (BOid q)) = Some (abs_task t)))"
proof -
  let ?D = "strict_ids dr"
  have D: "mongo ?D mv" using strict_exact [OF assms(1)] by (simp add: mongo_exact_def)
  have sims: "msim ?D mv s c" "msim ?D mv s' d" using assms(3,5) by simp_all
  from mongo.fetch_winners [OF D sims(2) ds] obtain qs where qs: "length qs = length ts"
      "map t_ID ts = map (dv_hex ?D) qs" "distinct qs" "BOid ` set qs \<subseteq> set ids"
      "\<forall>q. q \<in> set qs \<longleftrightarrow> (\<exists>d. mv_db mv s' TasksCol (BOid q) = Some d \<and> fmatch (batch_winners ids tok) d)"
      "\<forall>j < length ts. \<exists>e. mv_db mv s' TasksCol (BOid (qs ! j)) = Some e \<and>
        decode_task ?D ''claim batch fetch decode'' e = Inr (ts ! j) \<and> c_tasks d (t_ID (ts ! j)) = Some (abs_task (ts ! j))"
    by (elim exE conjE) (rule that, assumption+)
  note cs = mongo.candidates_spec [OF D sims(1) cand]
  have "length ts \<le> nat k" using card_oids [OF qs(3,4)] cs(1) qs(1) by simp
  then have "int (length ts) \<le> max 0 k" using assms(7) by simp
  moreover have "distinct (map t_ID ts)"
    unfolding qs(2) distinct_map strict_sel using qs(3) inj_on_subset [OF mongo.inj_hex [OF assms(1)] subset_UNIV] by blast
  moreover have "t_LeaseToken t = tok \<and> t_Status t = StatusRunning \<and> accepts opts t \<and>
      (\<exists>q. t_ID t = dv_hex dr q \<and> doc_task (mv_db mv s' TasksCol (BOid q)) = Some (abs_task t))" if t: "t \<in> set ts" for t
  proof -
    obtain j where j: "j < length ts" "t = ts ! j" using t by (metis in_set_conv_nth)
    let ?q = "qs ! j"
    have id: "t_ID t = dv_hex dr ?q" using arg_cong [OF qs(2), of "\<lambda>xs. xs ! j"] j qs(1) by simp
    obtain e where e: "mv_db mv s' TasksCol (BOid ?q) = Some e"
        "decode_task ?D ''claim batch fetch decode'' e = Inr t" "c_tasks d (t_ID t) = Some (abs_task t)"
      using qs(6) j by blast
    have q: "?q \<in> set qs" using j qs(1) by simp
    then have w: "fmatch (batch_winners ids tok) e" using qs(5) e(1) by fastforce
    have "BOid ?q \<in> set ids" using q qs(4) by blast
    then obtain f where f: "mv_db mv s TasksCol (BOid ?q) = Some f"
        "fmatch (FAnd (runnableFilter now (co_Types opts) (co_Queues opts))) f"
      using cs(2) by blast
    from winner_ok [OF assms(1-6) f e(1) w e(2,3) id] id show ?thesis by blast
  qed
  ultimately show ?thesis by blast
qed

text \<open>
  C8: \<open>ClaimBatch\<close> under interference. Other clients run any calls between the search for
  candidates, the guarded update and the fetch. What comes back is at most \<open>k\<close> different tasks of the
  wanted types and queues, each running at that moment under one token that did not exist before
  this call, exactly as its document says; so no two calls ever return the same claim.
\<close>

theorem mongo_batch_interleaved:
  assumes "mongo_fresh dr mv chunk s0" "calls_ok ks" "calls_ok ks1" "calls_ok ks2"
    and "mg_ClaimBatch_env (strict_ids dr) (run_calls (mg_ops dr chunk clk) ks1) (run_calls (mg_ops dr chunk clk) ks2)
      now opts k (run_calls (mg_ops dr chunk clk) ks s0) = (Inr ts, s')"
  shows "int (length ts) \<le> max 0 k \<and> distinct (map t_ID ts) \<and>
    (\<exists>tok. tok \<notin> mv_tokens mv (run_calls (mg_ops dr chunk clk) (ks @ ks1) s0) \<and>
      (\<forall>t \<in> set ts. t_LeaseToken t = tok \<and> t_Status t = StatusRunning \<and> accepts opts t \<and>
        (\<exists>q. t_ID t = dv_hex dr q \<and> doc_task (mv_db mv s' TasksCol (BOid q)) = Some (abs_task t))))"
proof -
  let ?st = "mg_ops dr chunk clk" and ?D = "strict_ids dr"
  let ?s = "run_calls ?st ks s0"
  let ?e = "run_calls ?st ks1 ?s"
  have m: "mongo dr mv" using assms(1) by (simp add: mongo_fresh_def)
  note run = store_contract.run_sim [OF fresh_contract [OF assms(1), of clk]]
  obtain es c where c: "cexec cinit es c" "msim dr mv ?s c" using mg_run_sim [OF assms(1,2)] by blast
  obtain es1 c1 where c1: "cexec c es1 c1" "msim dr mv ?e c1"
    using run [OF c(2) assms(3)] by (auto simp: may_advance_def advances_def)
  from assms(5) show ?thesis
  proof (rule batch_cases)
    fix ids tok s1
    assume "Inr ts = (Inr [] :: gerror + task list)" and u: "dv_uuid ?D ?e = (tok, s1)"
    then have "ts = []" "tok \<notin> mv_tokens mv ?e"
      using mongo.uuid [OF m msim_ok [OF c1(2)]] by simp_all
    then show ?thesis by (auto simp: run_calls_append)
  next
    fix ids tok s1 n s2
    assume k: "1 \<le> k" and cand: "batch_candidates ?D now opts k ?s = Inr ids" and u: "dv_uuid ?D ?e = (tok, s1)"
      and x: "dv_UpdateMany ?D TasksCol (batch_guard now ids) (claimUpdate now (co_WorkerID opts) tok (co_Lease opts)) s1 = (Inr n, s2)"
      and s': "s' = run_calls ?st ks2 s2"
      and r: "Inr ts = (case dv_Find ?D TasksCol (batch_winners ids tok) [] None [] s' of
         Inl _ \<Rightarrow> Inl (mg_err ''claim batch fetch'')
       | Inr ds \<Rightarrow> all_results (map (decode_task ?D ''claim batch fetch decode'') ds))"
    have u': "dv_uuid dr ?e = (tok, s1)" using u by simp
    have "may_advance (msim dr mv) c1 {Claimed i tok now u | i tok u. True} s2"
      by (rule mongo.batch_updated [OF m c1(2) u']) (use x in simp)
    then obtain es2 c2 where c2: "cexec c1 es2 c2" "msim dr mv s2 c2" by (auto simp: may_advance_def advances_def)
    obtain es3 d where d: "cexec c2 es3 d" "msim dr mv s' d"
      using run [OF c2(2) assms(4)] s' by (auto simp: may_advance_def advances_def)
    obtain ds where ds: "dv_Find ?D TasksCol (batch_winners ids tok) [] None [] s' = Inr ds"
        "all_results (map (decode_task ?D ''claim batch fetch decode'') ds) = Inr ts"
      using r by (cases "dv_Find ?D TasksCol (batch_winners ids tok) [] None [] s'") simp_all
    from batch_returned [OF m c cexec_append [OF cexec_append [OF c1(1) c2(1)] d(1)] d(2)
        mongo.msim_token(2) [OF m c1(2) u'] k cand ds] mongo.uuid [OF m msim_ok [OF c1(2)] u']
    show ?thesis by (auto simp: run_calls_append)
  qed auto
qed

text \<open>On the reference server, with a rival that claims one of two candidates in between.\<close>

definition demo_rival :: "(gtime \<times> call) list" where
  "demo_rival = [(5, CClaim (demo_opts\<lparr>co_FIFO := True\<rparr>))]"

definition demo_won :: "(gerror + task list) \<times> refserver" where
  "demo_won = mg_ClaimBatch_env (strict_ids ref_driver) (run_calls (mg_ops ref_driver 2 (\<lambda>_. 5)) demo_rival)
     (run_calls (mg_ops ref_driver 2 (\<lambda>_. 5)) []) 5 demo_opts 2 (run_calls (mg_ops ref_driver 2 (\<lambda>_. 5)) demo_calls ref_init)"

lemma demo_won_one: "length (projr (fst demo_won)) = 1 \<and> \<not> isl (fst demo_won)"
  by code_simp

lemma mongo_batch_interleaved_witness:
  "length (projr (fst demo_won)) = 1 \<and> list_all (\<lambda>t. t_Status t = StatusRunning) (projr (fst demo_won))"
proof -
  have ok: "calls_ok demo_rival" "calls_ok []" by (simp_all add: demo_rival_def)
  have "mg_ClaimBatch_env (strict_ids ref_driver) (run_calls (mg_ops ref_driver 2 (\<lambda>_. 5)) demo_rival)
     (run_calls (mg_ops ref_driver 2 (\<lambda>_. 5)) []) 5 demo_opts 2 (run_calls (mg_ops ref_driver 2 (\<lambda>_. 5)) demo_calls ref_init) =
     (Inr (projr (fst demo_won)), snd demo_won)"
    using demo_won_one by (simp add: demo_won_def prod_eq_iff)
  from mongo_batch_interleaved [OF ref_fresh demo_ok ok this] demo_won_one show ?thesis by (auto simp: list_all_iff)
qed

end
