(* ===== verification/Mongo_Claiming.thy ===== *)
theory Mongo_Claiming
  imports Mongo_Runs
begin

text \<open>
  \<open>Claim\<close> of the MongoDB store (\<open>stores/mongostore/mongostore.go\<close>): it takes the due task that comes
  first, and finds none only when there is none.
\<close>

section \<open>Single claims\<close>

text \<open>A due and accepted document, in its own terms: BSON keeps times in milliseconds.\<close>

definition doc_due :: "gtime \<Rightarrow> task_doc \<Rightarrow> bool" where
  "doc_due now t \<longleftrightarrow> td_Status t = ''pending'' \<and> td_RunAt t \<le> bson_ms now \<or>
     td_Status t = ''running'' \<and> td_LeasedUntil t < bson_ms now \<and> td_Attempts t < td_MaxAttempts t"

definition doc_wanted :: "claim_options \<Rightarrow> task_doc \<Rightarrow> bool" where
  "doc_wanted opts t \<longleftrightarrow> (co_Types opts = [] \<or> td_Type t \<in> set (co_Types opts)) \<and>
     (co_Queues opts = [] \<or> td_Queue t \<in> set (co_Queues opts))"

abbreviation wanted_filter :: "gtime \<Rightarrow> claim_options \<Rightarrow> bfilter" where
  "wanted_filter now opts \<equiv> FAnd (runnableFilter now (co_Types opts) (co_Queues opts))"

lemma field_present:
  assumes "doc_ok toks d t" "k \<in> set required" "get_field as k d = Some x"
  obtains v where "map_of d k = Some v" "v \<noteq> BNull" "as v = Some x"
proof -
  have "null_free d" using assms(1) by (simp add: doc_ok_def)
  then have "map_of d k \<noteq> None" "map_of d k \<noteq> Some BNull"
    using null_free_present [OF _ assms(2)] by (simp_all add: null_free_def)
  then obtain v where v: "map_of d k = Some v" "v \<noteq> BNull" by (cases "map_of d k") simp_all
  with assms(3) show thesis by (intro that) (simp_all add: get_field_def)
qed

lemma stored_fields:
  assumes "doc_ok toks d t"
  shows "map_of d ''run_at'' = Some (BTime (td_RunAt t))" "map_of d ''queue'' = Some (BStr (td_Queue t))"
    "map_of d ''type'' = Some (BStr (td_Type t))"
    "td_Status t = ''running'' \<Longrightarrow> map_of d ''leased_until'' = Some (BTime (td_LeasedUntil t))"
proof -
  have dec: "get_time ''run_at'' d = Some (td_RunAt t)" "get_str ''queue'' d = Some (td_Queue t)"
      "get_str ''type'' d = Some (td_Type t)" "get_time ''leased_until'' d = Some (td_LeasedUntil t)"
    using assms by (simp_all add: doc_ok_def td_decode_iff)
  have tm: "v = BTime x" if "as_time v = Some x" "v \<noteq> BNull" for v x using that by (cases v) simp_all
  have st: "v = BStr x" if "as_str v = Some x" "v \<noteq> BNull" for v x using that by (cases v) simp_all
  have r: "''run_at'' \<in> set required" "''queue'' \<in> set required" "''type'' \<in> set required"
    by (simp_all add: required_def)
  show "map_of d ''run_at'' = Some (BTime (td_RunAt t))"
    by (rule field_present [OF assms r(1) dec(1)]) (use tm in blast)
  show "map_of d ''queue'' = Some (BStr (td_Queue t))"
    by (rule field_present [OF assms r(2) dec(2)]) (use st in blast)
  show "map_of d ''type'' = Some (BStr (td_Type t))"
    by (rule field_present [OF assms r(3) dec(3)]) (use st in blast)
  assume "td_Status t = ''running''"
  then have "map_of d ''leased_until'' \<noteq> None" "map_of d ''leased_until'' \<noteq> Some BNull"
    using assms by (simp_all add: doc_ok_def null_free_def)
  then obtain v where "map_of d ''leased_until'' = Some v" "v \<noteq> BNull"
    by (cases "map_of d ''leased_until''") simp_all
  with dec(4) show "map_of d ''leased_until'' = Some (BTime (td_LeasedUntil t))"
    using tm [of v] by (simp add: get_field_def)
qed

lemma wanted_iff:
  assumes "doc_ok toks d t"
  shows "fmatch (wanted_filter now opts) d \<longleftrightarrow> doc_due now t \<and> doc_wanted opts t"
proof -
  have s: "map_of d ''status'' = Some (BStr (td_Status t))" by (rule status_present [OF assms])
  have i: "cond_holds (CIn (map BStr xs)) (Some (BStr x)) \<longleftrightarrow> x \<in> set xs" for xs x by auto
  show ?thesis
    using s stored_fields [OF assms] attempts_fields [OF assms]
    by (auto simp: runnableFilter_def doc_due_def doc_wanted_def btime_def vlt_def i)
qed

lemma stored_wanted:
  assumes "msim dr mv s c" "mv_db mv s TasksCol i = Some d" "td_decode d = Some t"
  shows "fmatch (wanted_filter now opts) d \<longleftrightarrow> doc_due now t \<and> doc_wanted opts t"
proof -
  obtain u where u: "doc_ok (mv_tokens mv s) d u" by (rule tsim_lookup [OF msim_tsim [OF assms(1)] assms(2)])
  then have "t = u" using assms(3) by (simp add: doc_ok_def)
  with wanted_iff [OF u] show ?thesis by simp
qed

text \<open>What a claim that took a document has done, and what one that found none has seen.\<close>

lemma claim_took:
  assumes "mongo dr mv" "msim dr mv s c" "dv_uuid dr s = (tok, s1)"
    and "dv_FindOneAndUpdate dr TasksCol (wanted_filter now opts) (claimUpdate now w tok l) (fifo_sort opts) s1 = (Inr d', s')"
    and "decode_task D what d' = Inr t"
  shows "\<exists>k d td. mv_db mv s TasksCol (BOid k) = Some d \<and> td_decode d = Some td \<and> doc_due now td \<and> doc_wanted opts td \<and>
    toTask D (claimed_doc now w tok l td) = Inr t \<and> (\<forall>i. i \<noteq> BOid k \<longrightarrow> mv_db mv s' TasksCol i = mv_db mv s TasksCol i) \<and>
    (co_FIFO opts \<longrightarrow> (\<forall>j e te. mv_db mv s TasksCol j = Some e \<longrightarrow> td_decode e = Some te \<longrightarrow>
      doc_due now te \<and> doc_wanted opts te \<longrightarrow> sort_le claimSort d e))"
proof -
  note tok = mongo.msim_token [OF assms(1-3)]
  let ?f = "wanted_filter now opts" and ?u = "claimUpdate now w tok l"
  from mongo.find_update_ok [OF assms(1) msim_ok [OF tok(1)] assms(4)]
  obtain i d where d: "mv_db mv s TasksCol i = Some d" "fmatch ?f d" "d' = uapply ?u d"
      "mv_db mv s' TasksCol = (mv_db mv s TasksCol)(i \<mapsto> d')"
      "\<forall>j e. mv_db mv s TasksCol j = Some e \<longrightarrow> fmatch ?f e \<longrightarrow> sort_le (fifo_sort opts) d e"
    unfolding tok(5) by blast
  obtain k td where k: "i = BOid k" "doc_ok (mv_tokens mv s) d td" by (rule tsim_lookup [OF msim_tsim [OF assms(2)] d(1)])
  have dec: "td_decode d = Some td" "null_free d" using k(2) by (simp_all add: doc_ok_def)
  have "toTask D (claimed_doc now w tok l td) = Inr t"
    using assms(5) claim_decode(1) [OF dec] unfolding d(3) by (simp add: decode_task_def)
  moreover have "doc_due now td \<and> doc_wanted opts td" using stored_wanted [OF assms(2) d(1) dec(1)] d(2) by blast
  moreover have "sort_le claimSort d e"
    if "co_FIFO opts" "mv_db mv s TasksCol j = Some e" "td_decode e = Some te" "doc_due now te \<and> doc_wanted opts te" for j e te
    using d(5) that(1,2) stored_wanted [OF assms(2) that(2,3)] that(4) by (simp add: fifo_sort_def)
  ultimately show ?thesis using d(1,4) dec(1) k(1) by (intro exI [of _ k] exI [of _ d] exI [of _ td]) auto
qed

lemma claim_missed:
  assumes "mongo dr mv" "msim dr mv s c" "dv_uuid dr s = (tok, s1)"
    and "dv_FindOneAndUpdate dr TasksCol (wanted_filter now opts) (claimUpdate now w tok l) (fifo_sort opts) s1 = (Inl NoDocuments, s')"
  shows "mv_db mv s' TasksCol = mv_db mv s TasksCol \<and>
    (\<forall>i d td. mv_db mv s TasksCol i = Some d \<longrightarrow> td_decode d = Some td \<longrightarrow> \<not> (doc_due now td \<and> doc_wanted opts td))"
proof -
  note tok = mongo.msim_token [OF assms(1-3)]
  from mongo.find_update_none [OF assms(1) msim_ok [OF tok(1)] assms(4)]
  have none: "mv_db mv s' TasksCol = mv_db mv s TasksCol" "hits (wanted_filter now opts) (mv_db mv s TasksCol) = {}"
    unfolding tok(5) by blast+
  then show ?thesis using stored_wanted [OF assms(2)] unfolding hits_def by blast
qed

text \<open>
  C15: \<open>Claim\<close> on MongoDB. It takes a document that is due and of the wanted types and queues (with
  FIFO, one no other such document precedes by run time and id), writes only that document, and
  returns its task with one attempt more, under a token that did not exist before; it answers
  \<open>ErrNoTask\<close> only when there is no such document, so a due task is never left without an answer.
\<close>

theorem mongo_claim_oldest:
  assumes "mongo_fresh dr mv chunk s0" "calls_ok ks" "s = run_calls (mg_ops dr chunk clk) ks s0"
    and "mg_Claim (strict_ids dr) now opts s = (r, s')"
  shows "(\<forall>t. r = Inr t \<longrightarrow> (\<exists>k d td tok. mv_db mv s TasksCol (BOid k) = Some d \<and> td_decode d = Some td \<and>
      doc_due now td \<and> doc_wanted opts td \<and> tok \<notin> mv_tokens mv s \<and>
      toTask (strict_ids dr) (claimed_doc now (co_WorkerID opts) tok (co_Lease opts) td) = Inr t \<and>
      (\<forall>i. i \<noteq> BOid k \<longrightarrow> mv_db mv s' TasksCol i = mv_db mv s TasksCol i) \<and>
      (co_FIFO opts \<longrightarrow> (\<forall>j e te. mv_db mv s TasksCol j = Some e \<longrightarrow> td_decode e = Some te \<longrightarrow>
        doc_due now te \<and> doc_wanted opts te \<longrightarrow> sort_le claimSort d e)))) \<and>
    (r = Inl ErrNoTask \<longrightarrow> mv_db mv s' TasksCol = mv_db mv s TasksCol \<and>
      (\<forall>i d td. mv_db mv s TasksCol i = Some d \<longrightarrow> td_decode d = Some td \<longrightarrow> \<not> (doc_due now td \<and> doc_wanted opts td)))"
proof -
  obtain c where "msim dr mv (run_calls (mg_ops dr chunk clk) ks s0) c" using mg_run_sim [OF assms(1,2)] by blast
  then have c: "msim dr mv s c" by (simp add: assms(3))
  have m: "mongo dr mv" using assms(1) by (simp add: mongo_fresh_def)
  obtain tok s1 where u: "dv_uuid dr s = (tok, s1)" by fastforce
  have new: "tok \<notin> mv_tokens mv s" using mongo.uuid [OF m msim_ok [OF c] u] by blast
  obtain x where x: "dv_FindOneAndUpdate dr TasksCol (wanted_filter now opts)
        (claimUpdate now (co_WorkerID opts) tok (co_Lease opts)) (fifo_sort opts) s1 = (x, s')"
      "r = (case x of Inl e \<Rightarrow> Inl (if e = NoDocuments then ErrNoTask else mg_err ''claim'')
         | Inr d \<Rightarrow> decode_task (strict_ids dr) ''claim'' d)"
    using assms(4) u by (auto simp: mg_Claim_def split: prod.splits sum.splits)
  show ?thesis
  proof (intro conjI allI impI)
    fix t assume "r = Inr t"
    then obtain d' where "x = Inr d'" and dec: "decode_task (strict_ids dr) ''claim'' d' = Inr t"
      using x(2) by (auto split: sum.splits)
    from claim_took [OF m c u x(1) [unfolded this(1)] dec] new
    show "\<exists>k d td tok. mv_db mv s TasksCol (BOid k) = Some d \<and> td_decode d = Some td \<and>
      doc_due now td \<and> doc_wanted opts td \<and> tok \<notin> mv_tokens mv s \<and>
      toTask (strict_ids dr) (claimed_doc now (co_WorkerID opts) tok (co_Lease opts) td) = Inr t \<and>
      (\<forall>i. i \<noteq> BOid k \<longrightarrow> mv_db mv s' TasksCol i = mv_db mv s TasksCol i) \<and>
      (co_FIFO opts \<longrightarrow> (\<forall>j e te. mv_db mv s TasksCol j = Some e \<longrightarrow> td_decode e = Some te \<longrightarrow>
        doc_due now te \<and> doc_wanted opts te \<longrightarrow> sort_le claimSort d e))"
      by (elim exE) (intro exI, blast)
  next
    assume "r = Inl ErrNoTask"
    then have "x = Inl NoDocuments"
      using x(2) by (auto simp: mg_err_def decode_task_def toTask_def rawToJSON_def split: sum.splits if_splits option.splits)
    from claim_missed [OF m c u x(1) [unfolded this]]
    show "mv_db mv s' TasksCol = mv_db mv s TasksCol"
      "\<And>i d td. mv_db mv s TasksCol i = Some d \<Longrightarrow> td_decode d = Some td \<Longrightarrow> \<not> (doc_due now td \<and> doc_wanted opts td)"
      by blast+
  qed
qed

lemma demo_ref_claims: "\<not> isl (fst (mg_Claim (strict_ids ref_driver) 5 demo_opts (demo_ref demo_calls)))"
  by code_simp

lemma mongo_claim_oldest_witness: "\<exists>k d. ref_table (rs_tasks (demo_ref demo_calls)) (BOid k) = Some d"
proof -
  obtain t s' where "mg_Claim (strict_ids ref_driver) 5 demo_opts (demo_ref demo_calls) = (Inr t, s')"
    using demo_ref_claims by (metis prod.exhaust_sel sum.collapse(2))
  from mongo_claim_oldest [OF ref_fresh demo_ok demo_ref_def this] show ?thesis by auto
qed

end
