(* ===== verification/Mongo_Fencing.thy ===== *)
theory Mongo_Fencing
  imports Mongo_Runs Worker Config_Props
begin

text \<open>
  Finalizing on the MongoDB store (\<open>stores/mongostore/mongostore.go\<close>): a claim is finalized once, and what
  a result that does not convert does to a batch.
\<close>

section \<open>Fencing\<close>

text \<open>The calls that write under a claim, and that none of them succeeds.\<close>

definition mg_rejected :: "'s driver \<Rightarrow> task \<Rightarrow> 's \<Rightarrow> bool" where
  "mg_rejected dr t s \<longleftrightarrow> (\<forall>now r. fst (mg_Complete dr now t r s) \<noteq> None) \<and>
     (\<forall>now f ra b. fst (mg_Fail dr now t f ra b s) \<noteq> None) \<and>
     (\<forall>now l. isl (fst (mg_ExtendLease dr now t l s)))"

lemma mg_ops_sel [simp]:
  "st_Complete (mg_ops dr chunk clk) = mg_Complete (strict_ids dr)" "st_Fail (mg_ops dr chunk clk) = mg_Fail (strict_ids dr)"
  "st_ExtendLease (mg_ops dr chunk clk) = mg_ExtendLease (strict_ids dr)"
  "st_Enqueue (mg_ops dr chunk clk) = mg_Enqueue (strict_ids dr) chunk" "st_Claim (mg_ops dr chunk clk) = mg_Claim (strict_ids dr)"
  by (simp_all add: mg_ops_def mongostore_ops_def)

lemma not_live_rejected:
  assumes "mongo_fresh dr mv chunk s0" "msim dr mv s c" "\<not> live c (t_ID t) (t_LeaseToken t)"
  shows "mg_rejected (strict_ids dr) t s"
proof -
  note st = fresh_contract [OF assms(1), of "\<lambda>_. 0"]
  have "fst (mg_Complete (strict_ids dr) now t r s) \<noteq> None" for now r
    using store_contract.complete_closes [OF st assms(2), of now t r] assms(3)
    by (cases "mg_Complete (strict_ids dr) now t r s") auto
  moreover have "fst (mg_Fail (strict_ids dr) now t f ra b s) \<noteq> None" for now f ra b
    using store_contract.fail_closes [OF st assms(2), of now t f ra b] assms(3)
    by (cases "mg_Fail (strict_ids dr) now t f ra b s") auto
  moreover have "isl (fst (mg_ExtendLease (strict_ids dr) now t l s))" for now l
  proof (rule ccontr)
    assume "\<not> isl (fst (mg_ExtendLease (strict_ids dr) now t l s))"
    then obtain u s' where "mg_ExtendLease (strict_ids dr) now t l s = (Inr u, s')"
      by (metis prod.collapse sum.collapse(2))
    then have "advances (msim dr mv) c [Extended (t_ID t) (t_LeaseToken t)] s'"
      using store_contract.extend_ok [OF st assms(2)] by simp
    then have "live c (t_ID t) (t_LeaseToken t)"
      by (auto simp: advances_def live_def elim!: cexec_ConsE extendedE)
    with assms(3) show False by simp
  qed
  ultimately show ?thesis by (simp add: mg_rejected_def)
qed

text \<open>
  C6: a claim is finalized once. After \<open>Complete\<close> or \<open>Fail\<close> succeeded under a claim, whatever calls
  follow, none of \<open>Complete\<close>, \<open>Fail\<close> and \<open>ExtendLease\<close> succeeds under it again.
\<close>

theorem mongo_finalized_once:
  assumes "mongo_fresh dr mv chunk s0" "calls_ok ks" "s = run_calls (mg_ops dr chunk clk) ks s0"
    and "mg_Complete (strict_ids dr) now t r s = (None, s1) \<or> mg_Fail (strict_ids dr) now t f ra b s = (None, s1)"
    and "calls_ok ls"
  shows "mg_rejected (strict_ids dr) t (run_calls (mg_ops dr chunk clk) ls s1)"
proof -
  note st = fresh_contract [OF assms(1), of clk]
  obtain es c where c: "cexec cinit es c" "msim dr mv s c" using mg_run_sim [OF assms(1,2)] assms(3) by blast
  have "\<exists>d. msim dr mv s1 d \<and> live c (t_ID t) (t_LeaseToken t) \<and> \<not> live d (t_ID t) (t_LeaseToken t) \<and>
      c_issued c \<subseteq> c_issued d"
    using assms(4) store_contract.complete_closes [OF st c(2), of now t r s1]
      store_contract.fail_closes [OF st c(2), of now t f ra b s1] by auto
  then obtain d where d: "msim dr mv s1 d" "live c (t_ID t) (t_LeaseToken t)" "\<not> live d (t_ID t) (t_LeaseToken t)"
      "c_issued c \<subseteq> c_issued d" by blast
  have "well_fenced c" by (rule well_fenced_exec [OF c(1) well_fenced_init])
  then have "(t_ID t, t_LeaseToken t) \<in> c_issued d" using d(2,4) by (auto simp: well_fenced_def)
  then obtain e where "msim dr mv (run_calls (mg_ops dr chunk clk) ls s1) e" "\<not> live e (t_ID t) (t_LeaseToken t)"
    using store_contract.run_stale [OF st d(1) assms(5)] d(3) by blast
  then show ?thesis by (rule not_live_rejected [OF assms(1)])
qed

definition demo_ref_claim :: "(gerror + task) \<times> refserver" where
  "demo_ref_claim = mg_Claim (strict_ids ref_driver) 5 demo_opts (demo_ref demo_calls)"

definition demo_ref_done :: "gerror option \<times> refserver" where
  "demo_ref_done = mg_Complete (strict_ids ref_driver) 6 (projr (fst demo_ref_claim)) ''{}'' (snd demo_ref_claim)"

lemma demo_ref_completes: "fst demo_ref_done = None"
  by code_simp

lemma mongo_finalized_once_witness:
  "mg_rejected (strict_ids ref_driver) (projr (fst demo_ref_claim))
     (run_calls (mg_ops ref_driver 2 (\<lambda>_. 5)) [(1000, CReapExpired)] (snd demo_ref_done))"
proof -
  have ok: "calls_ok (demo_calls @ [(5, CClaim demo_opts)])" "calls_ok [(1000, CReapExpired)]" by (simp_all add: demo_calls_def demo_task_def)
  have s: "snd demo_ref_claim = run_calls (mg_ops ref_driver 2 (\<lambda>_. 5)) (demo_calls @ [(5, CClaim demo_opts)]) ref_init"
    by (simp add: run_calls_append demo_ref_claim_def demo_ref_def)
  have "mg_Complete (strict_ids ref_driver) 6 (projr (fst demo_ref_claim)) ''{}'' (snd demo_ref_claim) = (None, snd demo_ref_done)"
    using demo_ref_completes by (simp add: demo_ref_done_def prod_eq_iff)
  then show ?thesis by (intro mongo_finalized_once [OF ref_fresh ok(1) s _ ok(2)] disjI1)
qed

section \<open>The poison pill\<close>

text \<open>
  C38: one bad outcome drops the whole batch. \<open>FinalizeBatch\<close> turns the outcomes into writes before it
  sends any; when one of them cannot be turned into a write (its result is JSON but not extended
  JSON), the flush writes nothing and the flusher forgets every outcome it had buffered.
\<close>

theorem mongo_flush_poisoned:
  assumes "r \<in> set (m_finBuf m)" "outcome_write (strict_ids dr) (clock 0) r = Inl e"
  shows "\<exists>e'. flushOutcomes (mg_ops dr chunk clk) clock m s = ((0, Some e'), m\<lparr>m_finBuf := []\<rparr>, s)"
proof -
  have "m_finBuf m \<noteq> []" using assms(1) by auto
  moreover have "\<exists>e'. all_results (map (outcome_write (strict_ids dr) (clock 0)) os) = Inl e'" if "r \<in> set os" for os
    using that
  proof (induction os)
    case (Cons o' os)
    then show ?case using assms(2)
      by (cases "outcome_write (strict_ids dr) (clock 0) o'") (auto split: sum.splits)
  qed simp
  then obtain e' where "all_results (map (outcome_write (strict_ids dr) (clock 0)) (m_finBuf m)) = Inl e'"
    using assms(1) by blast
  ultimately show ?thesis
    by (simp add: flushOutcomes_def mg_ops_def mongostore_ops_def mg_FinalizeBatch_def Let_def)
qed

text \<open>A driver that, like MongoDB's, takes \<open>$oid\<close> for extended JSON, and a buffer with one such result.\<close>

definition picky_driver :: "refserver driver" where
  "picky_driver = ref_driver\<lparr>dv_toBSON := (\<lambda>j. if take 2 (drop 2 j) = ''$o'' then Inl ''extended JSON'' else Inr [(''json'', BStr j)])\<rparr>"

definition demo_outcome_of :: "json \<Rightarrow> outcome" where
  "demo_outcome_of r = \<lparr>o_Task = (demo_task ''q'' [] 0)\<lparr>t_ID := ''1''\<rparr>, o_Result = r, o_Failure = None, o_RetryAt = 0, o_Terminal = False\<rparr>"

definition demo_buffer :: manager where
  "demo_buffer = (demo_manager [])\<lparr>m_finBuf := [demo_outcome_of ''{}'', demo_outcome_of ''{\"$oid\":7}'']\<rparr>"

lemma mongo_flush_poisoned_witness:
  "\<exists>e. flushOutcomes (mg_ops picky_driver 2 (\<lambda>_. 5)) (\<lambda>_. 6) demo_buffer ref_init =
    ((0, Some e), demo_buffer\<lparr>m_finBuf := []\<rparr>, ref_init)"
proof -
  have "outcome_write (strict_ids picky_driver) 6 (demo_outcome_of ''{\"$oid\":7}'') = Inl (mg_err ''payload to BSON'')"
    by code_simp
  moreover have "demo_outcome_of ''{\"$oid\":7}'' \<in> set (m_finBuf demo_buffer)" by (simp add: demo_buffer_def)
  ultimately show ?thesis by (intro mongo_flush_poisoned)
qed

end
