(* ===== verification/Mongo_Enqueue.thy ===== *)
theory Mongo_Enqueue
  imports Mongo_Runs
begin

text \<open>
  \<open>Enqueue\<close> of the MongoDB store (\<open>stores/mongostore/mongostore.go\<close>): what the returned ids and the
  reported failures say of the collection, and what a stored task reads back as.
\<close>

section \<open>Enqueue\<close>

lemma blank_nth: "length (blank js ids) = length ids" "j < length ids \<Longrightarrow> blank js ids ! j = (if j \<in> set js then [] else ids ! j)"
proof -
  have "length (blank js ids) = length ids \<and> (j < length ids \<longrightarrow> blank js ids ! j = (if j \<in> set js then [] else ids ! j))"
    unfolding blank_def by (induction js arbitrary: ids) (auto simp: nth_list_update)
  then show "length (blank js ids) = length ids" "j < length ids \<Longrightarrow> blank js ids ! j = (if j \<in> set js then [] else ids ! j)"
    by blast+
qed

text \<open>What a loop over chunks from position \<open>start\<close> has done once it has returned.\<close>

definition reported :: "bdoc list \<Rightarrow> nat \<Rightarrow> string list \<Rightarrow> string list \<Rightarrow> (nat \<times> gerror) list \<Rightarrow> table \<Rightarrow> table \<Rightarrow> bool" where
  "reported docs start ids ids' F m m' \<longleftrightarrow> fst ` set F \<subseteq> {start..<length docs} \<and> distinct (map fst F) \<and>
     length ids' = length docs \<and> (\<forall>j < length docs. ids' ! j = (if j \<in> fst ` set F then [] else ids ! j)) \<and>
     (\<forall>j. start \<le> j \<longrightarrow> j < length docs \<longrightarrow> j \<notin> fst ` set F \<longrightarrow> m' (doc_id (docs ! j)) = Some (docs ! j)) \<and>
     (\<forall>i d. m i = Some d \<longrightarrow> m' i = Some d)"

text \<open>
  A chunk and the rest. The chunk from \<open>start\<close> reported the positions \<open>js\<close> with the failures \<open>G\<close> and
  stored its other documents in \<open>m1\<close>; the chunks after it are done.
\<close>

lemma reported_more:
  assumes rest: "reported docs (start + n) (blank js ids) ids' F m1 m'"
    and G: "map fst G = js" "distinct js" "set js \<subseteq> {start..<length docs} \<inter> {..<start + n}"
    and len: "length ids = length docs"
    and st: "\<And>j. start \<le> j \<Longrightarrow> j < start + n \<Longrightarrow> j < length docs \<Longrightarrow> j \<notin> set js \<Longrightarrow> m1 (doc_id (docs ! j)) = Some (docs ! j)"
    and kept: "\<And>i d. m i = Some d \<Longrightarrow> m1 i = Some d"
  shows "reported docs start ids ids' (G @ F) m m'"
  unfolding reported_def
proof (intro conjI allI impI)
  have range: "fst ` set F \<subseteq> {start + n..<length docs}" using rest by (simp add: reported_def)
  have js: "fst ` set G = set js" using G(1) by (metis list.set_map)
  show "fst ` set (G @ F) \<subseteq> {start..<length docs}" using range js G(3) by (auto simp: image_Un)
  have "set js \<inter> fst ` set F = {}" using range G(3) by (fastforce simp: subset_iff)
  then show "distinct (map fst (G @ F))" using rest G(1,2) js by (simp add: reported_def)
  show "length ids' = length docs" using rest by (simp add: reported_def)
  show "ids' ! j = (if j \<in> fst ` set (G @ F) then [] else ids ! j)" if "j < length docs" for j
    using that rest len blank_nth(2) [of j ids js] js by (simp add: reported_def image_Un)
  show "m' (doc_id (docs ! j)) = Some (docs ! j)"
    if "start \<le> j" "j < length docs" "j \<notin> fst ` set (G @ F)" for j
  proof (cases "j < start + n")
    case True
    with st that js have "m1 (doc_id (docs ! j)) = Some (docs ! j)" by (simp add: image_Un)
    with rest show ?thesis by (simp add: reported_def)
  next
    case False
    with rest that show ?thesis by (simp add: reported_def image_Un)
  qed
  show "m' i = Some d" if "m i = Some d" for i d using rest kept [OF that] by (simp add: reported_def)
qed

text \<open>The positions a chunk reports, in the whole list.\<close>

abbreviation shifted :: "nat \<Rightarrow> (nat \<times> int \<times> string) list \<Rightarrow> nat list" where
  "shifted start ws \<equiv> map (\<lambda>(j, code, msg). start + j) ws"

lemma chunk_positions:
  assumes "start < length docs" "distinct (map fst ws)" "fst ` set ws \<subseteq> {..<length (take n (drop start docs))}"
    and st: "\<forall>j < length (take n (drop start docs)). j \<notin> fst ` set ws \<longrightarrow>
      m (doc_id (take n (drop start docs) ! j)) = Some (take n (drop start docs) ! j)"
  shows "distinct (shifted start ws)" "set (shifted start ws) \<subseteq> {start..<length docs} \<inter> {..<start + n}"
    "start \<le> j \<Longrightarrow> j < start + n \<Longrightarrow> j < length docs \<Longrightarrow> j \<notin> set (shifted start ws) \<Longrightarrow> m (doc_id (docs ! j)) = Some (docs ! j)"
proof -
  let ?ds = "take n (drop start docs)"
  have len: "length ?ds = min n (length docs - start)" by simp
  have js: "shifted start ws = map ((+) start) (map fst ws)" by (simp add: case_prod_unfold comp_def)
  show "distinct (shifted start ws)" unfolding js distinct_map [of "(+) start"] using assms(2) by simp
  show "set (shifted start ws) \<subseteq> {start..<length docs} \<inter> {..<start + n}"
  proof
    fix y assume "y \<in> set (shifted start ws)"
    then obtain x where x: "y = start + x" "x \<in> fst ` set ws" unfolding js by auto
    then have "x < length ?ds" using assms(3) by blast
    with x(1) len show "y \<in> {start..<length docs} \<inter> {..<start + n}" by auto
  qed
  assume j: "start \<le> j" "j < start + n" "j < length docs" "j \<notin> set (shifted start ws)"
  have "j - start \<notin> fst ` set ws" using j(1,4) unfolding js by force
  moreover have "j - start < length ?ds" using j(1-3) len by auto
  moreover have "?ds ! (j - start) = docs ! j" using j(1,2) assms(1) by simp
  ultimately show "m (doc_id (docs ! j)) = Some (docs ! j)" using st by metis
qed

context mongo begin

lemma built_doc: "built_as K t r \<Longrightarrow> \<exists>k p. k \<noteq> 0 \<and> r = (dv_hex dr k, td_marshal (enqueue_doc k p t))"
  by (auto simp: built_as_def)

text \<open>One chunk: the documents whose indices the server does not report are stored.\<close>

lemma chunk_report:
  assumes "mv_ok mv s" "\<forall>d \<in> set ds. map_of d ''_id'' \<noteq> None" "dv_InsertMany dr TasksCol ds s = (r, s')"
  shows "mv_ok mv s'" "mv_db mv s TasksCol i = Some d \<Longrightarrow> mv_db mv s' TasksCol i = Some d"
    "r = None \<Longrightarrow> j < length ds \<Longrightarrow> mv_db mv s' TasksCol (doc_id (ds ! j)) = Some (ds ! j)"
    "r = Some (BulkWriteErrors ws) \<Longrightarrow> ws \<noteq> [] \<Longrightarrow> distinct (map fst ws) \<and> fst ` set ws \<subseteq> {..<length ds} \<and>
      (\<forall>j < length ds. j \<notin> fst ` set ws \<longrightarrow> mv_db mv s' TasksCol (doc_id (ds ! j)) = Some (ds ! j))"
proof -
  note law = insert_many [OF assms(1,3)]
  obtain es J where full: "list_all2 stored_doc ds es \<and> J \<subseteq> {..<length ds} \<and>
      inserted (nths es J) (mv_db mv s TasksCol) (mv_db mv s' TasksCol) \<and> (r = None \<longrightarrow> J = {..<length ds}) \<and>
      (\<forall>ws. r = Some (BulkWriteErrors ws) \<longrightarrow> ws \<noteq> [] \<longrightarrow> distinct (map fst ws) \<and>
          fst ` set ws = {..<length ds} - J \<and>
          (\<forall>j msg. (j, 11000, msg) \<in> set ws \<longrightarrow> taken TasksCol (es ! j) (mv_db mv s' TasksCol)))"
    using conjunct2 [OF law] by (elim exE) (rule that)
  have J: "writes_to mv TasksCol s s'" "list_all2 stored_doc ds es"
      "inserted (nths es J) (mv_db mv s TasksCol) (mv_db mv s' TasksCol)" "r = None \<longrightarrow> J = {..<length ds}"
    using law full by simp_all
  have J5: "distinct (map fst ws) \<and> fst ` set ws = {..<length ds} - J" if "r = Some (BulkWriteErrors ws)" "ws \<noteq> []" for ws
    using full that by simp
  have es: "es = ds" by (rule stored_docs [OF J(2) assms(2)])
  show "mv_ok mv s'" using J(1) by (simp add: writes_to_def)
  show "mv_db mv s TasksCol i = Some d \<Longrightarrow> mv_db mv s' TasksCol i = Some d" by (rule inserted_keeps [OF J(3)])
  have at: "mv_db mv s' TasksCol (doc_id (ds ! j)) = Some (ds ! j)" if "j < length ds" "j \<in> J" for j
  proof (rule inserted_at [OF J(3)])
    show "ds ! j \<in> set (nths es J)" unfolding es set_nths using that by blast
  qed
  show "r = None \<Longrightarrow> j < length ds \<Longrightarrow> mv_db mv s' TasksCol (doc_id (ds ! j)) = Some (ds ! j)"
    using at J(4) by simp
  assume r: "r = Some (BulkWriteErrors ws)" "ws \<noteq> []"
  then have ws: "distinct (map fst ws)" "fst ` set ws = {..<length ds} - J" using J5 by simp_all
  moreover have "mv_db mv s' TasksCol (doc_id (ds ! j)) = Some (ds ! j)" if "j < length ds" "j \<notin> fst ` set ws" for j
    using that at unfolding ws(2) by simp
  ultimately show "distinct (map fst ws) \<and> fst ` set ws \<subseteq> {..<length ds} \<and>
      (\<forall>j < length ds. j \<notin> fst ` set ws \<longrightarrow> mv_db mv s' TasksCol (doc_id (ds ! j)) = Some (ds ! j))" by blast
qed

lemma chunks_report:
  assumes "mv_ok mv s" "0 < n" "length ids = length docs" "\<forall>d \<in> set docs. map_of d ''_id'' \<noteq> None"
    and "enqueue_chunks dr n docs start ids failures s = ((ids', failures'), s')"
  shows "\<exists>F. failures' = failures @ F \<and> reported docs start ids ids' F (mv_db mv s TasksCol) (mv_db mv s' TasksCol)"
  using assms(1,3,5)
proof (induction "length docs - start" arbitrary: start ids failures s rule: less_induct)
  case less
  note unfold = enqueue_chunks.simps [of dr n docs start]
  show ?case
  proof (cases "length docs \<le> start")
    case True
    with less.prems show ?thesis by (intro exI [of _ "[]"]) (auto simp: unfold reported_def)
  next
    case False
    let ?ds = "take n (drop start docs)"
    have sub: "\<forall>d \<in> set ?ds. map_of d ''_id'' \<noteq> None"
      using assms(4) set_take_subset [of n "drop start docs"] set_drop_subset [of start docs] by blast
    obtain r s1 where r: "dv_InsertMany dr TasksCol ?ds s = (r, s1)" by fastforce
    note ck = chunk_report [OF less.prems(1) sub r]
    have dec: "length docs - (start + n) < length docs - start" using False assms(2) by simp
    have more: ?thesis
      if go: "enqueue_chunks dr n docs (start + n) (blank js ids) (failures @ G) s1 = ((ids', failures'), s')"
        and G: "map fst G = js" "distinct js" "set js \<subseteq> {start..<length docs} \<inter> {..<start + n}"
        and st: "\<And>j. start \<le> j \<Longrightarrow> j < start + n \<Longrightarrow> j < length docs \<Longrightarrow> j \<notin> set js \<Longrightarrow>
          mv_db mv s1 TasksCol (doc_id (docs ! j)) = Some (docs ! j)" for js G
    proof -
      have len': "length (blank js ids) = length docs" using less.prems(2) blank_nth(1) by simp
      from less.hyps [OF dec ck(1) len' go] obtain F where F: "failures' = (failures @ G) @ F"
          "reported docs (start + n) (blank js ids) ids' F (mv_db mv s1 TasksCol) (mv_db mv s' TasksCol)"
        by blast
      have "reported docs start ids ids' (G @ F) (mv_db mv s TasksCol) (mv_db mv s' TasksCol)"
        by (rule reported_more [OF F(2) G less.prems(2) st ck(2)])
      with F(1) show ?thesis by (intro exI [of _ "G @ F"]) simp
    qed
    note pos = chunk_positions [of start docs _ n "mv_db mv s1 TasksCol"]
    show ?thesis
    proof (cases r)
      case None
      then have "start \<le> j \<Longrightarrow> j < start + n \<Longrightarrow> j < length docs \<Longrightarrow>
          mv_db mv s1 TasksCol (doc_id (docs ! j)) = Some (docs ! j)" for j
        using pos(3) [of "[]" j] ck(3) False by simp
      then show ?thesis
        using less.prems(3) r None False assms(2) by (intro more [of "[]" "[]"]) (simp_all add: unfold blank_def)
    next
      case (Some e)
      show ?thesis
      proof (cases "\<exists>ws. e = BulkWriteErrors ws \<and> ws \<noteq> []")
        case True
        then obtain ws where ws: "e = BulkWriteErrors ws" "ws \<noteq> []" by blast
        let ?G = "map (\<lambda>(j, code, msg). (start + j, write_cause code msg)) ws"
        have lt: "start < length docs" using False by simp
        have w: "distinct (map fst ws)" "fst ` set ws \<subseteq> {..<length ?ds}"
            "\<forall>j < length ?ds. j \<notin> fst ` set ws \<longrightarrow> mv_db mv s1 TasksCol (doc_id (?ds ! j)) = Some (?ds ! j)"
          using ck(4) Some ws by blast+
        show ?thesis
        proof (rule more [of "shifted start ws" ?G])
          show "enqueue_chunks dr n docs (start + n) (blank (shifted start ws) ids) (failures @ ?G) s1 = ((ids', failures'), s')"
            using less.prems(3) r False Some ws assms(2) by (simp add: unfold)
          show "map fst ?G = shifted start ws" by (simp add: case_prod_unfold comp_def)
        qed (fact pos [OF lt w])+
      next
        case other: False
        let ?G = "map (\<lambda>j. (j, mg_err ''enqueue'')) [start..<length docs]"
        have "ids' = blank [start..<length docs] ids \<and> failures' = failures @ ?G \<and> s' = s1"
          using less.prems(3) r False Some other assms(2) by (cases e) (auto simp: unfold split: if_splits)
        moreover have "map fst ?G = [start..<length docs]" by (simp add: comp_def)
        then have "fst ` set ?G = {start..<length docs}" "distinct (map fst ?G)" by (metis list.set_map set_upt, simp)
        ultimately show ?thesis
          using less.prems(2) blank_nth ck(2) by (intro exI [of _ ?G]) (auto simp: reported_def)
      qed
    qed
  qed
qed

end

text \<open>The document of the \<open>j\<close>-th task is in the collection under the \<open>j\<close>-th id.\<close>

definition entry_stored :: "'s driver \<Rightarrow> task list \<Rightarrow> string list \<Rightarrow> table \<Rightarrow> nat \<Rightarrow> bool" where
  "entry_stored dr ts ids m j \<longleftrightarrow> (\<exists>k p. ids ! j = dv_hex dr k \<and> m (BOid k) = Some (td_marshal (enqueue_doc k p (ts ! j))))"

lemma built_entry:
  assumes "mongo dr mv" "list_all2 (mongo.built_as dr K) ts rs" "j < length ts"
  shows "\<exists>k p. rs ! j = (dv_hex dr k, td_marshal (enqueue_doc k p (ts ! j))) \<and>
    doc_id (snd (rs ! j)) = BOid k \<and> map_of (snd (rs ! j)) ''_id'' \<noteq> None"
proof -
  have "mongo.built_as dr K (ts ! j) (rs ! j)" using list_all2_nthD [OF assms(2,3)] .
  then obtain k p where "k \<noteq> 0" "rs ! j = (dv_hex dr k, td_marshal (enqueue_doc k p (ts ! j)))"
    using mongo.built_doc [OF assms(1)] by blast
  then show ?thesis by (intro exI [of _ k] exI [of _ p]) (simp add: doc_id_def td_marshal_lookups enqueue_doc_def)
qed

lemma built_stored:
  assumes "mongo dr mv" "list_all2 (mongo.built_as dr K) ts rs"
    and "reported (map snd rs) 0 (map fst rs) ids F m m'" "j < length ts" "j \<notin> fst ` set F"
  shows "entry_stored dr ts ids m' j"
proof -
  have len: "length rs = length ts" using list_all2_lengthD [OF assms(2)] by simp
  obtain k p where kp: "rs ! j = (dv_hex dr k, td_marshal (enqueue_doc k p (ts ! j)))" "doc_id (snd (rs ! j)) = BOid k"
    using built_entry [OF assms(1,2,4)] by blast
  have "m' (doc_id (map snd rs ! j)) = Some (map snd rs ! j)" "ids ! j = map fst rs ! j"
    using assms(3-5) len by (simp_all add: reported_def)
  with kp assms(4) len show ?thesis unfolding entry_stored_def by (intro exI [of _ k] exI [of _ p]) simp
qed

text \<open>A call of \<open>Enqueue\<close> that reaches the server: its report, and the answer made of it.\<close>

lemma enqueue_run:
  assumes "mongo dr mv" "msim dr mv s c" "0 < chunk" "ts \<noteq> []" "enqueue_docs dr ts s = (Inr rs, s1)"
    and "mg_Enqueue dr chunk ts s = ((ids, e), s')"
  obtains K ids' F m where "list_all2 (mongo.built_as dr K) ts rs"
    "reported (map snd rs) 0 (map fst rs) ids' F m (mv_db mv s' TasksCol)"
    "(ids, e) = (if F = [] then (ids', None)
      else if length ts = 1 \<and> is_duplicate (snd (hd F)) then ([], Some (duplicateError dr ts s'))
      else (ids', Some (PartialEnqueueError F)))"
proof -
  let ?docs = "map snd rs" and ?ids = "map fst rs"
  note built = mongo.docs_built [OF assms(1,2,5)]
  obtain K where K: "list_all2 (mongo.built_as dr K) ts rs" using built by blast
  have len: "length rs = length ts" using list_all2_lengthD [OF K] by simp
  have ids: "\<forall>d \<in> set ?docs. map_of d ''_id'' \<noteq> None"
  proof
    fix d assume "d \<in> set ?docs"
    then obtain j where "j < length ?docs" "d = ?docs ! j" unfolding in_set_conv_nth by blast
    then have j: "j < length ts" "d = snd (rs ! j)" using len by simp_all
    show "map_of d ''_id'' \<noteq> None" unfolding j(2) using built_entry [OF assms(1) K j(1)] by blast
  qed
  obtain res s2 where res: "enqueue_chunks dr chunk ?docs 0 ?ids [] s1 = (res, s2)" by fastforce
  obtain ids' F where "res = (ids', F)" by fastforce
  with res have go: "enqueue_chunks dr chunk ?docs 0 ?ids [] s1 = ((ids', F), s2)" by simp
  have ok: "mv_ok mv s1" by (rule msim_ok [OF conjunct1 [OF built]])
  obtain F' where "F = [] @ F'" "reported ?docs 0 ?ids ids' F' (mv_db mv s1 TasksCol) (mv_db mv s2 TasksCol)"
    using mongo.chunks_report [OF assms(1) ok assms(3) _ ids go] by auto
  then have rep: "reported ?docs 0 ?ids ids' F (mv_db mv s1 TasksCol) (mv_db mv s2 TasksCol)" by simp
  have answer: "((ids, e), s') = (if F = [] then ((ids', None), s2)
      else if length ts = 1 \<and> is_duplicate (snd (hd F)) then (([], Some (duplicateError dr ts s2)), s2)
      else ((ids', Some (PartialEnqueueError F)), s2))"
    using assms(4-6) go by (simp add: mg_Enqueue_def)
  then have s2: "s2 = s'" by (simp split: if_splits)
  have "fst ((ids, e), s') = (if F = [] then (ids', None)
      else if length ts = 1 \<and> is_duplicate (snd (hd F)) then ([], Some (duplicateError dr ts s'))
      else (ids', Some (PartialEnqueueError F)))" unfolding answer by (simp add: if_distrib [of fst] s2)
  from that [OF K rep [unfolded s2] this [unfolded fst_conv]] show thesis .
qed

lemma docs_error: "enqueue_docs dr ts s = (Inl x, s') \<Longrightarrow> x \<noteq> PartialEnqueueError F"
  by (induction ts arbitrary: s)
    (auto simp: jsonToRaw_def mg_err_def Let_def split: sum.splits prod.splits if_splits)

text \<open>
  C20: \<open>Enqueue\<close> reports exactly. The returned ids are aligned with the tasks: without an error every
  task is stored under its id; with a partial error the failures name distinct positions, whose ids
  are blank, and every other task is stored under its id. Any other answer returns no ids.
\<close>

theorem mongo_enqueue_reports:
  assumes "mongo_fresh dr mv chunk s0" "calls_ok ks" "s = run_calls (mg_ops dr chunk clk) ks s0"
    and "mg_Enqueue dr chunk ts s = ((ids, e), s')"
  shows "(e = None \<longrightarrow> length ids = length ts \<and> (\<forall>j < length ts. entry_stored dr ts ids (mv_db mv s' TasksCol) j)) \<and>
    (\<forall>F. e = Some (PartialEnqueueError F) \<longrightarrow> F \<noteq> [] \<and> length ids = length ts \<and> distinct (map fst F) \<and>
      fst ` set F \<subseteq> {..<length ts} \<and>
      (\<forall>j < length ts. if j \<in> fst ` set F then ids ! j = [] else entry_stored dr ts ids (mv_db mv s' TasksCol) j)) \<and>
    (e \<noteq> None \<longrightarrow> (\<forall>F. e \<noteq> Some (PartialEnqueueError F)) \<longrightarrow> ids = [])"
proof -
  have m: "mongo dr mv" and chunk: "0 < chunk" using assms(1) by (simp_all add: mongo_fresh_def)
  obtain c where c: "msim dr mv s c" using mg_run_sim [OF assms(1,2)] assms(3) by blast
  obtain r s1 where r: "enqueue_docs dr ts s = (r, s1)" by fastforce
  show ?thesis
  proof (cases "ts = [] \<or> isl r")
    case True
    then show ?thesis using assms(4) r docs_error [of dr ts s] by (auto simp: mg_Enqueue_def isl_def split: if_splits)
  next
    case False
    then obtain rs where rs: "enqueue_docs dr ts s = (Inr rs, s1)" "ts \<noteq> []" using r by (cases r) auto
    obtain K ids' F m' where run: "list_all2 (mongo.built_as dr K) ts rs"
        "reported (map snd rs) 0 (map fst rs) ids' F m' (mv_db mv s' TasksCol)"
        "(ids, e) = (if F = [] then (ids', None)
          else if length ts = 1 \<and> is_duplicate (snd (hd F)) then ([], Some (duplicateError dr ts s'))
          else (ids', Some (PartialEnqueueError F)))"
      by (rule enqueue_run [OF m c chunk rs(2,1) assms(4)])
    note stored = built_stored [OF m run(1,2)]
    have part: "length ids' = length ts" "distinct (map fst F)" "fst ` set F \<subseteq> {..<length ts}"
        "j < length ts \<Longrightarrow> j \<in> fst ` set F \<Longrightarrow> ids' ! j = []" for j
      using run(2) list_all2_lengthD [OF run(1)] by (auto simp: reported_def)
    have dupl: "duplicateError dr ts s' \<noteq> PartialEnqueueError G" for G
      by (simp add: duplicateError_def Let_def split: sum.split option.split)
    consider "F = []" | "F \<noteq> []" "length ts = 1 \<and> is_duplicate (snd (hd F))"
      | "F \<noteq> []" "\<not> (length ts = 1 \<and> is_duplicate (snd (hd F)))" by blast
    then show ?thesis
    proof cases
      case 1
      with run(3) have "ids = ids'" "e = None" by simp_all
      with stored part(1) 1 show ?thesis by simp
    next
      case 2
      with run(3) have "ids = []" "e = Some (duplicateError dr ts s')" by simp_all
      with dupl show ?thesis by simp
    next
      case 3
      have "(ids, e) = (ids', Some (PartialEnqueueError F))"
        unfolding run(3) if_not_P [OF 3(1)] if_not_P [OF 3(2)] ..
      then have eq: "ids = ids'" "e = Some (PartialEnqueueError F)" by simp_all
      show ?thesis unfolding eq using 3(1) part stored by auto
    qed
  qed
qed

text \<open>On the reference server: the second of three tasks has the key of the first.\<close>

definition demo_conflict :: "task list" where
  "demo_conflict = [demo_task ''a'' ''k'' 1, demo_task ''b'' ''k'' 2, demo_task ''c'' [] 3]"

lemma demo_conflict_result:
  "(case mg_Enqueue ref_driver 2 demo_conflict ref_init of ((ids, e), s') \<Rightarrow>
     length ids = 3 \<and> (case e of Some (PartialEnqueueError F) \<Rightarrow> map fst F = [1] | _ \<Rightarrow> False))"
  by code_simp

lemma mongo_enqueue_reports_witness:
  "fst (fst (mg_Enqueue ref_driver 2 demo_conflict ref_init)) ! 1 = [] \<and>
    (\<exists>k. fst (fst (mg_Enqueue ref_driver 2 demo_conflict ref_init)) ! 2 = digits k)"
proof -
  obtain ids F s' where r: "mg_Enqueue ref_driver 2 demo_conflict ref_init = ((ids, Some (PartialEnqueueError F)), s')"
      "map fst F = [1]"
    using demo_conflict_result by (auto split: prod.splits option.splits gerror.splits)
  have "calls_ok []" "ref_init = run_calls (mg_ops ref_driver 2 (\<lambda>_. 5)) [] ref_init" by simp_all
  from mongo_enqueue_reports [OF ref_fresh this r(1)]
  have all: "\<forall>j < length demo_conflict. if j \<in> fst ` set F then ids ! j = []
      else entry_stored ref_driver demo_conflict ids (mv_db ref_view s' TasksCol) j" by blast
  have F: "fst ` set F = {1}" using r(2) by (metis list.set(1,2) list.set_map)
  have "dv_hex ref_driver = digits" by (simp add: ref_driver_def)
  with all [rule_format, of 1] all [rule_format, of 2] F r(1) show ?thesis
    by (auto simp: demo_conflict_def entry_stored_def)
qed

section \<open>Round trips\<close>

text \<open>
  C30: what is enqueued is read back. The document \<open>Enqueue\<close> writes for a task decodes to that task,
  with the id it was given, the payload as the codec renders it, and times cut to milliseconds.
\<close>

theorem mongo_task_roundtrip:
  assumes "jsonToRaw dr (t_Payload t) = Inr p" "rawToJSON dr p = Inr j"
  shows "decode_task dr what (td_marshal (enqueue_doc k p t)) = Inr (t\<lparr>t_ID := dv_hex dr k, t_Payload := j,
    t_RunAt := bson_ms (t_RunAt t), t_ExpiresAt := map_option bson_ms (t_ExpiresAt t), t_LeasedBy := [],
    t_LeasedUntil := 0, t_LeaseToken := [], t_Errors := [], t_Result := [],
    t_CreatedAt := bson_ms (t_CreatedAt t), t_UpdatedAt := bson_ms (t_UpdatedAt t)\<rparr>)"
proof -
  have "status_of (status_str x) = Some x" for x by (cases x) (simp_all add: status_of_def)
  moreover have "rawToJSON dr None = Inr []" by (simp add: rawToJSON_def)
  ultimately show ?thesis using assms(2)
    by (simp add: decode_task_def td_decode_marshal toTask_def td_rounded_def enqueue_doc_def)
qed

lemma mongo_task_roundtrip_witness:
  "decode_task ref_driver ''claim'' (td_marshal (enqueue_doc 1 (Some [(''json'', BStr ''{}'')]) (demo_task ''a'' [] 1))) =
    Inr ((demo_task ''a'' [] 1)\<lparr>t_ID := digits 1, t_RunAt := 0\<rparr>)"
proof -
  have "jsonToRaw ref_driver (t_Payload (demo_task ''a'' [] 1)) = Inr (Some [(''json'', BStr ''{}'')])"
      "rawToJSON ref_driver (Some [(''json'', BStr ''{}'')]) = Inr ''{}''" by code_simp+
  from mongo_task_roundtrip [OF this, of "''claim''" 1] show ?thesis
    by (simp add: demo_task_def ref_driver_def bson_ms_def)
qed

end
