(* ===== verification/Mongo_Policies.thy ===== *)
theory Mongo_Policies
  imports Mongo_Runs
begin

text \<open>
  \<open>EnsureQueues\<close> of the MongoDB store (\<open>stores/mongostore/registry.go\<close>), with other managers registering
  queues at the same time.
\<close>

section \<open>The queue registry\<close>

text \<open>What other managers do to the registry meanwhile: they add queues.\<close>

definition registers_only :: "'s mview \<Rightarrow> ('s \<Rightarrow> 's) \<Rightarrow> bool" where
  "registers_only mv env \<longleftrightarrow> (\<forall>s. mv_ok mv s \<longrightarrow> mv_ok mv (env s) \<and> mv_db mv s QueuesCol \<subseteq>\<^sub>m mv_db mv (env s) QueuesCol)"

definition agreed :: "table \<Rightarrow> queue_policy \<Rightarrow> bool" where
  "agreed m q \<longleftrightarrow> (\<exists>d e. m (BStr (qp_Name q)) = Some d \<and> qd_decode d = Some e \<and> qd_matches e q)"

definition conflicts :: "table \<Rightarrow> queue_policy \<Rightarrow> bool" where
  "conflicts m q \<longleftrightarrow> (\<exists>d e. m (BStr (qp_Name q)) = Some d \<and> qd_decode d = Some e \<and> \<not> qd_matches e q)"

lemma agreed_mono: "agreed m q \<Longrightarrow> m \<subseteq>\<^sub>m m' \<Longrightarrow> agreed m' q"
  unfolding agreed_def map_le_def by (metis domI)

lemma conflicts_mono: "conflicts m q \<Longrightarrow> m \<subseteq>\<^sub>m m' \<Longrightarrow> conflicts m' q"
  unfolding conflicts_def map_le_def by (metis domI)

lemma qd_decode_marshal:
  "qd_decode (qd_marshal d) = Some (d\<lparr>qd_CreatedAt := bson_ms (qd_CreatedAt d), qd_UpdatedAt := bson_ms (qd_UpdatedAt d)\<rparr>)"
  by (simp add: qd_decode_def qd_marshal_def get_field_def btime_as)

lemma inserted_le: "inserted es m m' \<Longrightarrow> m \<subseteq>\<^sub>m m'"
  using inserted_keeps by (fastforce simp: map_le_def dom_def)

context mongo begin

lemma queue_found:
  assumes "mv_ok mv s" "dv_FindOne dr QueuesCol (queue_filter name) [] [] s = Inr d"
  shows "mv_db mv s QueuesCol (BStr name) = Some d"
proof -
  obtain i e where e: "mv_db mv s QueuesCol i = Some e" "fmatch (queue_filter name) e" "d = project [] e"
    using find_one [OF assms] by blast
  then have "i = BStr name" using view [OF assms(1)] by (fastforce simp: queue_filter_def)
  with e show ?thesis by simp
qed

text \<open>The comparison with what is stored, and what an insert stores.\<close>

lemma check_spec:
  assumes "mv_ok mv t" "dv_FindOne dr QueuesCol (queue_filter (qp_Name q)) [] [] t = Inr d"
  shows "(check_queue q d = None \<longrightarrow> agreed (mv_db mv t QueuesCol) q) \<and>
    (\<forall>name. check_queue q d = Some (ErrQueueConflict name) \<longrightarrow> name = qp_Name q \<and> conflicts (mv_db mv t QueuesCol) q)"
  using queue_found [OF assms]
  by (auto simp: check_queue_def agreed_def conflicts_def register_err_def mg_err_def split: option.splits)

lemma insert_agrees:
  assumes "mv_ok mv s" "dv_InsertOne dr QueuesCol (qd_marshal (toQueueDoc q now)) s = (None, t)"
  shows "agreed (mv_db mv t QueuesCol) q"
proof -
  let ?d = "qd_marshal (toQueueDoc q now)"
  obtain d where d: "stored_doc ?d d" "inserted [d] (mv_db mv s QueuesCol) (mv_db mv t QueuesCol)"
    using insert_one [OF assms] by auto
  have "d = ?d" using d(1) by (simp add: stored_doc_def qd_marshal_def)
  moreover have "doc_id ?d = BStr (qp_Name q)" by (simp add: doc_id_def qd_marshal_def toQueueDoc_def)
  ultimately have "mv_db mv t QueuesCol (BStr (qp_Name q)) = Some ?d"
    using inserted_at [OF d(2), of d] by simp
  then show ?thesis by (simp add: agreed_def qd_decode_marshal qd_matches_def toQueueDoc_def)
qed

lemma register_one_spec:
  assumes "mv_ok mv s" "registers_only mv env" "register_one dr env now q s = (r, s')"
  shows "mv_ok mv s'" "mv_db mv s QueuesCol \<subseteq>\<^sub>m mv_db mv s' QueuesCol"
    "r = None \<Longrightarrow> agreed (mv_db mv s' QueuesCol) q"
    "r = Some (ErrQueueConflict name) \<Longrightarrow> name = qp_Name q \<and> conflicts (mv_db mv s' QueuesCol) q"
proof -
  let ?f = "queue_filter (qp_Name q)"
  have "mv_ok mv s' \<and> mv_db mv s QueuesCol \<subseteq>\<^sub>m mv_db mv s' QueuesCol \<and>
      (r = None \<longrightarrow> agreed (mv_db mv s' QueuesCol) q) \<and>
      (\<forall>name. r = Some (ErrQueueConflict name) \<longrightarrow> name = qp_Name q \<and> conflicts (mv_db mv s' QueuesCol) q)"
  proof (cases "dv_FindOne dr QueuesCol ?f [] [] s")
    case (Inr d)
    then have "r = check_queue q d" "s' = s" using assms(3) by (simp_all add: register_one_def)
    with check_spec [OF assms(1) Inr] assms(1) show ?thesis by simp
  next
    case (Inl e)
    show ?thesis
    proof (cases "e = NoDocuments")
      case False
      then have "r = Some (register_err (qp_Name q))" "s' = s"
        using assms(3) Inl by (auto simp: register_one_def split: serr.splits)
      with assms(1) show ?thesis by (simp add: register_err_def mg_err_def)
    next
      case True
      let ?d = "qd_marshal (toQueueDoc q now)"
      obtain x t where x: "dv_InsertOne dr QueuesCol ?d (env s) = (x, t)" by fastforce
      have env: "mv_ok mv (env s)" "mv_db mv s QueuesCol \<subseteq>\<^sub>m mv_db mv (env s) QueuesCol"
        using assms(1,2) by (auto simp: registers_only_def)
      note law = insert_one [OF env(1) x]
      have ok: "mv_ok mv t" using law by (simp add: writes_to_def)
      have le: "mv_db mv (env s) QueuesCol \<subseteq>\<^sub>m mv_db mv t QueuesCol" using law inserted_le by auto
      have body: "(r, s') = (case x of None \<Rightarrow> (None, t)
          | Some e \<Rightarrow> if is_dup_key e then (case dv_FindOne dr QueuesCol ?f [] [] t of
              Inr d \<Rightarrow> (check_queue q d, t) | Inl _ \<Rightarrow> (Some (register_err (qp_Name q)), t))
            else (Some (register_err (qp_Name q)), t))"
        using assms(3) Inl True x by (simp add: register_one_def)
      have "s' = t \<and> (r = None \<longrightarrow> agreed (mv_db mv t QueuesCol) q) \<and>
          (\<forall>name. r = Some (ErrQueueConflict name) \<longrightarrow> name = qp_Name q \<and> conflicts (mv_db mv t QueuesCol) q)"
      proof (cases x)
        case None
        with body insert_agrees [OF env(1) x [unfolded None]] show ?thesis by simp
      next
        case (Some y)
        show ?thesis
        proof (cases "is_dup_key y")
          case True
          with body Some check_spec [OF ok] show ?thesis
            by (cases "dv_FindOne dr QueuesCol ?f [] [] t") (simp_all add: register_err_def mg_err_def)
        qed (use body Some in \<open>simp add: register_err_def mg_err_def\<close>)
      qed
      then show ?thesis using ok map_le_trans [OF env(2) le] by blast
    qed
  qed
  then show "mv_ok mv s'" "mv_db mv s QueuesCol \<subseteq>\<^sub>m mv_db mv s' QueuesCol"
    "r = None \<Longrightarrow> agreed (mv_db mv s' QueuesCol) q"
    "r = Some (ErrQueueConflict name) \<Longrightarrow> name = qp_Name q \<and> conflicts (mv_db mv s' QueuesCol) q"
    by blast+
qed

lemma register_all_spec:
  assumes "mv_ok mv s" "registers_only mv env" "register_all dr env now qs s = (r, s')"
  shows "mv_db mv s QueuesCol \<subseteq>\<^sub>m mv_db mv s' QueuesCol \<and>
    (r = None \<longrightarrow> (\<forall>q \<in> set qs. agreed (mv_db mv s' QueuesCol) q)) \<and>
    (\<forall>name. r = Some (ErrQueueConflict name) \<longrightarrow> (\<exists>q \<in> set qs. qp_Name q = name \<and> conflicts (mv_db mv s' QueuesCol) q))"
  using assms(1,3)
proof (induction qs arbitrary: s)
  case (Cons q qs)
  obtain x t where x: "register_one dr env now q s = (x, t)" by fastforce
  note one = register_one_spec [OF Cons.prems(1) assms(2) x]
  show ?case
  proof (cases x)
    case (Some e)
    with Cons.prems(2) x one show ?thesis by auto
  next
    case None
    with Cons.prems(2) x have "register_all dr env now qs t = (r, s')" by simp
    from Cons.IH [OF one(1) this] one(2) one(3) [OF None] show ?thesis
      by (auto intro: map_le_trans agreed_mono)
  qed
qed simp

end

text \<open>
  C27: the registry guards policies. However the registrations of managers interleave, a stored
  policy is never changed; \<open>RegisterQueues\<close> returns without error only when every declared queue is
  registered with the declared TTL (in milliseconds) and attempts, and reports a conflict only for a
  declared queue whose stored policy differs.
\<close>

theorem mongo_registry_guard:
  assumes "mongo dr mv" "mv_ok mv s" "registers_only mv env" "register_all dr env now qs s = (r, s')"
  shows "mv_db mv s QueuesCol \<subseteq>\<^sub>m mv_db mv s' QueuesCol \<and>
    (r = None \<longrightarrow> (\<forall>q \<in> set qs. agreed (mv_db mv s' QueuesCol) q)) \<and>
    (\<forall>name. r = Some (ErrQueueConflict name) \<longrightarrow> (\<exists>q \<in> set qs. qp_Name q = name \<and> conflicts (mv_db mv s' QueuesCol) q))"
  by (rule mongo.register_all_spec [OF assms])

definition demo_policies :: "queue_policy list" where
  "demo_policies = [\<lparr>qp_Name = ''q'', qp_TTL = millis 5, qp_MaxAttempts = 3\<rparr>, \<lparr>qp_Name = ''p'', qp_TTL = 0, qp_MaxAttempts = 1\<rparr>]"

lemma demo_registers: "fst (register_all ref_driver (\<lambda>s. s) 7 demo_policies ref_init) = None"
  by code_simp

lemma mongo_registry_guard_witness:
  "list_all (agreed (ref_table (rs_queues (snd (register_all ref_driver (\<lambda>s. s) 7 demo_policies ref_init))))) demo_policies"
proof -
  have "registers_only ref_view (\<lambda>s. s)" by (simp add: registers_only_def)
  moreover have "register_all ref_driver (\<lambda>s. s) 7 demo_policies ref_init =
      (None, snd (register_all ref_driver (\<lambda>s. s) 7 demo_policies ref_init))"
    using demo_registers by (simp add: prod_eq_iff)
  moreover have "mv_ok ref_view ref_init" using ref_fresh by (simp add: mongo_fresh_def)
  ultimately show ?thesis using mongo_registry_guard [OF ref.mongo_axioms] by (simp add: list_all_iff)
qed

end
