(* ===== verification/Mongo_Gauges.thy ===== *)
theory Mongo_Gauges
  imports Mongo_Runs
begin

text \<open>
  The metrics of the MongoDB store (\<open>stores/mongostore/metrics.go\<close>): one gauge per queue and window,
  whichever manager records it.
\<close>

section \<open>Gauges\<close>

definition gauge_key :: "string \<Rightarrow> gtime \<Rightarrow> bdoc \<Rightarrow> bool" where
  "gauge_key q w d \<longleftrightarrow> map_of d ''queue'' = Some (BStr q) \<and> map_of d ''window_start'' = Some (btime w) \<and>
     map_of d ''kind'' = Some (BStr ''gauges'') \<and> map_of d ''manager_id'' = Some (BStr [])"

definition count_of :: "table \<Rightarrow> string \<Rightarrow> status \<Rightarrow> int" where
  "count_of m q st = int (card {i. \<exists>d. m i = Some d \<and> map_of d ''queue'' = Some (BStr q) \<and>
     map_of d ''status'' = Some (BStr (status_str st))})"

definition gauge_exact :: "table \<Rightarrow> string \<Rightarrow> gtime \<Rightarrow> bdoc \<Rightarrow> bool" where
  "gauge_exact m q w d \<longleftrightarrow> gauge_key q w d \<and> (\<exists>g. md_decode d = Some g \<and> md_Pending g = count_of m q StatusPending \<and>
     md_Running g = count_of m q StatusRunning \<and> md_Done g = count_of m q StatusDone \<and> md_Dead g = count_of m q StatusDead)"

lemma md_marshal_lookups:
  "map_of (md_marshal t) ''_id'' = None" "map_of (md_marshal t) ''queue'' = Some (BStr (md_Queue t))"
  "map_of (md_marshal t) ''window_start'' = Some (btime (md_WindowStart t))"
  "map_of (md_marshal t) ''window_ms'' = Some (BInt (md_WindowMS t))"
  "map_of (md_marshal t) ''kind'' = Some (BStr (md_Kind t))" "map_of (md_marshal t) ''manager_id'' = Some (BStr (md_ManagerID t))"
  "map_of (md_marshal t) ''pending'' = (if md_Pending t = 0 then None else Some (BInt (md_Pending t)))"
  "map_of (md_marshal t) ''running'' = (if md_Running t = 0 then None else Some (BInt (md_Running t)))"
  "map_of (md_marshal t) ''done'' = (if md_Done t = 0 then None else Some (BInt (md_Done t)))"
  "map_of (md_marshal t) ''dead'' = (if md_Dead t = 0 then None else Some (BInt (md_Dead t)))"
  "map_of (md_marshal t) ''oldest_due_age_ms'' = (if md_OldestDueAgeMS t = 0 then None else Some (BInt (md_OldestDueAgeMS t)))"
  "map_of (md_marshal t) ''enqueued'' = (if md_Enqueued t = 0 then None else Some (BInt (md_Enqueued t)))"
  "map_of (md_marshal t) ''claimed'' = (if md_Claimed t = 0 then None else Some (BInt (md_Claimed t)))"
  "map_of (md_marshal t) ''c_done'' = (if md_CDone t = 0 then None else Some (BInt (md_CDone t)))"
  "map_of (md_marshal t) ''c_failed'' = (if md_CFailed t = 0 then None else Some (BInt (md_CFailed t)))"
  "map_of (md_marshal t) ''c_dead'' = (if md_CDead t = 0 then None else Some (BInt (md_CDead t)))"
  by (simp_all add: md_marshal_def map_add_def split: option.split)

lemma md_decode_iff: "md_decode d = Some t \<longleftrightarrow>
    get_str ''queue'' d = Some (md_Queue t) \<and> get_time ''window_start'' d = Some (md_WindowStart t) \<and>
    get_int ''window_ms'' d = Some (md_WindowMS t) \<and> get_str ''kind'' d = Some (md_Kind t) \<and>
    get_str ''manager_id'' d = Some (md_ManagerID t) \<and> get_int ''pending'' d = Some (md_Pending t) \<and>
    get_int ''running'' d = Some (md_Running t) \<and> get_int ''done'' d = Some (md_Done t) \<and>
    get_int ''dead'' d = Some (md_Dead t) \<and> get_int ''oldest_due_age_ms'' d = Some (md_OldestDueAgeMS t) \<and>
    get_int ''enqueued'' d = Some (md_Enqueued t) \<and> get_int ''claimed'' d = Some (md_Claimed t) \<and>
    get_int ''c_done'' d = Some (md_CDone t) \<and> get_int ''c_failed'' d = Some (md_CFailed t) \<and>
    get_int ''c_dead'' d = Some (md_CDead t)"
  unfolding md_decode_def by (cases t) (simp only: bind_eq_Some_conv option.inject metric_doc.ext_inject metric_doc.simps simp_thms, blast)

lemma md_decode_marshal:
  "md_decode ((''_id'', v) # md_marshal d) = Some (d\<lparr>md_WindowStart := bson_ms (md_WindowStart d)\<rparr>)"
  unfolding md_decode_iff by (intro conjI; simp add: get_field_def md_marshal_lookups btime_as)

lemma map_leD: "m \<subseteq>\<^sub>m n \<Longrightarrow> m i = Some d \<Longrightarrow> n i = Some d"
  by (auto simp: map_le_def dom_def)

lemma gauge_key_clash: "gauge_key q w d \<Longrightarrow> gauge_key q w e \<Longrightarrow> clash MetricsCol d e"
  by (simp add: gauge_key_def)

lemma clash_gauge_key: "gauge_key q w d \<Longrightarrow> clash MetricsCol d e \<Longrightarrow> gauge_key q w e"
  by (simp add: gauge_key_def)

context mongo begin

lemma count_status_spec:
  assumes "mv_ok mv s" "count_status dr q st s = Inr n"
  shows "n = count_of (mv_db mv s TasksCol) q st"
  using count [OF assms(1) assms(2) [unfolded count_status_def]] by (simp add: count_of_def hits_def)

lemma gauges_doc_spec:
  assumes "mv_ok mv s" "gauges_doc dr now q w iv s = Inr doc"
  shows "gauge_key q w (md_marshal doc) \<and> gauge_exact (mv_db mv s TasksCol) q w ((''_id'', v) # md_marshal doc)"
proof -
  obtain np nr nd nx age where n: "count_status dr q StatusPending s = Inr np" "count_status dr q StatusRunning s = Inr nr"
      "count_status dr q StatusDone s = Inr nd" "count_status dr q StatusDead s = Inr nx"
    and doc: "doc = (blank_metric q w iv ''gauges'' [])
        \<lparr>md_Pending := np, md_Running := nr, md_Done := nd, md_Dead := nx, md_OldestDueAgeMS := age\<rparr>"
    using assms(2) by (auto simp: gauges_doc_def split: sum.splits)
  have key: "gauge_key q w (md_marshal doc)" by (simp add: doc gauge_key_def md_marshal_def blank_metric_def)
  then have "gauge_key q w ((''_id'', v) # md_marshal doc)" by (simp add: gauge_key_def)
  with key n [THEN count_status_spec [OF assms(1)]] show ?thesis
    unfolding gauge_exact_def md_decode_marshal by (simp add: doc)
qed

lemma snapshot_spec:
  assumes "mv_ok mv s" "mg_SnapshotMetrics dr now qs w iv s = (None, s')"
  shows "mv_ok mv s' \<and> mv_db mv s' TasksCol = mv_db mv s TasksCol \<and> mv_db mv s MetricsCol \<subseteq>\<^sub>m mv_db mv s' MetricsCol \<and>
    (\<forall>q \<in> set qs. \<exists>i d. mv_db mv s' MetricsCol i = Some d \<and> gauge_key q w d) \<and>
    (\<forall>i d. mv_db mv s' MetricsCol i = Some d \<longrightarrow> mv_db mv s MetricsCol i = None \<longrightarrow>
      (\<exists>q \<in> set qs. gauge_exact (mv_db mv s TasksCol) q w d))"
  using assms
proof (induction qs arbitrary: s)
  case (Cons q qs)
  obtain doc where doc: "gauges_doc dr now q w iv s = Inr doc" using Cons.prems(2) by (auto split: sum.splits)
  obtain r s1 where r: "dv_InsertOne dr MetricsCol (md_marshal doc) s = (r, s1)" by fastforce
  have go: "mg_SnapshotMetrics dr now qs w iv s1 = (None, s')" and dup: "r = None \<or> is_dup_key (the r)"
    using Cons.prems(2) doc r by (auto split: option.splits if_splits)
  note law = insert_one [OF Cons.prems(1) r]
  have ok: "mv_ok mv s1" and db: "mv_db mv s1 TasksCol = mv_db mv s TasksCol" using law by (auto simp: writes_to_def)
  note key = conjunct1 [OF gauges_doc_spec [OF Cons.prems(1) doc]]
  have step: "mv_db mv s MetricsCol \<subseteq>\<^sub>m mv_db mv s1 MetricsCol \<and>
      (\<exists>i d. mv_db mv s1 MetricsCol i = Some d \<and> gauge_key q w d) \<and>
      (\<forall>i d. mv_db mv s1 MetricsCol i = Some d \<longrightarrow> mv_db mv s MetricsCol i = None \<longrightarrow>
        gauge_exact (mv_db mv s TasksCol) q w d)"
  proof (cases r)
    case None
    obtain e where "stored_doc (md_marshal doc) e \<and> (inserted [e] (mv_db mv s MetricsCol) (mv_db mv s1 MetricsCol) \<or>
        r \<noteq> None \<and> mv_db mv s1 MetricsCol = mv_db mv s MetricsCol)"
      using conjunct1 [OF conjunct2 [OF law]] by (elim exE) (rule that)
    with None have e: "stored_doc (md_marshal doc) e" "inserted [e] (mv_db mv s MetricsCol) (mv_db mv s1 MetricsCol)" by simp_all
    obtain v where v: "e = (''_id'', v) # md_marshal doc" using e(1) by (auto simp: stored_doc_def md_marshal_lookups(1))
    have exact: "gauge_exact (mv_db mv s TasksCol) q w e"
      using gauges_doc_spec [OF Cons.prems(1) doc, of v] unfolding v by blast
    have "mv_db mv s1 MetricsCol (doc_id e) = Some e" by (rule inserted_at [OF e(2)]) simp
    moreover have "i = doc_id e \<and> d = e" if "mv_db mv s1 MetricsCol i = Some d" "mv_db mv s MetricsCol i = None" for i d
      using that e(2) by (auto simp: inserted_def split: if_splits)
    moreover have "gauge_key q w e" using exact by (simp add: gauge_exact_def)
    moreover have "mv_db mv s MetricsCol \<subseteq>\<^sub>m mv_db mv s1 MetricsCol"
      unfolding map_le_def by (auto simp: inserted_keeps [OF e(2)])
    ultimately show ?thesis using exact by (intro conjI allI impI; blast?)
  next
    case (Some x)
    then have same: "mv_db mv s1 MetricsCol = mv_db mv s MetricsCol" and "taken MetricsCol (md_marshal doc) (mv_db mv s MetricsCol)"
      using law dup by simp_all
    then obtain i d where "mv_db mv s MetricsCol i = Some d" "clash MetricsCol (md_marshal doc) d"
      unfolding taken_def md_marshal_lookups(1) by blast
    with clash_gauge_key [OF key] have "mv_db mv s1 MetricsCol i = Some d \<and> gauge_key q w d" by (simp add: same)
    then show ?thesis by (auto simp: same)
  qed
  note IH = Cons.IH [OF ok go]
  have later: "\<exists>i d. mv_db mv s' MetricsCol i = Some d \<and> gauge_key q w d"
    using step map_leD [OF conjunct1 [OF conjunct2 [OF conjunct2 [OF IH]]]] by blast
  have new: "\<exists>p \<in> set (q # qs). gauge_exact (mv_db mv s TasksCol) p w d"
    if "mv_db mv s' MetricsCol i = Some d" "mv_db mv s MetricsCol i = None" for i d
  proof (cases "mv_db mv s1 MetricsCol i")
    case None
    with IH that(1) db show ?thesis by (metis list.set_intros(2))
  next
    case (Some d')
    then have "d' = d" using map_leD [OF conjunct1 [OF conjunct2 [OF conjunct2 [OF IH]]]] that(1) by fastforce
    with Some step that(2) show ?thesis by auto
  qed
  show ?case using IH db step later new by (auto intro: map_le_trans)
qed simp

end

text \<open>
  C33: one gauge per queue and window. After a snapshot the metrics collection holds exactly one gauge
  of each of its queues for the window, whoever recorded it first; nothing recorded before changed,
  and what the snapshot added states the exact numbers of tasks of the queue in each state.
\<close>

theorem mongo_gauge_once:
  assumes "mongo dr mv" "mv_ok mv s" "mg_SnapshotMetrics dr now qs w iv s = (None, s')"
  shows "mv_db mv s MetricsCol \<subseteq>\<^sub>m mv_db mv s' MetricsCol \<and>
    (\<forall>q \<in> set qs. \<exists>!i. \<exists>d. mv_db mv s' MetricsCol i = Some d \<and> gauge_key q w d) \<and>
    (\<forall>i d. mv_db mv s' MetricsCol i = Some d \<longrightarrow> mv_db mv s MetricsCol i = None \<longrightarrow>
      (\<exists>q \<in> set qs. gauge_exact (mv_db mv s TasksCol) q w d))"
proof -
  note sp = mongo.snapshot_spec [OF assms]
  have "i = j" if "mv_db mv s' MetricsCol i = Some d" "gauge_key q w d" "mv_db mv s' MetricsCol j = Some e" "gauge_key q w e" for i j d e q
    using mongo.unique [OF assms(1) conjunct1 [OF sp] that(1,3)] gauge_key_clash [OF that(2,4)] by blast
  then have "\<exists>!i. \<exists>d. mv_db mv s' MetricsCol i = Some d \<and> gauge_key q w d" if "q \<in> set qs" for q
    using sp that by blast
  with sp show ?thesis by blast
qed

lemma demo_snapshot: "fst (mg_SnapshotMetrics ref_driver 9 [''q'', ''p'', ''q''] 0 (seconds 10) (demo_ref demo_calls)) = None"
  by code_simp

lemma mongo_gauge_once_witness:
  "\<exists>!i. \<exists>d. ref_table (rs_metrics (snd (mg_SnapshotMetrics ref_driver 9 [''q'', ''p'', ''q''] 0 (seconds 10) (demo_ref demo_calls)))) i =
    Some d \<and> gauge_key ''q'' 0 d"
proof -
  let ?r = "mg_SnapshotMetrics ref_driver 9 [''q'', ''p'', ''q''] 0 (seconds 10) (demo_ref demo_calls)"
  obtain c where "msim ref_driver ref_view (demo_ref demo_calls) c"
    using mg_run_sim [OF ref_fresh demo_ok] unfolding demo_ref_def by blast
  then have "mv_ok ref_view (demo_ref demo_calls)" by (rule msim_ok)
  moreover have "?r = (None, snd ?r)" using demo_snapshot by (simp add: prod_eq_iff)
  ultimately have "\<forall>q \<in> set [''q'', ''p'', ''q'']. \<exists>!i. \<exists>d. mv_db ref_view (snd ?r) MetricsCol i = Some d \<and> gauge_key q 0 d"
    using mongo_gauge_once [OF ref.mongo_axioms] by blast
  then show ?thesis by simp
qed

end
