(* ===== verification/Mongo_Points.thy ===== *)
theory Mongo_Points
  imports Mongo_Gauges
begin

text \<open>
  Towards the metric series of the MongoDB store (\<open>stores/mongostore/introspection.go\<close>): the insertion
  sort of the points, the map by window they are merged in, and the form of the documents
  \<open>stores/mongostore/metrics.go\<close> writes.
\<close>

section \<open>The insertion sort\<close>

lemma sink_perm: "mset (sink p rs) = add_mset p (mset rs)"
  by (induction rs) auto

lemma sink_sorted:
  "sorted_wrt (\<lambda>p q. mp_WindowStart q \<le> mp_WindowStart p) rs \<Longrightarrow>
    sorted_wrt (\<lambda>p q. mp_WindowStart q \<le> mp_WindowStart p) (sink p rs)"
proof (induction rs)
  case (Cons q rs)
  have "set (sink p rs) = insert p (set rs)" using arg_cong [OF sink_perm, of set_mset p rs] by simp
  with Cons show ?case by force
qed simp

lemma sortMetricPoints_spec:
  "mset (sortMetricPoints ps) = mset ps" "sorted (map mp_WindowStart (sortMetricPoints ps))"
proof -
  have "mset (fold sink ps rs) = mset ps + mset rs \<and>
      sorted_wrt (\<lambda>p q. mp_WindowStart q \<le> mp_WindowStart p) (fold sink ps rs)"
    if "sorted_wrt (\<lambda>p q. mp_WindowStart q \<le> mp_WindowStart p) rs" for rs
    using that by (induction ps arbitrary: rs) (simp_all add: sink_perm sink_sorted)
  from this [of "[]"] show "mset (sortMetricPoints ps) = mset ps" "sorted (map mp_WindowStart (sortMetricPoints ps))"
    by (simp_all add: sortMetricPoints_def sorted_wrt_rev sorted_wrt_map)
qed

section \<open>The map by window\<close>

lemma fold_at_point:
  assumes "distinct (map key xs)"
  shows "map_of (fold (\<lambda>x. at_point (key x) (f x)) xs m) w = (case map_of (map (\<lambda>x. (key x, x)) xs) w of
      None \<Rightarrow> map_of m w
    | Some x \<Rightarrow> Some (f x (case map_of m w of Some p \<Rightarrow> p | None \<Rightarrow> new_point w)))"
  using assms
proof (induction xs arbitrary: m)
  case (Cons x xs)
  then have "map_of (map (\<lambda>x. (key x, x)) xs) (key x) = None" by (auto simp: map_of_eq_None_iff)
  with Cons show ?case by (auto simp: at_point_def update_conv' split: option.split)
qed simp

definition windowed :: "by_window \<Rightarrow> bool" where
  "windowed m \<longleftrightarrow> distinct (map fst m) \<and> (\<forall>(w, p) \<in> set m. mp_WindowStart p = w)"

lemma fold_windowed:
  assumes "windowed m" "\<And>x p. mp_WindowStart (f x p) = mp_WindowStart p"
  shows "windowed (fold (\<lambda>x. at_point (key x) (f x)) xs m)"
  using assms(1)
proof (induction xs arbitrary: m)
  case (Cons x xs)
  have "windowed (at_point (key x) (f x) m)"
    unfolding windowed_def
  proof
    show "distinct (map fst (at_point (key x) (f x) m))"
      using Cons.prems by (simp add: windowed_def at_point_def distinct_update)
    then have "map_of (at_point (key x) (f x) m) w = Some p" if "(w, p) \<in> set (at_point (key x) (f x) m)" for w p
      using that by (rule map_of_is_SomeI)
    then have "mp_WindowStart p = w" if "(w, p) \<in> set (at_point (key x) (f x) m)" for w p
      using that Cons.prems assms(2)
      by (fastforce simp: at_point_def update_conv' windowed_def new_point_def dest: map_of_SomeD split: option.splits if_splits)
    then show "\<forall>(w, p) \<in> set (at_point (key x) (f x) m). mp_WindowStart p = w" by blast
  qed
  then show ?case using Cons.IH by simp
qed simp

lemma windowed_points:
  assumes "windowed m"
  shows "distinct (map mp_WindowStart (map snd m))" "p \<in> set (map snd m) \<longleftrightarrow> map_of m (mp_WindowStart p) = Some p"
    "set (map mp_WindowStart (map snd m)) = dom (map_of m)"
proof -
  have same: "map mp_WindowStart (map snd m) = map fst m" using assms by (auto simp: windowed_def)
  then show "distinct (map mp_WindowStart (map snd m))" using assms unfolding windowed_def by metis
  show "set (map mp_WindowStart (map snd m)) = dom (map_of m)" unfolding same by (simp add: dom_map_of_conv_image_fst)
  have "map_of m w = Some p \<longleftrightarrow> (w, p) \<in> set m" for w p using assms by (simp add: windowed_def)
  then show "p \<in> set (map snd m) \<longleftrightarrow> map_of m (mp_WindowStart p) = Some p" using assms by (force simp: windowed_def)
qed

section \<open>Typed metrics\<close>

text \<open>What the store writes: gauges and counters, gauges without a manager.\<close>

definition metric_written :: "metric_doc \<Rightarrow> bool" where
  "metric_written g \<longleftrightarrow> (md_Kind g = ''gauges'' \<longrightarrow> md_ManagerID g = [])"

definition metrics_typed :: "table \<Rightarrow> bool" where
  "metrics_typed m \<longleftrightarrow> (\<forall>i d. m i = Some d \<longrightarrow> (\<exists>g v. d = (''_id'', v) # md_marshal g \<and> metric_written g))"

lemma metrics_typedE:
  assumes "metrics_typed m" "m i = Some d"
  obtains g v where "d = (''_id'', v) # md_marshal g" "metric_written g"
  using assms unfolding metrics_typed_def by blast

lemma typed_inserted:
  assumes "metrics_typed m" "inserted es m m'" "\<forall>e \<in> set es. \<exists>g. metric_written g \<and> stored_doc (md_marshal g) e"
  shows "metrics_typed m'"
  unfolding metrics_typed_def
proof (intro allI impI)
  fix i d assume "m' i = Some d"
  then consider "m i = Some d" | "d \<in> set es" using assms(2)
    by (auto simp: inserted_def map_add_Some_iff dest!: map_of_SomeD)
  then show "\<exists>g v. d = (''_id'', v) # md_marshal g \<and> metric_written g"
  proof cases
    case 1
    with assms(1) show ?thesis by (simp add: metrics_typed_def)
  next
    case 2
    then obtain g where "metric_written g" "stored_doc (md_marshal g) d" using assms(3) by blast
    then show ?thesis by (auto simp: stored_doc_def md_marshal_lookups(1))
  qed
qed

context mongo begin

lemma insert_one_typed:
  assumes "mv_ok mv s" "metrics_typed (mv_db mv s MetricsCol)" "metric_written g"
    and ins: "dv_InsertOne dr MetricsCol (md_marshal g) s = (r, s')"
  shows "mv_ok mv s' \<and> metrics_typed (mv_db mv s' MetricsCol)"
proof -
  note law = insert_one [OF assms(1) ins]
  obtain e where "stored_doc (md_marshal g) e \<and> (inserted [e] (mv_db mv s MetricsCol) (mv_db mv s' MetricsCol) \<or>
      r \<noteq> None \<and> mv_db mv s' MetricsCol = mv_db mv s MetricsCol)"
    using conjunct1 [OF conjunct2 [OF law]] by (elim exE) (rule that)
  then have "metrics_typed (mv_db mv s' MetricsCol)" using typed_inserted [OF assms(2)] assms(2,3) by fastforce
  with conjunct1 [OF law] show ?thesis by (simp add: writes_to_def)
qed

lemma insert_many_typed:
  assumes "mv_ok mv s" "metrics_typed (mv_db mv s MetricsCol)" "\<forall>g \<in> set gs. metric_written g"
    and ins: "dv_InsertMany dr MetricsCol (map md_marshal gs) s = (r, s')"
  shows "mv_ok mv s' \<and> metrics_typed (mv_db mv s' MetricsCol)"
proof -
  note law = insert_many [OF assms(1) ins]
  obtain es J where "list_all2 stored_doc (map md_marshal gs) es \<and> J \<subseteq> {..<length (map md_marshal gs)} \<and>
      inserted (nths es J) (mv_db mv s MetricsCol) (mv_db mv s' MetricsCol) \<and> (r = None \<longrightarrow> J = {..<length (map md_marshal gs)}) \<and>
      (\<forall>ws. r = Some (BulkWriteErrors ws) \<longrightarrow> ws \<noteq> [] \<longrightarrow> distinct (map fst ws) \<and>
          fst ` set ws = {..<length (map md_marshal gs)} - J \<and>
          (\<forall>j msg. (j, 11000, msg) \<in> set ws \<longrightarrow> taken MetricsCol (es ! j) (mv_db mv s' MetricsCol)))"
    using conjunct2 [OF law] by (elim exE) (rule that)
  then have es: "list_all2 stored_doc (map md_marshal gs) es" "inserted (nths es J) (mv_db mv s MetricsCol) (mv_db mv s' MetricsCol)"
    by blast+
  have "\<exists>g. metric_written g \<and> stored_doc (md_marshal g) e" if "e \<in> set (nths es J)" for e
  proof -
    have "e \<in> set es" using that notin_set_nthsI by fastforce
    then obtain j where "j < length es" "e = es ! j" by (metis in_set_conv_nth)
    with es(1) assms(3) show ?thesis by (auto simp: list_all2_conv_all_nth intro!: exI [of _ "gs ! j"])
  qed
  then have "metrics_typed (mv_db mv s' MetricsCol)" using typed_inserted [OF assms(2) es(2)] by blast
  with conjunct1 [OF law] show ?thesis by (simp add: writes_to_def)
qed

lemma snapshot_typed:
  assumes "mv_ok mv s" "metrics_typed (mv_db mv s MetricsCol)" "mg_SnapshotMetrics dr now qs w iv s = (r, s')"
  shows "mv_ok mv s' \<and> metrics_typed (mv_db mv s' MetricsCol)"
  using assms
proof (induction qs arbitrary: s)
  case (Cons q qs)
  show ?case
  proof (cases "gauges_doc dr now q w iv s")
    case (Inl e)
    with Cons.prems show ?thesis by simp
  next
    case (Inr g)
    obtain x s1 where x: "dv_InsertOne dr MetricsCol (md_marshal g) s = (x, s1)" by fastforce
    have "metric_written g" using Inr
      by (auto simp: gauges_doc_def metric_written_def blank_metric_def split: sum.splits)
    note s1 = insert_one_typed [OF Cons.prems(1,2) this x]
    show ?thesis
    proof (cases "x = None \<or> is_dup_key (the x)")
      case True
      with Cons.prems(3) Inr x have "mg_SnapshotMetrics dr now qs w iv s1 = (r, s')" by (auto split: option.splits)
      with s1 show ?thesis by (intro Cons.IH) simp_all
    next
      case False
      with Cons.prems(3) Inr x s1 show ?thesis by (auto split: option.splits)
    qed
  qed
qed simp

lemma record_typed:
  assumes "mv_ok mv s" "metrics_typed (mv_db mv s MetricsCol)" "mg_RecordCounters dr mid w iv cs s = (r, s')"
  shows "mv_ok mv s' \<and> metrics_typed (mv_db mv s' MetricsCol)"
proof (cases "cs = []")
  case True
  with assms show ?thesis by (simp add: mg_RecordCounters_def)
next
  case False
  let ?gs = "map (counters_doc mid w iv) cs"
  obtain x where x: "dv_InsertMany dr MetricsCol (map md_marshal ?gs) s = (x, s')"
    using assms(3) False by (auto simp: mg_RecordCounters_def split: option.splits prod.splits)
  have "\<forall>g \<in> set ?gs. metric_written g"
    by (auto simp: metric_written_def counters_doc_def blank_metric_def)
  from insert_many_typed [OF assms(1,2) this x] show ?thesis .
qed

end

datatype metric_call =
    MSnapshot gtime "string list" gtime duration
  | MRecord string gtime duration "queue_counters amap"

fun metric_step :: "'s driver \<Rightarrow> metric_call \<Rightarrow> 's \<Rightarrow> 's" where
  "metric_step dr (MSnapshot now qs w iv) s = snd (mg_SnapshotMetrics dr now qs w iv s)"
| "metric_step dr (MRecord mid w iv cs) s = snd (mg_RecordCounters dr mid w iv cs s)"

end
