(* ===== verification/Mongo_Series.thy ===== *)
theory Mongo_Series
  imports Mongo_Points
begin

text \<open>
  The metric series of the MongoDB store (\<open>stores/mongostore/introspection.go\<close>): \<open>MetricsSeries\<close>
  returns the gauges and the summed counters of a queue by window, in order.
\<close>

section \<open>What a series holds\<close>

definition metric_at :: "table \<Rightarrow> bval \<Rightarrow> metric_doc" where
  "metric_at m i = the (md_decode (the (m i)))"

text \<open>The metrics of a queue and a kind for one window, and the sum of a field of them.\<close>

definition recorded :: "table \<Rightarrow> string \<Rightarrow> string \<Rightarrow> gtime \<Rightarrow> bval set" where
  "recorded m q kind w = {i. m i \<noteq> None \<and> md_Queue (metric_at m i) = q \<and> md_Kind (metric_at m i) = kind \<and>
     md_WindowStart (metric_at m i) = w}"

definition total :: "table \<Rightarrow> string \<Rightarrow> string \<Rightarrow> gtime \<Rightarrow> (metric_doc \<Rightarrow> int) \<Rightarrow> int" where
  "total m q kind w f = (\<Sum>i \<in> recorded m q kind w. f (metric_at m i))"

lemma typed_lookups:
  assumes "metrics_typed m" "m i = Some d"
  shows "map_of d ''queue'' = Some (BStr (md_Queue (metric_at m i)))"
    "map_of d ''kind'' = Some (BStr (md_Kind (metric_at m i)))"
    "map_of d ''window_start'' = Some (BTime (md_WindowStart (metric_at m i)))"
    "map_of d ''manager_id'' = Some (BStr (md_ManagerID (metric_at m i)))"
    "md_Kind (metric_at m i) = ''gauges'' \<Longrightarrow> md_ManagerID (metric_at m i) = []"
    "md_decode d = Some (metric_at m i)"
proof -
  obtain g v where d: "d = (''_id'', v) # md_marshal g" "metric_written g" by (rule metrics_typedE [OF assms])
  then have at: "metric_at m i = g\<lparr>md_WindowStart := bson_ms (md_WindowStart g)\<rparr>"
    using assms(2) by (simp add: metric_at_def md_decode_marshal)
  show "md_decode d = Some (metric_at m i)" by (simp add: at d(1) md_decode_marshal)
  show "map_of d ''queue'' = Some (BStr (md_Queue (metric_at m i)))"
    "map_of d ''kind'' = Some (BStr (md_Kind (metric_at m i)))"
    "map_of d ''window_start'' = Some (BTime (md_WindowStart (metric_at m i)))"
    "map_of d ''manager_id'' = Some (BStr (md_ManagerID (metric_at m i)))"
    "md_Kind (metric_at m i) = ''gauges'' \<Longrightarrow> md_ManagerID (metric_at m i) = []"
    using d(2) by (simp_all add: at d(1) md_marshal_lookups btime_def metric_written_def)
qed

lemma typed_counter:
  assumes "metrics_typed m" "m i = Some d"
    and "(k, f) \<in> {(''enqueued'', md_Enqueued), (''claimed'', md_Claimed), (''c_done'', md_CDone), (''c_failed'', md_CFailed), (''c_dead'', md_CDead)}"
  shows "(case map_of d k of Some (BInt n) \<Rightarrow> n | _ \<Rightarrow> 0) = f (metric_at m i)"
proof -
  obtain g v where d: "d = (''_id'', v) # md_marshal g" by (rule metrics_typedE [OF assms(1,2)])
  then have at: "metric_at m i = g\<lparr>md_WindowStart := bson_ms (md_WindowStart g)\<rparr>"
    using assms(2) by (simp add: metric_at_def md_decode_marshal)
  show ?thesis using assms(3)
    by (elim insertE emptyE Pair_inject; hypsubst) (simp_all add: at d md_marshal_lookups)
qed

lemma series_match:
  assumes "metrics_typed m" "m i = Some d"
  shows "fmatch (series_filter q kind start) d \<longleftrightarrow>
    i \<in> recorded m q kind (md_WindowStart (metric_at m i)) \<and> bson_ms start \<le> md_WindowStart (metric_at m i)"
  using typed_lookups [OF assms] assms(2) by (simp add: series_filter_def recorded_def btime_def)

lemma series_mem:
  assumes "\<forall>i d. m i = Some d \<longrightarrow> map_of d ''_id'' = Some i" "listing f srt m all"
  shows "d \<in> set all \<longleftrightarrow> m (doc_id d) = Some d \<and> fmatch f d"
proof -
  have "d \<in> set all \<longleftrightarrow> (\<exists>i. m i = Some d \<and> fmatch f d)" using assms(2) by (simp add: listing_def)
  moreover have "doc_id d = i" if "m i = Some d" for i using assms(1) that by (simp add: doc_id_def)
  ultimately show ?thesis by blast
qed

lemma series_listing:
  assumes "metrics_typed m" "\<forall>i d. m i = Some d \<longrightarrow> map_of d ''_id'' = Some i"
    and "listing (series_filter q kind start) srt m all"
  shows "d \<in> set all \<Longrightarrow> m (doc_id d) = Some d"
    "d \<in> set all \<Longrightarrow> bson_ms start \<le> md_WindowStart (metric_at m (doc_id d)) \<and>
       doc_id d \<in> recorded m q kind (md_WindowStart (metric_at m (doc_id d)))"
    "bson_ms start \<le> w \<Longrightarrow> doc_id ` {d \<in> set all. md_WindowStart (metric_at m (doc_id d)) = w} = recorded m q kind w"
proof -
  note mem = series_mem [OF assms(2,3)]
  show m: "m (doc_id d) = Some d" if "d \<in> set all" for d using mem that by blast
  show r: "bson_ms start \<le> md_WindowStart (metric_at m (doc_id d)) \<and>
       doc_id d \<in> recorded m q kind (md_WindowStart (metric_at m (doc_id d)))" if "d \<in> set all" for d
    using mem [of d] that series_match [OF assms(1) m [OF that]] by blast
  have "\<exists>d. i = doc_id d \<and> d \<in> set all \<and> md_WindowStart (metric_at m (doc_id d)) = w"
    if w: "bson_ms start \<le> w" and i: "i \<in> recorded m q kind w" for i
  proof -
    obtain d where d: "m i = Some d" and at: "md_WindowStart (metric_at m i) = w"
      using i unfolding recorded_def by blast
    have "doc_id d = i" using assms(2) d by (simp add: doc_id_def)
    moreover have "fmatch (series_filter q kind start) d" using series_match [OF assms(1) d] i w at by simp
    ultimately show ?thesis using mem [of d] d at by blast
  qed
  with r show "doc_id ` {d \<in> set all. md_WindowStart (metric_at m (doc_id d)) = w} = recorded m q kind w"
    if "bson_ms start \<le> w" using that by blast
qed

text \<open>The sums of a group of the aggregation.\<close>

lemma group_total:
  assumes "metrics_typed m" "\<forall>i d. m i = Some d \<longrightarrow> map_of d ''_id'' = Some i"
    and "listing (series_filter q kind start) srt m all" "bson_ms start \<le> w"
    and "(k, f) \<in> {(''enqueued'', md_Enqueued), (''claimed'', md_Claimed), (''c_done'', md_CDone), (''c_failed'', md_CFailed), (''c_dead'', md_CDead)}"
  shows "sum_field k (filter (\<lambda>e. or_null (map_of e ''window_start'') = BTime w) all) = total m q kind w f"
proof -
  note sl = series_listing [OF assms(1-3)]
  let ?val = "\<lambda>d. case map_of d k of Some (BInt n) \<Rightarrow> n | _ \<Rightarrow> 0"
  let ?D = "{d \<in> set all. md_WindowStart (metric_at m (doc_id d)) = w}"
  have D: "set (filter (\<lambda>e. or_null (map_of e ''window_start'') = BTime w) all) = ?D"
    using typed_lookups(3) [OF assms(1) sl(1)] by auto
  have inj: "inj_on doc_id (set all)" and "distinct all" using assms(3) unfolding listing_def distinct_map by blast+
  then have "sum_field k (filter (\<lambda>e. or_null (map_of e ''window_start'') = BTime w) all) = sum ?val ?D"
    unfolding sum_field_def D [symmetric] by (intro sum_list_distinct_conv_sum_set) simp
  also have "\<dots> = sum (\<lambda>d. f (metric_at m (doc_id d))) ?D"
    using typed_counter [OF assms(1) sl(1) assms(5)] by (intro sum.cong) auto
  also have "\<dots> = total m q kind w f"
    unfolding total_def sl(3) [OF assms(4), symmetric]
    by (rule sum.reindex [symmetric, unfolded comp_def]) (rule inj_on_subset [OF inj], blast)
  finally show ?thesis .
qed

lemma those_Some: "those xs = Some ys \<Longrightarrow> xs = map Some ys"
  by (induction xs arbitrary: ys) (auto split: option.splits)

section \<open>The series\<close>

definition set_gauges :: "metric_doc \<Rightarrow> metric_point \<Rightarrow> metric_point" where
  "set_gauges g p = p\<lparr>mp_Pending := md_Pending g, mp_Running := md_Running g, mp_Done := md_Done g,
     mp_Dead := md_Dead g, mp_OldestDueAgeMS := md_OldestDueAgeMS g\<rparr>"

definition set_sums :: "counter_sums \<Rightarrow> metric_point \<Rightarrow> metric_point" where
  "set_sums c p = p\<lparr>mp_Enqueued := cs_Enqueued c, mp_Claimed := cs_Claimed c, mp_CDone := cs_CDone c,
     mp_CFailed := cs_CFailed c, mp_CDead := cs_CDead c\<rparr>"

lemma put_points:
  "put_gauges = (\<lambda>g. at_point (md_WindowStart g) (set_gauges g))" "put_sums = (\<lambda>c. at_point (cs_Window c) (set_sums c))"
  by (simp_all add: fun_eq_iff put_gauges_def put_sums_def set_gauges_def [abs_def] set_sums_def [abs_def])

text \<open>A point is exact when its gauges are the one gauge of its window and its counters the sums.\<close>

definition point_exact :: "table \<Rightarrow> string \<Rightarrow> metric_point \<Rightarrow> bool" where
  "point_exact m q p \<longleftrightarrow> (let g = total m q ''gauges'' (mp_WindowStart p); c = total m q ''counters'' (mp_WindowStart p) in
     mp_Pending p = g md_Pending \<and> mp_Running p = g md_Running \<and> mp_Done p = g md_Done \<and> mp_Dead p = g md_Dead \<and>
     mp_OldestDueAgeMS p = g md_OldestDueAgeMS \<and>
     mp_Enqueued p = c md_Enqueued \<and> mp_Claimed p = c md_Claimed \<and> mp_CDone p = c md_CDone \<and>
     mp_CFailed p = c md_CFailed \<and> mp_CDead p = c md_CDead)"

text \<open>What the two searches bring: for each window its gauge, if any, and its sums, if any.\<close>

definition gauges_found :: "table \<Rightarrow> string \<Rightarrow> gtime \<Rightarrow> metric_doc list \<Rightarrow> bool" where
  "gauges_found m q start gs \<longleftrightarrow> distinct (map md_WindowStart gs) \<and>
     (\<forall>g \<in> set gs. bson_ms start \<le> md_WindowStart g \<and> (\<exists>i. recorded m q ''gauges'' (md_WindowStart g) = {i} \<and> metric_at m i = g)) \<and>
     (\<forall>w. bson_ms start \<le> w \<longrightarrow> recorded m q ''gauges'' w \<noteq> {} \<longrightarrow> w \<in> md_WindowStart ` set gs)"

definition sums_found :: "table \<Rightarrow> string \<Rightarrow> gtime \<Rightarrow> counter_sums list \<Rightarrow> bool" where
  "sums_found m q start cs \<longleftrightarrow> distinct (map cs_Window cs) \<and>
     (\<forall>c \<in> set cs. bson_ms start \<le> cs_Window c \<and> recorded m q ''counters'' (cs_Window c) \<noteq> {} \<and>
        (let t = total m q ''counters'' (cs_Window c) in cs_Enqueued c = t md_Enqueued \<and> cs_Claimed c = t md_Claimed \<and>
           cs_CDone c = t md_CDone \<and> cs_CFailed c = t md_CFailed \<and> cs_CDead c = t md_CDead)) \<and>
     (\<forall>w. bson_ms start \<le> w \<longrightarrow> recorded m q ''counters'' w \<noteq> {} \<longrightarrow> w \<in> cs_Window ` set cs)"

text \<open>The merge of what the two searches bring.\<close>

lemma map_of_keyed:
  "distinct (map key xs) \<Longrightarrow> map_of (map (\<lambda>x. (key x, x)) xs) w = Some x \<longleftrightarrow> x \<in> set xs \<and> key x = w"
  "map_of (map (\<lambda>x. (key x, x)) xs) w = None \<longleftrightarrow> w \<notin> key ` set xs"
  by (subst map_of_eq_Some_iff) (auto simp: comp_def map_of_eq_None_iff image_image)

lemma total_none: "recorded m q k w = {} \<Longrightarrow> total m q k w f = 0"
  by (simp add: total_def)

text \<open>The gauges of a point: those of the window's only gauge document, or zeros.\<close>

abbreviation gauge_point :: "metric_doc list \<Rightarrow> gtime \<Rightarrow> metric_point" where
  "gauge_point gs w \<equiv> (case map_of (map (\<lambda>x. (md_WindowStart x, x)) gs) w of
     None \<Rightarrow> new_point w | Some g \<Rightarrow> set_gauges g (new_point w))"

lemma gauges_exact:
  assumes "gauges_found m q start gs" "bson_ms start \<le> w"
  shows "mp_Pending (gauge_point gs w) = total m q ''gauges'' w md_Pending \<and>
    mp_Running (gauge_point gs w) = total m q ''gauges'' w md_Running \<and>
    mp_Done (gauge_point gs w) = total m q ''gauges'' w md_Done \<and> mp_Dead (gauge_point gs w) = total m q ''gauges'' w md_Dead \<and>
    mp_OldestDueAgeMS (gauge_point gs w) = total m q ''gauges'' w md_OldestDueAgeMS"
proof -
  have dg: "distinct (map md_WindowStart gs)" using assms(1) by (simp add: gauges_found_def)
  have ig: "w \<in> md_WindowStart ` set gs \<longleftrightarrow> bson_ms start \<le> w \<and> recorded m q ''gauges'' w \<noteq> {}"
    using assms(1) unfolding gauges_found_def by (elim conjE) blast
  show ?thesis
  proof (cases "map_of (map (\<lambda>x. (md_WindowStart x, x)) gs) w")
    case None
    then have "recorded m q ''gauges'' w = {}" using map_of_keyed(2) [of md_WindowStart gs w] ig assms(2) by blast
    then show ?thesis using None by (simp add: total_none new_point_def)
  next
    case (Some g)
    then have "g \<in> set gs" "md_WindowStart g = w" using map_of_keyed(1) [OF dg] by blast+
    then obtain i where "recorded m q ''gauges'' w = {i}" "metric_at m i = g"
      using assms(1) unfolding gauges_found_def by blast
    then show ?thesis using Some by (simp add: total_def set_gauges_def)
  qed
qed

lemma merge_exact:
  assumes "gauges_found m q start gs" "sums_found m q start cs"
    and M: "M = fold put_sums cs (fold put_gauges gs [])"
  shows "windowed M" "dom (map_of M) = {w. bson_ms start \<le> w \<and> (recorded m q ''gauges'' w \<noteq> {} \<or> recorded m q ''counters'' w \<noteq> {})}"
    "map_of M w = Some p \<Longrightarrow> point_exact m q p"
proof -
  have dg: "distinct (map md_WindowStart gs)" and dc: "distinct (map cs_Window cs)"
    using assms(1,2) by (simp_all add: gauges_found_def sums_found_def)
  have "windowed []" by (simp add: windowed_def)
  then show wm: "windowed M" unfolding M put_points
    by (intro fold_windowed) (simp_all add: set_gauges_def set_sums_def)
  let ?g = "map_of (map (\<lambda>x. (md_WindowStart x, x)) gs)" and ?c = "map_of (map (\<lambda>x. (cs_Window x, x)) cs)"
  have L: "map_of M w = (case ?c w of
      None \<Rightarrow> map_option (\<lambda>g. set_gauges g (new_point w)) (?g w)
    | Some c \<Rightarrow> Some (set_sums c (case ?g w of None \<Rightarrow> new_point w | Some g \<Rightarrow> set_gauges g (new_point w))))" for w
    unfolding M put_points fold_at_point [OF dc] fold_at_point [OF dg] by (simp split: option.split)
  have dom: "map_of M w \<noteq> None \<longleftrightarrow> w \<in> md_WindowStart ` set gs \<or> w \<in> cs_Window ` set cs" for w
    unfolding L using map_of_keyed(2) [of md_WindowStart gs w] map_of_keyed(2) [of cs_Window cs w]
    by (auto split: option.splits)
  have ig: "w \<in> md_WindowStart ` set gs \<longleftrightarrow> bson_ms start \<le> w \<and> recorded m q ''gauges'' w \<noteq> {}" for w
    using assms(1) unfolding gauges_found_def by (elim conjE) blast
  have ic: "w \<in> cs_Window ` set cs \<longleftrightarrow> bson_ms start \<le> w \<and> recorded m q ''counters'' w \<noteq> {}" for w
    using assms(2) unfolding sums_found_def by (elim conjE) blast
  show "dom (map_of M) = {w. bson_ms start \<le> w \<and> (recorded m q ''gauges'' w \<noteq> {} \<or> recorded m q ''counters'' w \<noteq> {})}"
  proof (rule set_eqI)
    fix w show "w \<in> dom (map_of M) \<longleftrightarrow> w \<in> {w. bson_ms start \<le> w \<and> (recorded m q ''gauges'' w \<noteq> {} \<or> recorded m q ''counters'' w \<noteq> {})}"
      using dom [of w] ig [of w] ic [of w] unfolding domIff mem_Collect_eq by blast
  qed
  assume p: "map_of M w = Some p"
  then have w: "mp_WindowStart p = w" using wm by (auto simp: windowed_def dest: map_of_SomeD)
  have start: "bson_ms start \<le> w" using dom [of w] ig [of w] ic [of w] p by blast
  note G = gauges_exact [OF assms(1) start]
  show "point_exact m q p"
  proof (cases "?c w")
    case None
    then have "recorded m q ''counters'' w = {}" using map_of_keyed(2) [of cs_Window cs w] ic start by blast
    moreover obtain g where g: "?g w = Some g" "p = set_gauges g (new_point w)" using p None unfolding L by (auto split: option.splits)
    moreover have "gauge_point gs w = p" using g by simp
    moreover note G
    ultimately show ?thesis
      by (simp add: point_exact_def Let_def total_none set_gauges_def new_point_def)
  next
    case (Some c)
    have c: "c \<in> set cs" "cs_Window c = w" using map_of_keyed(1) [OF dc] Some by blast+
    have t: "let t = total m q ''counters'' w in cs_Enqueued c = t md_Enqueued \<and> cs_Claimed c = t md_Claimed \<and>
        cs_CDone c = t md_CDone \<and> cs_CFailed c = t md_CFailed \<and> cs_CDead c = t md_CDead"
      using assms(2) c unfolding sums_found_def by blast
    have "p = set_sums c (gauge_point gs w)" using p Some unfolding L by simp
    moreover note G
    ultimately show ?thesis unfolding point_exact_def w using t by (simp add: Let_def set_sums_def)
  qed
qed

lemma map_through:
  assumes "map f ds = map Some cs" "\<And>d c. d \<in> set ds \<Longrightarrow> f d = Some c \<Longrightarrow> g d = h c"
  shows "map g ds = map h cs"
  using assms by (induction ds arbitrary: cs) auto

lemma cs_decode_iff: "cs_decode d = Some c \<longleftrightarrow>
    get_time ''_id'' d = Some (cs_Window c) \<and> get_int ''enqueued'' d = Some (cs_Enqueued c) \<and>
    get_int ''claimed'' d = Some (cs_Claimed c) \<and> get_int ''c_done'' d = Some (cs_CDone c) \<and>
    get_int ''c_failed'' d = Some (cs_CFailed c) \<and> get_int ''c_dead'' d = Some (cs_CDead c)"
  by (cases c) (auto simp: cs_decode_def bind_eq_Some_conv)

context mongo begin

lemma ids_of: "mv_ok mv s \<Longrightarrow> \<forall>i d. mv_db mv s c i = Some d \<longrightarrow> map_of d ''_id'' = Some i"
  using view by blast

lemma one_gauge:
  assumes "mv_ok mv s" "metrics_typed (mv_db mv s MetricsCol)"
    and "i \<in> recorded (mv_db mv s MetricsCol) q ''gauges'' w" "j \<in> recorded (mv_db mv s MetricsCol) q ''gauges'' w"
  shows "i = j"
proof -
  obtain d e where d: "mv_db mv s MetricsCol i = Some d" and e: "mv_db mv s MetricsCol j = Some e"
    using assms(3,4) unfolding recorded_def by blast
  have "clash MetricsCol d e"
    using typed_lookups(1-5) [OF assms(2) d] typed_lookups(1-5) [OF assms(2) e] assms(3,4) by (simp add: recorded_def)
  then show ?thesis by (rule unique [OF assms(1) d e])
qed

lemma gauges_read:
  assumes "mv_ok mv s" "metrics_typed (mv_db mv s MetricsCol)"
    and find: "dv_Find dr MetricsCol (series_filter q ''gauges'' start) [] None [] s = Inr ds"
    and dec: "those (map md_decode ds) = Some gs"
  shows "gauges_found (mv_db mv s MetricsCol) q start gs"
proof -
  let ?m = "mv_db mv s MetricsCol" and ?at = "\<lambda>d. metric_at (mv_db mv s MetricsCol) (doc_id d)"
  obtain all where all: "listing (series_filter q ''gauges'' start) [] ?m all" "ds = map (project []) (limited None all)"
    using find_docs [OF assms(1) find] by (elim exE conjE) (rule that)
  then have ds: "ds = all" by (simp add: limited_def project_def map_idI)
  note sl = series_listing [OF assms(2) ids_of [OF assms(1)] all(1)]
  have "map ?at ds = map (\<lambda>g. g) gs"
  proof (rule map_through [OF those_Some [OF dec]])
    fix d g assume d: "d \<in> set ds" "md_decode d = Some g"
    with typed_lookups(6) [OF assms(2) sl(1)] show "?at d = g" unfolding ds by simp
  qed
  then have gs: "gs = map ?at all" by (simp add: ds)
  have "inj_on (\<lambda>d. md_WindowStart (?at d)) (set all)"
  proof (rule inj_onI)
    fix d e assume d: "d \<in> set all" and e: "e \<in> set all" and w: "md_WindowStart (?at d) = md_WindowStart (?at e)"
    have eq: "doc_id d = doc_id e"
    proof (rule one_gauge [OF assms(1,2)])
      show "doc_id d \<in> recorded ?m q ''gauges'' (md_WindowStart (?at d))" using sl(2) [OF d] by (rule conjunct2)
      show "doc_id e \<in> recorded ?m q ''gauges'' (md_WindowStart (?at d))" unfolding w using sl(2) [OF e] by (rule conjunct2)
    qed
    have "Some d = Some e" by (rule trans [OF sl(1) [OF d, unfolded eq, symmetric] sl(1) [OF e]])
    then show "d = e" by (rule option.inject [THEN iffD1])
  qed
  moreover have "distinct all" using all(1) unfolding listing_def distinct_map by blast
  ultimately have "distinct (map md_WindowStart gs)" by (simp add: gs distinct_map comp_def)
  moreover have "bson_ms start \<le> md_WindowStart g \<and> (\<exists>i. recorded ?m q ''gauges'' (md_WindowStart g) = {i} \<and> metric_at ?m i = g)"
    if g: "g \<in> set gs" for g
  proof -
    obtain d where d: "d \<in> set all" "g = ?at d" using g unfolding gs by auto
    have "recorded ?m q ''gauges'' (md_WindowStart g) = {doc_id d}"
      using sl(2) [OF d(1)] one_gauge [OF assms(1,2)] d(2) by blast
    then show ?thesis using sl(2) [OF d(1)] d(2) by blast
  qed
  moreover have "w \<in> md_WindowStart ` set gs" if "bson_ms start \<le> w" "recorded ?m q ''gauges'' w \<noteq> {}" for w
    using sl(3) [OF that(1)] that(2) unfolding gs by auto
  ultimately show ?thesis unfolding gauges_found_def by blast
qed

text \<open>One row of the grouping: the sums of what is recorded for its window.\<close>

lemma sums_row:
  assumes "mv_ok mv s" "metrics_typed (mv_db mv s MetricsCol)"
    and "listing (series_filter q ''counters'' start) [] (mv_db mv s MetricsCol) all"
    and "map_of d ''_id'' \<in> (\<lambda>d. Some (or_null (map_of d ''window_start''))) ` set all"
    and "\<forall>k \<in> set [''enqueued'', ''claimed'', ''c_done'', ''c_failed'', ''c_dead'']. map_of d k =
      Some (BInt (sum_field k (filter (\<lambda>e. or_null (map_of e ''window_start'') = doc_id d) all)))"
    and "cs_decode d = Some c"
  shows "doc_id d = BTime (cs_Window c) \<and> bson_ms start \<le> cs_Window c \<and>
    recorded (mv_db mv s MetricsCol) q ''counters'' (cs_Window c) \<noteq> {} \<and>
    (let t = total (mv_db mv s MetricsCol) q ''counters'' (cs_Window c) in cs_Enqueued c = t md_Enqueued \<and>
       cs_Claimed c = t md_Claimed \<and> cs_CDone c = t md_CDone \<and> cs_CFailed c = t md_CFailed \<and> cs_CDead c = t md_CDead)"
proof -
  let ?m = "mv_db mv s MetricsCol" and ?ks = "[''enqueued'', ''claimed'', ''c_done'', ''c_failed'', ''c_dead'']"
  note ids = ids_of [OF assms(1), of MetricsCol]
  note sl = series_listing [OF assms(2) ids assms(3)]
  have win: "Some (or_null (map_of e ''window_start'')) = Some (BTime (md_WindowStart (metric_at ?m (doc_id e))))"
    if "e \<in> set all" for e using typed_lookups(3) [OF assms(2) sl(1) [OF that]] by simp
  have "map_of d ''_id'' \<in> (\<lambda>d. Some (or_null (map_of d ''window_start''))) ` set all"
    by (rule assms(4))
  then obtain e where e: "e \<in> set all" "map_of d ''_id'' = Some (BTime (md_WindowStart (metric_at ?m (doc_id e))))"
    using win by auto
  have w: "cs_Window c = md_WindowStart (metric_at ?m (doc_id e))" using assms(6) e(2) by (simp add: cs_decode_iff get_field_def)
  then have id: "doc_id d = BTime (cs_Window c)" using e(2) by (simp add: doc_id_def)
  have start: "bson_ms start \<le> cs_Window c" using sl(2) [OF e(1)] by (simp add: w)
  have sum: "map_of d k = Some (BInt (total ?m q ''counters'' (cs_Window c) f))"
    if "(k, f) \<in> {(''enqueued'', md_Enqueued), (''claimed'', md_Claimed), (''c_done'', md_CDone), (''c_failed'', md_CFailed), (''c_dead'', md_CDead)}"
    for k f
  proof -
    have "k \<in> set ?ks" using that by auto
    then have "map_of d k = Some (BInt (sum_field k (filter (\<lambda>e. or_null (map_of e ''window_start'') = BTime (cs_Window c)) all)))"
      using assms(5) unfolding id [symmetric] by blast
    then show ?thesis unfolding group_total [OF assms(2) ids assms(3) start that] .
  qed
  have "cs_Enqueued c = total ?m q ''counters'' (cs_Window c) md_Enqueued" "cs_Claimed c = total ?m q ''counters'' (cs_Window c) md_Claimed"
    "cs_CDone c = total ?m q ''counters'' (cs_Window c) md_CDone" "cs_CFailed c = total ?m q ''counters'' (cs_Window c) md_CFailed"
    "cs_CDead c = total ?m q ''counters'' (cs_Window c) md_CDead"
    using assms(6) sum [of "''enqueued''" md_Enqueued] sum [of "''claimed''" md_Claimed] sum [of "''c_done''" md_CDone]
      sum [of "''c_failed''" md_CFailed] sum [of "''c_dead''" md_CDead]
    by (simp_all add: cs_decode_iff get_field_def)
  moreover have "recorded ?m q ''counters'' (cs_Window c) \<noteq> {}" using sl(2) [OF e(1)] w by auto
  ultimately show ?thesis using id start by (simp add: Let_def)
qed

lemma sums_read:
  assumes "mv_ok mv s" "metrics_typed (mv_db mv s MetricsCol)"
    and grp: "dv_GroupSum dr MetricsCol (series_filter q ''counters'' start) ''window_start''
      [''enqueued'', ''claimed'', ''c_done'', ''c_failed'', ''c_dead''] s = Inr ds"
    and dec: "those (map cs_decode ds) = Some cs"
  shows "sums_found (mv_db mv s MetricsCol) q start cs"
proof -
  let ?m = "mv_db mv s MetricsCol" and ?ks = "[''enqueued'', ''claimed'', ''c_done'', ''c_failed'', ''c_dead'']"
  obtain all where all: "listing (series_filter q ''counters'' start) [] ?m all" "distinct (map doc_id ds)"
      "(\<lambda>d. map_of d ''_id'') ` set ds = (\<lambda>d. Some (or_null (map_of d ''window_start''))) ` set all"
      "\<forall>d \<in> set ds. \<forall>k \<in> set ?ks. map_of d k =
         Some (BInt (sum_field k (filter (\<lambda>e. or_null (map_of e ''window_start'') = doc_id d) all)))"
    using group_sum [OF assms(1) grp] by (elim exE conjE) (rule that)
  note ids = ids_of [OF assms(1), of MetricsCol]
  note sl = series_listing [OF assms(2) ids all(1)]
  have win: "Some (or_null (map_of e ''window_start'')) = Some (BTime (md_WindowStart (metric_at ?m (doc_id e))))"
    if "e \<in> set all" for e using typed_lookups(3) [OF assms(2) sl(1) [OF that]] by simp
  have row: "doc_id d = BTime (cs_Window c) \<and> bson_ms start \<le> cs_Window c \<and> recorded ?m q ''counters'' (cs_Window c) \<noteq> {} \<and>
      (let t = total ?m q ''counters'' (cs_Window c) in cs_Enqueued c = t md_Enqueued \<and> cs_Claimed c = t md_Claimed \<and>
         cs_CDone c = t md_CDone \<and> cs_CFailed c = t md_CFailed \<and> cs_CDead c = t md_CDead)"
    if d: "d \<in> set ds" and c: "cs_decode d = Some c" for d c
  proof (rule sums_row [OF assms(1,2) all(1) _ _ c])
    show "map_of d ''_id'' \<in> (\<lambda>d. Some (or_null (map_of d ''window_start''))) ` set all"
      using d all(3) by (metis (no_types, lifting) image_eqI)
    show "\<forall>k \<in> set ?ks. map_of d k = Some (BInt (sum_field k (filter (\<lambda>e. or_null (map_of e ''window_start'') = doc_id d) all)))"
      using all(4) d by blast
  qed
  have dec': "map cs_decode ds = map Some cs" by (rule those_Some [OF dec])
  have rows: "\<exists>d \<in> set ds. cs_decode d = Some c" if "c \<in> set cs" for c
    using that arg_cong [OF dec', of set] by (metis (no_types, lifting) image_iff set_map)
  have "map doc_id ds = map (\<lambda>c. BTime (cs_Window c)) cs" by (rule map_through [OF dec']) (use row in blast)
  then have "distinct (map (\<lambda>c. BTime (cs_Window c)) cs)" using all(2) by simp
  then have "distinct (map cs_Window cs)" by (simp add: distinct_map inj_on_def)
  moreover have "w \<in> cs_Window ` set cs" if w: "bson_ms start \<le> w" "recorded ?m q ''counters'' w \<noteq> {}" for w
  proof -
    obtain e where e: "e \<in> set all" "md_WindowStart (metric_at ?m (doc_id e)) = w" using sl(3) [OF w(1)] w(2) by blast
    then have "Some (BTime w) \<in> (\<lambda>d. map_of d ''_id'') ` set ds" using all(3) win [OF e(1)] by (metis (no_types, lifting) image_eqI)
    then obtain d where d: "d \<in> set ds" "map_of d ''_id'' = Some (BTime w)" by auto
    then obtain c where c: "c \<in> set cs" "cs_decode d = Some c" using arg_cong [OF dec', of set] by (metis (no_types, lifting) image_iff set_map)
    have "cs_Window c = w" using c(2) d(2) by (simp add: cs_decode_iff get_field_def)
    with c(1) show ?thesis by blast
  qed
  ultimately show ?thesis using row rows unfolding sums_found_def by blast
qed

lemma series_spec:
  assumes "mv_ok mv s" "metrics_typed (mv_db mv s MetricsCol)" "mg_MetricsSeries dr q start s = Inr ps"
  shows "sorted_wrt (<) (map mp_WindowStart ps) \<and>
    set (map mp_WindowStart ps) = {w. bson_ms start \<le> w \<and> (recorded (mv_db mv s MetricsCol) q ''gauges'' w \<noteq> {} \<or>
      recorded (mv_db mv s MetricsCol) q ''counters'' w \<noteq> {})} \<and>
    (\<forall>p \<in> set ps. point_exact (mv_db mv s MetricsCol) q p)"
proof -
  obtain ds gs rows cs where r: "dv_Find dr MetricsCol (series_filter q ''gauges'' start) [] None [] s = Inr ds"
      "those (map md_decode ds) = Some gs"
      "dv_GroupSum dr MetricsCol (series_filter q ''counters'' start) ''window_start''
        [''enqueued'', ''claimed'', ''c_done'', ''c_failed'', ''c_dead''] s = Inr rows"
      "those (map cs_decode rows) = Some cs" "ps = sortMetricPoints (map snd (fold put_sums cs (fold put_gauges gs [])))"
    using assms(3) by (auto simp: mg_MetricsSeries_def Let_def split: sum.splits option.splits)
  let ?M = "fold put_sums cs (fold put_gauges gs [])"
  note M = merge_exact [OF gauges_read [OF assms(1,2) r(1,2)] sums_read [OF assms(1,2) r(3,4)] refl]
  note wp = windowed_points [OF M(1)]
  have perm: "mset ps = mset (map snd ?M)" and srt: "sorted (map mp_WindowStart ps)"
    using sortMetricPoints_spec [of "map snd ?M"] unfolding r(5) by simp_all
  have set: "set ps = set (map snd ?M)" using arg_cong [OF perm, of set_mset] by simp
  have "mset (map mp_WindowStart ps) = mset (map mp_WindowStart (map snd ?M))" using perm by (metis mset_map)
  then have "distinct (map mp_WindowStart ps)" using wp(1) by (metis mset_eq_imp_distinct_iff)
  with srt have "sorted_wrt (<) (map mp_WindowStart ps)" by (simp add: strict_sorted_iff)
  moreover have "set (map mp_WindowStart ps) = dom (map_of ?M)" using wp(3) by (simp add: set image_image)
  moreover have "point_exact (mv_db mv s MetricsCol) q p" if "p \<in> set ps" for p
    using M(3) wp(2) that unfolding set by blast
  ultimately show ?thesis unfolding M(2) by blast
qed

end

context mongo begin

lemma metric_step_typed:
  assumes "mv_ok mv s" "metrics_typed (mv_db mv s MetricsCol)"
  shows "mv_ok mv (metric_step dr k s) \<and> metrics_typed (mv_db mv (metric_step dr k s) MetricsCol)"
proof (cases k)
  case (MSnapshot now qs w iv)
  then show ?thesis using snapshot_typed [OF assms prod.collapse [symmetric], of now qs w iv] by simp
next
  case (MRecord mid w iv cs)
  then show ?thesis using record_typed [OF assms prod.collapse [symmetric], of mid w iv cs] by simp
qed

lemma metrics_run_typed:
  assumes "mv_ok mv s" "metrics_typed (mv_db mv s MetricsCol)"
  shows "mv_ok mv (fold (metric_step dr) ks s) \<and> metrics_typed (mv_db mv (fold (metric_step dr) ks s) MetricsCol)"
  using assms by (induction ks arbitrary: s) (simp_all add: metric_step_typed)

end

text \<open>
  C32: a series is exact. Whatever snapshots and counters managers recorded on an empty collection,
  \<open>MetricsSeries\<close> returns one point per window from \<open>start\<close> on in which the queue has metrics, in
  strictly rising order; a point's gauges are those of its window's only gauge document (0 when there
  is none) and its counters the sums over every manager's document of the window.
\<close>

theorem mongo_series_exact:
  assumes "mongo dr mv" "mv_ok mv s0" "mv_db mv s0 MetricsCol = Map.empty" "s = fold (metric_step dr) ks s0"
    and "mg_MetricsSeries dr q start s = Inr ps"
  shows "sorted_wrt (<) (map mp_WindowStart ps) \<and>
    set (map mp_WindowStart ps) = {w. bson_ms start \<le> w \<and> (recorded (mv_db mv s MetricsCol) q ''gauges'' w \<noteq> {} \<or>
      recorded (mv_db mv s MetricsCol) q ''counters'' w \<noteq> {})} \<and>
    (\<forall>p \<in> set ps. point_exact (mv_db mv s MetricsCol) q p)"
proof -
  have "metrics_typed (mv_db mv s0 MetricsCol)" by (simp add: metrics_typed_def assms(3))
  from mongo.metrics_run_typed [OF assms(1,2) this, of ks] show ?thesis
    unfolding assms(4) [symmetric] using mongo.series_spec [OF assms(1) _ _ assms(5)] by blast
qed

definition demo_counters :: "int \<Rightarrow> queue_counters" where
  "demo_counters n = zero_counters\<lparr>qc_Enqueued := n, qc_Done := 1\<rparr>"

text \<open>Two managers close two windows of ten seconds each, the later one first.\<close>

definition demo_metrics :: "metric_call list" where
  "demo_metrics = [MRecord ''m1'' 10000000000 (seconds 10) [(''q'', demo_counters 3), (''p'', demo_counters 1)],
     MSnapshot 20000000000 [''q''] 10000000000 (seconds 10), MRecord ''m2'' 10000000000 (seconds 10) [(''q'', demo_counters 4)],
     MRecord ''m1'' 0 (seconds 10) [(''q'', demo_counters 1)]]"

definition demo_series :: "metric_point list" where
  "demo_series = projr (mg_MetricsSeries ref_driver ''q'' 0 (fold (metric_step ref_driver) demo_metrics ref_init))"

lemma demo_series_points:
  "\<not> isl (mg_MetricsSeries ref_driver ''q'' 0 (fold (metric_step ref_driver) demo_metrics ref_init)) \<and>
    map (\<lambda>p. (mp_WindowStart p, mp_Enqueued p, mp_CDone p)) demo_series = [(0, 1, 1), (10000000000, 7, 2)]"
  by code_simp

lemma mongo_series_exact_witness:
  "\<exists>p. p \<in> set demo_series \<and> mp_Enqueued p = 7 \<and>
    point_exact (ref_table (rs_metrics (fold (metric_step ref_driver) demo_metrics ref_init))) ''q'' p"
proof -
  have "(10000000000, 7, 2) \<in> set (map (\<lambda>p. (mp_WindowStart p, mp_Enqueued p, mp_CDone p)) demo_series)"
    using demo_series_points by simp
  then obtain p where p: "p \<in> set demo_series" "mp_Enqueued p = 7" by auto
  have "mg_MetricsSeries ref_driver ''q'' 0 (fold (metric_step ref_driver) demo_metrics ref_init) = Inr demo_series"
    using demo_series_points by (simp add: demo_series_def sum.expand split: sum.splits)
  moreover have "mv_ok ref_view ref_init" using ref_fresh by (simp add: mongo_fresh_def)
  moreover have "mv_db ref_view ref_init MetricsCol = Map.empty" by (simp add: ref_init_def ref_table_def)
  ultimately have "point_exact (mv_db ref_view (fold (metric_step ref_driver) demo_metrics ref_init) MetricsCol) ''q'' p"
    using mongo_series_exact [OF ref.mongo_axioms _ _ refl] p(1) by blast
  with p show ?thesis by auto
qed

end
