(* ===== verification/Spec2Isabelle.thy ===== *)
theory Spec2Isabelle
  imports Backoff Heartbeat Shutdown Chaos_Worker Manager_Enqueue Manager_Counters Dashboard_Pages Fleet_Claims
    Watch_Props Mongo_Fleet Mongo_Batch Mongo_Claiming Mongo_Fencing Mongo_Enqueue Mongo_Policies
    Mongo_Listing Mongo_Series
begin

text \<open>
  A verification development for gotasks, a task queue for Go. Managers in any number of processes
  share a store; producers enqueue tasks, workers claim a task under a lease with a fencing token, run
  its handler and record the outcome under that token; a task whose lease lapses is claimed again
  until its attempts are used up.

  \<^bold>\<open>The parts.\<close>
  \<^item> \<open>Prelude\<close>, \<open>Go_Time\<close>, \<open>Core_Types\<close>: association lists for Go maps, times as integers of nanoseconds,
    durations as 64-bit words, and the data of \<open>task.go\<close> and \<open>store.go\<close> (tasks, statuses, errors as
    one datatype, claim options, outcomes, counters, policies).
  \<^item> \<open>Backoff\<close>: \<open>backoff.go\<close>, with the wrap-around of its doubling.
  \<^item> \<open>Contract\<close>: the abstract machine the \<open>Store\<close> interface documents, over tasks with limits, live
    claims and used tokens, with its invariants. \<open>Store_Interface\<close>: the interface as a record of
    methods and, as the locale \<open>store_contract\<close>, the laws a store owes its clients: every call is a
    run of that machine. \<open>Store_Client\<close>: what follows for any program of calls.
  \<^item> \<open>Config\<close>, \<open>Config_Props\<close>: \<open>options.go\<close> and \<open>New\<close>; the two pointers of the configuration are
    addresses of a heap, because \<open>New\<close> writes through them.
  \<^item> \<open>Manager\<close>, \<open>Worker\<close>, \<open>Fetcher\<close>, \<open>Shutdown\<close>: \<open>manager.go\<close>, \<open>worker.go\<close> and \<open>fetcher.go\<close>. A method
    is a function of the manager's record and the store's state; a loop is its round; a choice of
    \<open>select\<close>, a clock reading, a random byte is an argument. \<open>Heartbeat\<close>: the heartbeat's loop over the
    memory store. \<open>Manager_Enqueue\<close> and \<open>Manager_Counters\<close>: what enqueueing through a manager does,
    and where its counters go.
  \<^item> \<open>Fleet\<close>: all goroutines of all processes as a step relation, interleaved at their calls on the
    shared store, with crashes, operators and expiry; \<open>Fleet_Inv\<close>, \<open>Fleet_Sim\<close>, \<open>Fleet_Safety\<close>,
    \<open>Fleet_Claims\<close> carry its invariant over any store that satisfies the contract.
  \<^item> \<open>Memstore\<close> and the theories \<open>Memstore_*\<close>: \<open>stores/memstore/memstore.go\<close>, the refinement of the
    contract and what each operation does.
  \<^item> \<open>Mongo_Doc\<close>, \<open>Mongo_Driver\<close>: BSON values, filters and updates as data with MongoDB's meaning of
    them, and the driver's calls as a record of functions. \<open>Mongostore\<close>, \<open>Mongo_Ops\<close>,
    \<open>Mongo_Registry\<close>, \<open>Mongo_Metrics\<close>, \<open>Mongo_Introspection\<close>: the files of \<open>stores/mongostore\<close>, over
    that record. \<open>Mongo_Codec\<close>, \<open>Mongo_Sim\<close>, \<open>Mongo_Inserts\<close>, \<open>Mongo_Claims\<close>, \<open>Mongo_Refine\<close>: the
    refinement of the contract. \<open>Mongo_Reference\<close>: a server that satisfies the hypotheses.
    \<open>Mongo_Runs\<close>, \<open>Mongo_Fleet\<close>, \<open>Mongo_Batch\<close>, \<open>Mongo_Claiming\<close>, \<open>Mongo_Fencing\<close>, \<open>Mongo_Enqueue\<close>,
    \<open>Mongo_Policies\<close>, \<open>Mongo_Listing\<close>, \<open>Mongo_Gauges\<close>, \<open>Mongo_Points\<close>, \<open>Mongo_Series\<close>: what each
    operation does.
  \<^item> \<open>Time_Heap\<close>, \<open>Watch\<close>, \<open>Watch_Props\<close>: \<open>stores/mongostore/watch.go\<close>, the change stream's filter
    and the two goroutines behind the nudge channel.
  \<^item> \<open>Dashboard\<close>, \<open>Dashboard_Pages\<close>: \<open>dashboard/dashboard.go\<close>. \<open>Chaos_Worker\<close>: the process of the
    chaos tests, \<open>internal/chaosworker/main.go\<close>.

  \<^bold>\<open>How they fit.\<close> The manager relies on \<open>store_contract\<close> alone. The memory store and the MongoDB store
  interpret it, so the fleet's theorems hold over each. The MongoDB store relies on the locale
  \<open>mongo\<close>, the documented behaviour of the server and the Go driver; the reference server interprets it,
  and the witnesses of the theorems over MongoDB run on that server.
\<close>

text \<open>
  \<^bold>\<open>What is shown.\<close> Of the fleet: no claim's handler is started twice, and a task runs at most as often
  as its limit allows, over both stores, with the server's expiry for MongoDB. Of each store: its runs
  are runs of the abstract machine; a claim is finalized once, and a superseded one is rejected; claims
  take the oldest due task; a batch is exclusive although other clients run between its round trips;
  \<open>Enqueue\<close>, the finalizers, the sweeps, the registry and the metrics do exactly what their
  callers read; documents decode to what was enqueued. Of the watcher: its filter passes exactly
  what may be claimable, no deadline is forgotten, and the race at its shutdown. Of the manager: which
  options \<open>New\<close> takes and what it makes of them, the bounds of the backoff, what an enqueue sends and
  counts, that no count is lost between manager and store, that a heartbeat in time keeps the claim
  until the outcome is written, the end of the flusher. Of the dashboard: following its pages ends and
  misses nothing.

  \<^bold>\<open>Bounds and fuel.\<close> The loops of the code are functions by recursion on their data or by a measure
  (the heap's sifting, the pops of what is due, the doubling of the backoff), so they end; endless
  goroutines are step relations. Two functions count rounds: \<open>drain\<close> runs the flusher for at most two,
  which is enough, and \<open>walk\<close> pages for one request more than there are full pages, which is enough;
  both facts are part of the theorems. The limits of the code itself (4096 deadlines, 64 waiting run
  times, 200 tasks a page) are in the definitions.

  \<^bold>\<open>Hypotheses.\<close> \<open>store_contract\<close> is discharged for both stores. \<open>mongo\<close> states what the server and
  the driver document: single-document atomicity, what a failed write may have done, unique indexes,
  the order and limit of a search, that an object id or a uuid is new. \<open>mongo_fresh\<close> adds that the
  tasks collection is empty at first and the size of an insert's chunk is positive. Hexadecimal ids have
  two spellings in the driver; theorems about calls that take an id hold for \<open>strict_ids\<close>, where an id
  is accepted only in the spelling the store returns. \<open>calls_ok\<close> says that enqueued tasks are pending
  and unleased, as the manager builds them.

  \<^bold>\<open>Not modelled.\<close> Logging, \<open>Error()\<close> texts beyond what distinguishes errors, and the dashboard's page.
  Contexts appear as the flags their users test; the blocking of channels and the wait group is the
  interleaving of \<open>Fleet\<close> and \<open>Watch\<close>. JSON and BSON conversion are parameters. A metrics retention
  beyond 68 years, where \<open>int32\<close> overflows, is out of scope. The programs under \<open>examples\<close> are straight
  lines of calls of the library.
\<close>

end
